(* ===== verification/Prelude.thy ===== *)
theory Prelude
  imports Main "HOL-Library.Word"
begin

text \<open>
  Shared vocabulary of the development: the machine types of the C++ sources, the faults that a
  C++ execution can end in, the sequencing operator on fallible results, and the generic lemmas on
  lists and results that the component theories use.
\<close>

unbundle bit_operations_syntax

subsection \<open>Machine types\<close>

text \<open>
  \<open>size_t\<close> and \<open>uint64_t\<close> are 64 bits wide on the 64-bit Android targets of the repository;
  arithmetic on them wraps.  Token ids and session ids are \<open>int32_t\<close>; the code only compares and
  prints them, so they are \<open>int\<close>.
\<close>

type_synonym size_t = "64 word"
type_synonym llama_token = int

definition to_int32 :: "int \<Rightarrow> int" where
  "to_int32 x = sint (word_of_int x :: 32 word)"

lemma to_int32_id: "- (2 ^ 31) \<le> x \<Longrightarrow> x < 2 ^ 31 \<Longrightarrow> to_int32 x = x"
  by (simp add: to_int32_def sint_sbintrunc' signed_take_bit_int_eq_self)

lemma to_int32_bounds: "- (2 ^ 31) \<le> to_int32 x \<and> to_int32 x < 2 ^ 31"
  unfolding to_int32_def
  using sint_ge [of "word_of_int x :: 32 word"] sint_lt [of "word_of_int x :: 32 word"] by simp

subsection \<open>Faults and fallible results\<close>

text \<open>
  A fault is an end of the execution that is not a return: undefined behaviour (a dangling
  reference, an invalid list iterator, a null pointer, a freed llama context, unsynchronised accesses
  of two threads), an uncaught C++ exception, or a loop that never ends.
\<close>

datatype fault =
    DanglingReference
  | InvalidIterator
  | NullDereference
  | OutOfRange
  | LengthError
  | Diverges
  | FreedContext
  | DataRace

type_synonym 'a result = "fault + 'a"

definition bindR :: "'a result \<Rightarrow> ('a \<Rightarrow> 'b result) \<Rightarrow> 'b result" where
  "bindR r f = (case r of Inl e \<Rightarrow> Inl e | Inr a \<Rightarrow> f a)"

lemma bindR_simps [simp]:
  "bindR (Inl e) f = Inl e"
  "bindR (Inr a) f = f a"
  by (simp_all add: bindR_def)

lemma bindR_Inr_iff: "bindR r f = Inr b \<longleftrightarrow> (\<exists>a. r = Inr a \<and> f a = Inr b)"
  by (cases r) auto

lemma bindR_Inl_iff: "bindR r f = Inl e \<longleftrightarrow> r = Inl e \<or> (\<exists>a. r = Inr a \<and> f a = Inl e)"
  by (cases r) auto

lemma bindR_cong [fundef_cong]:
  "r = r' \<Longrightarrow> (\<And>a. r' = Inr a \<Longrightarrow> f a = g a) \<Longrightarrow> bindR r f = bindR r' g"
  by (cases r') auto

fun fault_of :: "'a result \<Rightarrow> fault option" where
  "fault_of (Inl f) = Some f"
| "fault_of (Inr a) = None"

fun value_of :: "'a result \<Rightarrow> 'a option" where
  "value_of (Inl f) = None"
| "value_of (Inr a) = Some a"

lemma value_of_Some: "value_of r = Some a \<longleftrightarrow> r = Inr a"
  by (cases r) auto

lemma fault_of_Some: "fault_of r = Some f \<longleftrightarrow> r = Inl f"
  by (cases r) auto

text \<open>Facts that invert a successful sequence of steps.\<close>

named_theorems result_inv "inversion of successful results"
declare bindR_Inr_iff [result_inv]

subsection \<open>Lists\<close>

definition resize :: "nat \<Rightarrow> 'a \<Rightarrow> 'a list \<Rightarrow> 'a list" where
  \<comment> \<open>\<open>std::vector::resize\<close>: truncate, or extend by copies of a default value\<close>
  "resize n d xs = take n xs @ replicate (n - length xs) d"

lemma length_resize [simp]: "length (resize n d xs) = n"
  by (simp add: resize_def)

lemma resize_append: "n = length xs \<Longrightarrow> resize n d (xs @ ys) = xs"
  by (simp add: resize_def)

lemma filter_fst_neq_length:
  "n \<in> fst ` set l \<Longrightarrow> length (filter (\<lambda>p. fst p \<noteq> n) l) < length l"
  by (induction l) (auto simp: le_imp_less_Suc)

lemma sum_list_filter_fst:
  fixes f :: "'a \<times> 'b \<Rightarrow> 'c::ab_group_add"
  assumes "distinct (map fst l)" and "(n, i) \<in> set l"
  shows "sum_list (map f (filter (\<lambda>p. fst p \<noteq> n) l)) = sum_list (map f l) - f (n, i)"
  using assms
proof (induction l)
  case (Cons p l)
  show ?case
  proof (cases "fst p = n")
    case True
    with Cons.prems have p: "p = (n, i)" and "n \<notin> fst ` set l"
      by (force simp: image_iff)+
    then have "filter (\<lambda>p. fst p \<noteq> n) l = l"
      by (auto intro!: filter_True)
    with p show ?thesis by simp
  next
    case False
    with Cons show ?thesis by auto
  qed
qed simp

lemma distinct_map_filter_fst: "distinct (map fst l) \<Longrightarrow> distinct (map fst (filter P l))"
  by (rule distinct_map_filter)

subsection \<open>Sequences of operations\<close>

primrec runR :: "('c \<Rightarrow> 's \<Rightarrow> 's result) \<Rightarrow> 'c list \<Rightarrow> 's \<Rightarrow> 's result" where
  "runR exec [] s = Inr s"
| "runR exec (c # cs) s = bindR (exec c s) (runR exec cs)"

lemma runR_append: "runR exec (cs @ ds) s = bindR (runR exec cs s) (runR exec ds)"
  by (induction cs arbitrary: s) (auto simp: bindR_def split: sum.splits)

primrec guardedR :: "('c \<Rightarrow> 's \<Rightarrow> 's result) \<Rightarrow> ('c \<Rightarrow> 's \<Rightarrow> bool) \<Rightarrow> 'c list \<Rightarrow> 's \<Rightarrow> bool" where
  \<comment> \<open>every command of the run is allowed in the state in which it is given\<close>
  "guardedR exec guard [] s = True"
| "guardedR exec guard (c # cs) s =
     (guard c s \<and> (case exec c s of Inl f \<Rightarrow> True | Inr s' \<Rightarrow> guardedR exec guard cs s'))"

lemma guardedR_append:
  "guardedR exec guard (cs @ ds) s \<longleftrightarrow> guardedR exec guard cs s \<and>
     (case runR exec cs s of Inl f \<Rightarrow> True | Inr s' \<Rightarrow> guardedR exec guard ds s')"
  by (induction cs arbitrary: s) (auto simp: bindR_def split: sum.splits)

text \<open>
  A machine whose operations keep an invariant and fault, if at all, in known ways, as long as its
  clients give a command only where a guard allows it.
\<close>

locale guarded_machine =
  fixes exec :: "'c \<Rightarrow> 's \<Rightarrow> 's result"
    and inv :: "'s \<Rightarrow> bool"
    and guard :: "'c \<Rightarrow> 's \<Rightarrow> bool"
    and tolerated :: "fault \<Rightarrow> bool"
  assumes guarded_keeps: "inv s \<Longrightarrow> guard c s \<Longrightarrow> exec c s = Inr s' \<Longrightarrow> inv s'"
    and guarded_faults: "inv s \<Longrightarrow> guard c s \<Longrightarrow> exec c s = Inl f \<Longrightarrow> tolerated f"
begin

lemma guarded_run_keeps: "inv s \<Longrightarrow> guardedR exec guard cs s \<Longrightarrow> runR exec cs s = Inr s' \<Longrightarrow> inv s'"
proof (induction cs arbitrary: s)
  case (Cons c cs)
  then obtain s1 where s1: "exec c s = Inr s1" "runR exec cs s1 = Inr s'" by (auto simp: bindR_Inr_iff)
  then show ?case using Cons.IH [OF guarded_keeps [OF Cons.prems(1) _ s1(1)]] Cons.prems(2) by simp
qed simp

lemma guarded_run_faults: "inv s \<Longrightarrow> guardedR exec guard cs s \<Longrightarrow> runR exec cs s = Inl f \<Longrightarrow> tolerated f"
proof (induction cs arbitrary: s)
  case (Cons c cs)
  show ?case
  proof (cases "exec c s")
    case (Inl x)
    then show ?thesis using guarded_faults [OF Cons.prems(1) _ Inl] Cons.prems(2,3) by simp
  next
    case (Inr s1)
    then show ?thesis using Cons.IH [OF guarded_keeps [OF Cons.prems(1) _ Inr]] Cons.prems(2,3) by simp
  qed
qed simp

lemma guarded_run_total:
  assumes "\<And>f. \<not> tolerated f" and "inv s" "guardedR exec guard cs s"
  shows "\<exists>s'. runR exec cs s = Inr s' \<and> inv s'"
  using assms guarded_run_keeps guarded_run_faults by (cases "runR exec cs s") blast+

end

text \<open>
  The special case in which the guard looks at the command only: the commands a law speaks of are
  restricted, and any sequence of them is a guarded run.
\<close>

locale machine =
  fixes exec :: "'c \<Rightarrow> 's \<Rightarrow> 's result"
    and inv :: "'s \<Rightarrow> bool"
    and ok :: "'c \<Rightarrow> bool"
    and tolerated :: "fault \<Rightarrow> bool"
  assumes keeps: "inv s \<Longrightarrow> ok c \<Longrightarrow> exec c s = Inr s' \<Longrightarrow> inv s'"
    and faults: "inv s \<Longrightarrow> ok c \<Longrightarrow> exec c s = Inl f \<Longrightarrow> tolerated f"

sublocale machine \<subseteq> always: guarded_machine exec inv "\<lambda>c s. ok c" tolerated
  by unfold_locales (rule keeps faults; assumption)+

context machine
begin

lemma guarded_all: "list_all ok cs \<Longrightarrow> guardedR exec (\<lambda>c s. ok c) cs s"
  by (induction cs arbitrary: s) (auto split: sum.splits)

lemma run_keeps: "inv s \<Longrightarrow> list_all ok cs \<Longrightarrow> runR exec cs s = Inr s' \<Longrightarrow> inv s'"
  by (rule always.guarded_run_keeps [OF _ guarded_all])

lemma run_faults: "inv s \<Longrightarrow> list_all ok cs \<Longrightarrow> runR exec cs s = Inl f \<Longrightarrow> tolerated f"
  by (rule always.guarded_run_faults [OF _ guarded_all])

lemma run_total:
  assumes "\<And>f. \<not> tolerated f" and "inv s" "list_all ok cs"
  shows "\<exists>s'. runR exec cs s = Inr s' \<and> inv s'"
  using assms run_keeps run_faults by (cases "runR exec cs s") blast+

end

end
