(* ===== verification/Std_List.thy ===== *)
theory Std_List
  imports Prelude
begin

text \<open>
  \<open>std::list<int>\<close> as the session manager uses it: a list of nodes, each with an identity of its own,
  and iterators that name a node.  \<open>erase\<close> through an iterator that is singular or whose node is not
  in the list is undefined behaviour in C++; here it is the fault \<open>InvalidIterator\<close>, so that its
  absence is something the development proves.
\<close>

type_synonym node = nat
type_synonym iterator = "node option" \<comment> \<open>\<open>None\<close>: default constructed\<close>
type_synonym id_list = "(node \<times> int) list"

definition push_back :: "node \<Rightarrow> int \<Rightarrow> id_list \<Rightarrow> id_list" where
  "push_back n x l = l @ [(n, x)]"

definition prev_end :: "id_list \<Rightarrow> iterator" where
  \<comment> \<open>\<open>std::prev(l.end())\<close>\<close>
  "prev_end l = (if l = [] then None else Some (fst (last l)))"

definition erase :: "iterator \<Rightarrow> id_list \<Rightarrow> id_list result" where
  "erase it l =
     (case it of
        None \<Rightarrow> Inl InvalidIterator
      | Some n \<Rightarrow>
          if n \<in> fst ` set l then Inr (filter (\<lambda>p. fst p \<noteq> n) l) else Inl InvalidIterator)"

abbreviation ids :: "id_list \<Rightarrow> int list" where
  "ids l \<equiv> map snd l"

lemma prev_end_push_back [simp]: "prev_end (push_back n x l) = Some n"
  by (simp add: prev_end_def push_back_def)

lemma push_back_simps [simp]:
  "set (push_back n x l) = insert (n, x) (set l)"
  "length (push_back n x l) = Suc (length l)"
  "map f (push_back n x l) = map f l @ [f (n, x)]"
  by (auto simp: push_back_def)

lemma erase_member: "(n, i) \<in> set l \<Longrightarrow> erase (Some n) l = Inr (filter (\<lambda>p. fst p \<noteq> n) l)"
  by (force simp: erase_def)

lemma erase_InrD:
  "erase it l = Inr l' \<Longrightarrow> \<exists>n. it = Some n \<and> n \<in> fst ` set l \<and> l' = filter (\<lambda>p. fst p \<noteq> n) l"
  by (auto simp: erase_def split: option.splits if_splits)

lemma erase_shorter: "erase it l = Inr l' \<Longrightarrow> length l' < length l"
  by (auto dest!: erase_InrD intro: filter_fst_neq_length)

lemma erase_InlD: "erase it l = Inl e \<Longrightarrow> e = InvalidIterator"
  by (auto simp: erase_def split: option.splits if_splits)

text \<open>Erasing a node that carries an id once removes exactly that id, in place.\<close>

lemma filter_fst_ids:
  assumes "distinct (map fst l)" and "distinct (ids l)" and "(n, i) \<in> set l"
  shows "ids (filter (\<lambda>p. fst p \<noteq> n) l) = filter (\<lambda>j. j \<noteq> i) (ids l)"
  using assms
proof (induction l)
  case (Cons p l)
  show ?case
  proof (cases "p = (n, i)")
    case True
    with Cons.prems have "n \<notin> fst ` set l" "i \<notin> set (ids l)" by auto
    then have "filter (\<lambda>p. fst p \<noteq> n) l = l" "filter (\<lambda>j. j \<noteq> i) (ids l) = ids l"
      by (auto intro!: filter_True)
    with True show ?thesis by simp
  next
    case False
    with Cons.prems have "(n, i) \<in> set l" by auto
    then have "n \<in> fst ` set l" "i \<in> snd ` set l" by force+
    then have "fst p \<noteq> n" "snd p \<noteq> i" using Cons.prems by auto
    with Cons \<open>(n, i) \<in> set l\<close> show ?thesis by simp
  qed
qed simp

end
