(* ===== verification/C_Stdio.thy ===== *)
theory C_Stdio
  imports Prelude
begin

text \<open>
  The C library routines through which the daemon and its client read and write text, as far as the
  sources use them: \<open>fgets\<close> on a stream, the view of a buffer as a C string, prefix tests,
  \<open>atoi\<close>, \<open>strtoul\<close>, the \<open>sscanf\<close> conversions \<open>%d\<close> and \<open>%511s\<close>, and decimal output.  A stream is
  the string of the bytes that are still to be read before end of file.  Where C leaves the result
  open (a decimal number outside the range of the target type) the definitions follow bionic:
  saturation at the bounds of \<open>long\<close>, then conversion to the 32-bit target.
\<close>

subsection \<open>Lines\<close>

abbreviation newline :: char where "newline \<equiv> CHR 0x0A"
abbreviation nul :: char where "nul \<equiv> CHR 0x00"

fun take_line :: "nat \<Rightarrow> string \<Rightarrow> string" where
  "take_line 0 s = []"
| "take_line (Suc n) [] = []"
| "take_line (Suc n) (c # s) = (if c = newline then [c] else c # take_line n s)"

definition fgets :: "nat \<Rightarrow> string \<Rightarrow> (string \<times> string) option" where
  \<comment> \<open>\<open>fgets(buf, size, stream)\<close>: the characters read and the rest of the stream\<close>
  "fgets n s =
     (if s = [] then None
      else let l = take_line (n - 1) s in Some (l, drop (length l) s))"

definition c_str :: "string \<Rightarrow> string" where
  \<comment> \<open>a character buffer read as a C string ends at the first NUL\<close>
  "c_str s = takeWhile (\<lambda>c. c \<noteq> nul) s"

fun starts_with :: "string \<Rightarrow> string \<Rightarrow> bool" where
  \<comment> \<open>\<open>s.rfind(p, 0) == 0\<close>, \<open>strncmp(s, p, strlen(p)) == 0\<close>\<close>
  "starts_with [] s = True"
| "starts_with (p # ps) [] = False"
| "starts_with (p # ps) (c # s) = (p = c \<and> starts_with ps s)"

definition chomp :: "string \<Rightarrow> string" where
  \<comment> \<open>\<open>if (!s.empty() && s.back() == '\n') s.pop_back()\<close>\<close>
  "chomp s = (if s \<noteq> [] \<and> last s = newline then butlast s else s)"

lemma take_line_prefix: "take_line n s @ drop (length (take_line n s)) s = s"
  by (induction n s rule: take_line.induct) auto

lemma take_line_length: "length (take_line n s) \<le> n"
  by (induction n s rule: take_line.induct) auto

lemma take_line_nonempty: "n \<noteq> 0 \<Longrightarrow> s \<noteq> [] \<Longrightarrow> take_line n s \<noteq> []"
  by (cases n; cases s) auto

lemma take_line_newline:
  "newline \<notin> set l \<Longrightarrow> length l < n \<Longrightarrow> take_line n (l @ newline # r) = l @ [newline]"
proof (induction l arbitrary: n)
  case Nil
  then show ?case by (cases n) auto
next
  case (Cons c l)
  then show ?case by (cases n) auto
qed

lemma take_line_no_newline:
  "newline \<notin> set l \<Longrightarrow> length l = n \<Longrightarrow> take_line n (l @ r) = l"
  by (induction l arbitrary: n) auto

lemma fgets_line:
  "newline \<notin> set l \<Longrightarrow> length l < n - 1 \<Longrightarrow> fgets n (l @ newline # r) = Some (l @ [newline], r)"
  by (simp add: fgets_def take_line_newline Let_def)

lemma fgets_split:
  assumes "fgets n s = Some (l, r)"
  shows "s = l @ r" and "length l \<le> n - 1"
  using assms take_line_prefix [of "n - 1" s] take_line_length [of "n - 1" s]
  by (auto simp: fgets_def Let_def split: if_splits)

lemma fgets_shorter:
  assumes "1 < n" and "fgets n s = Some (l, r)"
  shows "length r < length s"
proof -
  have "s \<noteq> []" and l: "l = take_line (n - 1) s" and r: "r = drop (length l) s"
    using assms(2) by (auto simp: fgets_def Let_def split: if_splits)
  then have "l \<noteq> []" using assms(1) by (simp add: take_line_nonempty)
  with r \<open>s \<noteq> []\<close> show ?thesis by simp
qed

lemma fgets_empty [simp]: "fgets n [] = None"
  by (simp add: fgets_def)

lemma starts_with_append [simp]: "starts_with p (p @ s)"
  by (induction p) auto

lemma starts_with_iff: "starts_with p s \<longleftrightarrow> (\<exists>r. s = p @ r)"
  by (induction p s rule: starts_with.induct) auto

lemma c_str_id: "nul \<notin> set s \<Longrightarrow> c_str s = s"
  by (auto simp: c_str_def takeWhile_eq_all_conv)

lemma chomp_snoc [simp]: "chomp (s @ [newline]) = s"
  by (simp add: chomp_def)

subsection \<open>Decimal output\<close>

definition digit :: "nat \<Rightarrow> char" where
  "digit n = char_of (48 + n)"

fun digits :: "nat \<Rightarrow> string" where
  "digits n = (if n < 10 then [digit n] else digits (n div 10) @ [digit (n mod 10)])"

declare digits.simps [simp del]

definition show_int :: "int \<Rightarrow> string" where
  \<comment> \<open>\<open>std::to_string(int)\<close> and the \<open>%d\<close> of \<open>printf\<close>\<close>
  "show_int i = (if i < 0 then CHR ''-'' # digits (nat (- i)) else digits (nat i))"

subsection \<open>Decimal input\<close>

definition is_digit :: "char \<Rightarrow> bool" where
  "is_digit c \<longleftrightarrow> 48 \<le> (of_char c :: nat) \<and> (of_char c :: nat) \<le> 57"

definition is_space :: "char \<Rightarrow> bool" where
  "is_space c \<longleftrightarrow> of_char c = (32 :: nat) \<or> 9 \<le> (of_char c :: nat) \<and> (of_char c :: nat) \<le> 13"

definition digits_val :: "string \<Rightarrow> nat" where
  "digits_val ds = foldl (\<lambda>v c. v * 10 + (of_char c - 48)) (0 :: nat) ds"

definition scan_int :: "string \<Rightarrow> int option \<times> string" where
  \<comment> \<open>white space, an optional sign, decimal digits; the value and the rest of the input\<close>
  "scan_int s =
     (let s1 = dropWhile is_space s;
          neg = starts_with ''-'' s1;
          s2 = (if neg \<or> starts_with ''+'' s1 then tl s1 else s1);
          ds = takeWhile is_digit s2
      in if ds = [] then (None, s1)
         else (Some (if neg then - int (digits_val ds) else int (digits_val ds)),
               dropWhile is_digit s2))"

definition clamp_long :: "int \<Rightarrow> int" where
  "clamp_long x = max (- (2 ^ 63)) (min (2 ^ 63 - 1) x)"

definition atoi :: "string \<Rightarrow> int" where
  "atoi s = (case fst (scan_int s) of None \<Rightarrow> 0 | Some v \<Rightarrow> to_int32 (clamp_long v))"

definition strtoul :: "string \<Rightarrow> size_t" where
  \<comment> \<open>also \<open>strtoull\<close>: a negative number is negated in the unsigned type, overflow gives the maximum\<close>
  "strtoul s =
     (case fst (scan_int s) of
        None \<Rightarrow> 0
      | Some v \<Rightarrow> if \<bar>v\<bar> < 2 ^ 64 then word_of_int v else - 1)"

definition sscanf_d :: "string \<Rightarrow> (int \<times> string) option" where
  \<comment> \<open>one \<open>%d\<close> conversion; \<open>None\<close> is a matching or input failure, which ends the scan\<close>
  "sscanf_d s =
     (case scan_int s of (None, r) \<Rightarrow> None | (Some v, r) \<Rightarrow> Some (to_int32 (clamp_long v), r))"

definition sscanf_s :: "nat \<Rightarrow> string \<Rightarrow> (string \<times> string) option" where
  \<comment> \<open>one \<open>%<n>s\<close> conversion\<close>
  "sscanf_s n s =
     (let s1 = dropWhile is_space s; w = take n (takeWhile (\<lambda>c. \<not> is_space c) s1)
      in if w = [] then None else Some (w, drop (length w) s1))"

subsection \<open>Reading back decimal output\<close>

lemma digit_code: "n < 10 \<Longrightarrow> of_char (digit n) = (48 + n :: nat)"
  by (simp add: digit_def of_char_of)

lemma is_digit_digit: "n < 10 \<Longrightarrow> is_digit (digit n)"
  by (simp add: is_digit_def digit_code)

lemma digits_nonempty: "digits n \<noteq> []"
  by (subst digits.simps) simp

lemma digits_all: "c \<in> set (digits n) \<Longrightarrow> is_digit c"
proof (induction n rule: digits.induct)
  case (1 n)
  then show ?case
    by (cases "n < 10") (auto simp: digits.simps [of n] is_digit_digit)
qed

lemma digits_val_digits: "digits_val (digits n) = n"
proof (induction n rule: digits.induct)
  case (1 n)
  then show ?case
    by (cases "n < 10") (auto simp: digits.simps [of n] digits_val_def digit_code)
qed

lemma digit_not_other: "is_digit c \<Longrightarrow> c \<noteq> CHR ''-'' \<and> c \<noteq> CHR ''+'' \<and> \<not> is_space c
   \<and> c \<noteq> newline \<and> c \<noteq> nul \<and> c \<noteq> CHR '' '' \<and> c \<noteq> CHR ''/'' \<and> c \<noteq> CHR ''.''"
  by (auto simp: is_digit_def is_space_def)

lemma takeWhile_digits:
  "r = [] \<or> \<not> is_digit (hd r) \<Longrightarrow> takeWhile is_digit (digits n @ r) = digits n"
  using digits_all by (cases r) (auto simp: takeWhile_append2 takeWhile_eq_all_conv)

lemma show_int_cases:
  obtains (neg) "i < 0" "show_int i = CHR ''-'' # digits (nat (- i))"
  | (nonneg) "0 \<le> i" "show_int i = digits (nat i)"
  by (cases "i < 0") (auto simp: show_int_def)

lemma show_int_inj: "show_int i = show_int j \<longleftrightarrow> i = j"
proof
  assume eq: "show_int i = show_int j"
  have inj: "digits m = digits n \<Longrightarrow> m = n" for m n
    by (metis digits_val_digits)
  have nm: "CHR ''-'' # x \<noteq> digits n" for x n
    using digits_all [of "CHR ''-''" n] digit_not_other [of "CHR ''-''"] by (metis list.set_intros(1))
  show "i = j"
    using eq inj [of "nat (- i)" "nat (- j)"] inj [of "nat i" "nat j"] nm
    by (cases i rule: show_int_cases; cases j rule: show_int_cases) (auto, metis)
qed simp

lemma show_int_chars: "c \<in> set (show_int i) \<Longrightarrow> is_digit c \<or> c = CHR ''-''"
  by (cases i rule: show_int_cases) (auto dest: digits_all)

lemma scan_int_show:
  assumes "r = [] \<or> \<not> is_digit (hd r)"
  shows "scan_int (show_int i @ r) = (Some i, r)"
proof (cases i rule: show_int_cases)
  case neg
  have "\<not> is_space (CHR ''-'')" by (simp add: is_space_def)
  with neg assms show ?thesis
    by (simp add: scan_int_def takeWhile_digits digits_nonempty digits_val_digits dropWhile_eq_drop)
next
  case nonneg
  obtain c cs where c: "digits (nat i) = c # cs" by (meson digits_nonempty neq_Nil_conv)
  then have d: "is_digit c" using digits_all [of c "nat i"] by simp
  then have "dropWhile is_space (digits (nat i) @ r) = digits (nat i) @ r"
    and "\<not> starts_with ''-'' (digits (nat i) @ r)" and "\<not> starts_with ''+'' (digits (nat i) @ r)"
    using digit_not_other [OF d] c by (auto)
  with nonneg assms show ?thesis
    by (simp add: scan_int_def takeWhile_digits digits_nonempty digits_val_digits dropWhile_eq_drop)
qed

lemma to_int32_clamp: "- (2 ^ 31) \<le> x \<Longrightarrow> x < 2 ^ 31 \<Longrightarrow> to_int32 (clamp_long x) = x"
  by (simp add: clamp_long_def to_int32_id)

lemma atoi_show:
  assumes "r = [] \<or> \<not> is_digit (hd r)" and "- (2 ^ 31) \<le> i" "i < 2 ^ 31"
  shows "atoi (show_int i @ r) = i"
  using assms by (simp add: atoi_def scan_int_show to_int32_clamp)

subsection \<open>A text encoding that survives the line protocol\<close>

text \<open>
  What the two ends of the token stream rely on: \<open>dec\<close> undoes \<open>enc\<close>, the encoding contains no
  line break, blank or NUL, and it has the length of padded base64.  The client facts are about one
  \<open>TOKEN\<close> line: it is read back whole by a 4096-byte \<open>fgets\<close> as long as the piece is at most
  3000 bytes, and the reader recovers the piece.
\<close>

locale token_codec =
  fixes enc :: "string \<Rightarrow> string" and dec :: "string \<Rightarrow> string"
  assumes dec_enc: "dec (enc s) = s"
    and enc_safe: "set (enc s) \<inter> {newline, nul, CHR '' ''} = {}"
    and enc_length: "length (enc s) = (length s + 2) div 3 * 4"
begin

lemma enc_inj: "enc s = enc t \<longleftrightarrow> s = t"
  by (metis dec_enc)

lemma token_line_fits:
  assumes "length s \<le> 3000"
  shows "length (''TOKEN '' @ enc s) < 4096 - 1"
proof -
  have "(length s + 2) div 3 \<le> 1000" using assms by linarith
  then show ?thesis by (simp add: enc_length)
qed

lemma token_line_read:
  assumes "length s \<le> 3000"
  shows "fgets 4096 (''TOKEN '' @ enc s @ newline # r) = Some (''TOKEN '' @ enc s @ [newline], r)"
  using fgets_line [of "''TOKEN '' @ enc s" 4096 r] enc_safe [of s] token_line_fits [OF assms]
  by auto

lemma token_line_decode:
  "dec (chomp (c_str (drop 6 (''TOKEN '' @ enc s @ [newline])))) = s"
proof -
  have "c_str (enc s @ [newline]) = enc s @ [newline]"
    using enc_safe [of s] by (intro c_str_id) auto
  then show ?thesis by (simp add: dec_enc)
qed

end

end
