(* ===== verification/Ggml_Types.thy ===== *)
theory Ggml_Types
  imports Prelude
begin

text \<open>
  The data types of \<open>prebuilts/npu/include/ggml.h\<close>, \<open>ggml-alloc.h\<close>, \<open>ggml-backend.h\<close> and \<open>ggml-cpu.h\<close>,
  the interface of the prebuilt tensor library under the NPU engine: each enumeration is a datatype
  with the numbers of its constants, each structure a record.  A pointer is an optional address, a
  \<open>float\<close> its 32-bit pattern, a function pointer the name of the function.
\<close>

subsection \<open>Machine types\<close>

type_synonym ptr = "64 word option"
type_synonym float32 = "32 word"
type_synonym code_ptr = "string option"

subsection \<open>Status, numbers and kinds of tensors\<close>

datatype (plugins only: code size) ggml_status =
    GGML_STATUS_ALLOC_FAILED
  | GGML_STATUS_FAILED
  | GGML_STATUS_SUCCESS
  | GGML_STATUS_ABORTED

primrec ggml_status_val :: "ggml_status \<Rightarrow> int" where
  "ggml_status_val GGML_STATUS_ALLOC_FAILED = - 2"
| "ggml_status_val GGML_STATUS_FAILED = - 1"
| "ggml_status_val GGML_STATUS_SUCCESS = 0"
| "ggml_status_val GGML_STATUS_ABORTED = 1"

type_synonym ggml_fp16_t = "16 word"

record ggml_bf16_t =
  bf16_bits :: "16 word"

datatype (plugins only: code size) ggml_type =
    GGML_TYPE_F32
  | GGML_TYPE_F16
  | GGML_TYPE_Q4_0
  | GGML_TYPE_Q4_1
  | GGML_TYPE_Q5_0
  | GGML_TYPE_Q5_1
  | GGML_TYPE_Q8_0
  | GGML_TYPE_Q8_1
  | GGML_TYPE_Q2_K
  | GGML_TYPE_Q3_K
  | GGML_TYPE_Q4_K
  | GGML_TYPE_Q5_K
  | GGML_TYPE_Q6_K
  | GGML_TYPE_Q8_K
  | GGML_TYPE_IQ2_XXS
  | GGML_TYPE_IQ2_XS
  | GGML_TYPE_IQ3_XXS
  | GGML_TYPE_IQ1_S
  | GGML_TYPE_IQ4_NL
  | GGML_TYPE_IQ3_S
  | GGML_TYPE_IQ2_S
  | GGML_TYPE_IQ4_XS
  | GGML_TYPE_I8
  | GGML_TYPE_I16
  | GGML_TYPE_I32
  | GGML_TYPE_I64
  | GGML_TYPE_F64
  | GGML_TYPE_IQ1_M
  | GGML_TYPE_BF16
  | GGML_TYPE_TQ1_0
  | GGML_TYPE_TQ2_0
  | GGML_TYPE_COUNT

primrec ggml_type_val :: "ggml_type \<Rightarrow> int" where
  "ggml_type_val GGML_TYPE_F32 = 0"
| "ggml_type_val GGML_TYPE_F16 = 1"
| "ggml_type_val GGML_TYPE_Q4_0 = 2"
| "ggml_type_val GGML_TYPE_Q4_1 = 3"
| "ggml_type_val GGML_TYPE_Q5_0 = 6"
| "ggml_type_val GGML_TYPE_Q5_1 = 7"
| "ggml_type_val GGML_TYPE_Q8_0 = 8"
| "ggml_type_val GGML_TYPE_Q8_1 = 9"
| "ggml_type_val GGML_TYPE_Q2_K = 10"
| "ggml_type_val GGML_TYPE_Q3_K = 11"
| "ggml_type_val GGML_TYPE_Q4_K = 12"
| "ggml_type_val GGML_TYPE_Q5_K = 13"
| "ggml_type_val GGML_TYPE_Q6_K = 14"
| "ggml_type_val GGML_TYPE_Q8_K = 15"
| "ggml_type_val GGML_TYPE_IQ2_XXS = 16"
| "ggml_type_val GGML_TYPE_IQ2_XS = 17"
| "ggml_type_val GGML_TYPE_IQ3_XXS = 18"
| "ggml_type_val GGML_TYPE_IQ1_S = 19"
| "ggml_type_val GGML_TYPE_IQ4_NL = 20"
| "ggml_type_val GGML_TYPE_IQ3_S = 21"
| "ggml_type_val GGML_TYPE_IQ2_S = 22"
| "ggml_type_val GGML_TYPE_IQ4_XS = 23"
| "ggml_type_val GGML_TYPE_I8 = 24"
| "ggml_type_val GGML_TYPE_I16 = 25"
| "ggml_type_val GGML_TYPE_I32 = 26"
| "ggml_type_val GGML_TYPE_I64 = 27"
| "ggml_type_val GGML_TYPE_F64 = 28"
| "ggml_type_val GGML_TYPE_IQ1_M = 29"
| "ggml_type_val GGML_TYPE_BF16 = 30"
| "ggml_type_val GGML_TYPE_TQ1_0 = 34"
| "ggml_type_val GGML_TYPE_TQ2_0 = 35"
| "ggml_type_val GGML_TYPE_COUNT = 39"

datatype (plugins only: code size) ggml_prec =
    GGML_PREC_DEFAULT
  | GGML_PREC_F32

primrec ggml_prec_val :: "ggml_prec \<Rightarrow> int" where
  "ggml_prec_val GGML_PREC_DEFAULT = 0"
| "ggml_prec_val GGML_PREC_F32 = 1"

datatype (plugins only: code size) ggml_backend_type =
    GGML_BACKEND_TYPE_CPU
  | GGML_BACKEND_TYPE_GPU
  | GGML_BACKEND_TYPE_GPU_SPLIT

primrec ggml_backend_type_val :: "ggml_backend_type \<Rightarrow> int" where
  "ggml_backend_type_val GGML_BACKEND_TYPE_CPU = 0"
| "ggml_backend_type_val GGML_BACKEND_TYPE_GPU = 10"
| "ggml_backend_type_val GGML_BACKEND_TYPE_GPU_SPLIT = 20"

datatype (plugins only: code size) ggml_ftype =
    GGML_FTYPE_UNKNOWN
  | GGML_FTYPE_ALL_F32
  | GGML_FTYPE_MOSTLY_F16
  | GGML_FTYPE_MOSTLY_Q4_0
  | GGML_FTYPE_MOSTLY_Q4_1
  | GGML_FTYPE_MOSTLY_Q4_1_SOME_F16
  | GGML_FTYPE_MOSTLY_Q8_0
  | GGML_FTYPE_MOSTLY_Q5_0
  | GGML_FTYPE_MOSTLY_Q5_1
  | GGML_FTYPE_MOSTLY_Q2_K
  | GGML_FTYPE_MOSTLY_Q3_K
  | GGML_FTYPE_MOSTLY_Q4_K
  | GGML_FTYPE_MOSTLY_Q5_K
  | GGML_FTYPE_MOSTLY_Q6_K
  | GGML_FTYPE_MOSTLY_IQ2_XXS
  | GGML_FTYPE_MOSTLY_IQ2_XS
  | GGML_FTYPE_MOSTLY_IQ3_XXS
  | GGML_FTYPE_MOSTLY_IQ1_S
  | GGML_FTYPE_MOSTLY_IQ4_NL
  | GGML_FTYPE_MOSTLY_IQ3_S
  | GGML_FTYPE_MOSTLY_IQ2_S
  | GGML_FTYPE_MOSTLY_IQ4_XS
  | GGML_FTYPE_MOSTLY_IQ1_M
  | GGML_FTYPE_MOSTLY_BF16

primrec ggml_ftype_val :: "ggml_ftype \<Rightarrow> int" where
  "ggml_ftype_val GGML_FTYPE_UNKNOWN = - 1"
| "ggml_ftype_val GGML_FTYPE_ALL_F32 = 0"
| "ggml_ftype_val GGML_FTYPE_MOSTLY_F16 = 1"
| "ggml_ftype_val GGML_FTYPE_MOSTLY_Q4_0 = 2"
| "ggml_ftype_val GGML_FTYPE_MOSTLY_Q4_1 = 3"
| "ggml_ftype_val GGML_FTYPE_MOSTLY_Q4_1_SOME_F16 = 4"
| "ggml_ftype_val GGML_FTYPE_MOSTLY_Q8_0 = 7"
| "ggml_ftype_val GGML_FTYPE_MOSTLY_Q5_0 = 8"
| "ggml_ftype_val GGML_FTYPE_MOSTLY_Q5_1 = 9"
| "ggml_ftype_val GGML_FTYPE_MOSTLY_Q2_K = 10"
| "ggml_ftype_val GGML_FTYPE_MOSTLY_Q3_K = 11"
| "ggml_ftype_val GGML_FTYPE_MOSTLY_Q4_K = 12"
| "ggml_ftype_val GGML_FTYPE_MOSTLY_Q5_K = 13"
| "ggml_ftype_val GGML_FTYPE_MOSTLY_Q6_K = 14"
| "ggml_ftype_val GGML_FTYPE_MOSTLY_IQ2_XXS = 15"
| "ggml_ftype_val GGML_FTYPE_MOSTLY_IQ2_XS = 16"
| "ggml_ftype_val GGML_FTYPE_MOSTLY_IQ3_XXS = 17"
| "ggml_ftype_val GGML_FTYPE_MOSTLY_IQ1_S = 18"
| "ggml_ftype_val GGML_FTYPE_MOSTLY_IQ4_NL = 19"
| "ggml_ftype_val GGML_FTYPE_MOSTLY_IQ3_S = 20"
| "ggml_ftype_val GGML_FTYPE_MOSTLY_IQ2_S = 21"
| "ggml_ftype_val GGML_FTYPE_MOSTLY_IQ4_XS = 22"
| "ggml_ftype_val GGML_FTYPE_MOSTLY_IQ1_M = 23"
| "ggml_ftype_val GGML_FTYPE_MOSTLY_BF16 = 24"

datatype (plugins only: code size) ggml_object_type =
    GGML_OBJECT_TYPE_TENSOR
  | GGML_OBJECT_TYPE_GRAPH
  | GGML_OBJECT_TYPE_WORK_BUFFER

primrec ggml_object_type_val :: "ggml_object_type \<Rightarrow> int" where
  "ggml_object_type_val GGML_OBJECT_TYPE_TENSOR = 0"
| "ggml_object_type_val GGML_OBJECT_TYPE_GRAPH = 1"
| "ggml_object_type_val GGML_OBJECT_TYPE_WORK_BUFFER = 2"

datatype (plugins only: code size) ggml_log_level =
    GGML_LOG_LEVEL_NONE
  | GGML_LOG_LEVEL_DEBUG
  | GGML_LOG_LEVEL_INFO
  | GGML_LOG_LEVEL_WARN
  | GGML_LOG_LEVEL_ERROR
  | GGML_LOG_LEVEL_CONT

primrec ggml_log_level_val :: "ggml_log_level \<Rightarrow> int" where
  "ggml_log_level_val GGML_LOG_LEVEL_NONE = 0"
| "ggml_log_level_val GGML_LOG_LEVEL_DEBUG = 1"
| "ggml_log_level_val GGML_LOG_LEVEL_INFO = 2"
| "ggml_log_level_val GGML_LOG_LEVEL_WARN = 3"
| "ggml_log_level_val GGML_LOG_LEVEL_ERROR = 4"
| "ggml_log_level_val GGML_LOG_LEVEL_CONT = 5"

record ggml_init_params =
  ip_mem_size :: size_t
  ip_mem_buffer :: ptr
  ip_no_alloc :: bool

subsection \<open>Constants\<close>

definition GGML_FILE_MAGIC :: "32 word" where "GGML_FILE_MAGIC = 0x67676d6c"
definition GGML_FILE_VERSION :: nat where "GGML_FILE_VERSION = 2"
definition GGML_QNT_VERSION :: nat where "GGML_QNT_VERSION = 2"
definition GGML_QNT_VERSION_FACTOR :: nat where "GGML_QNT_VERSION_FACTOR = 1000"
definition GGML_MAX_PARAMS :: nat where "GGML_MAX_PARAMS = 2048"
definition GGML_DEFAULT_N_THREADS :: nat where "GGML_DEFAULT_N_THREADS = 4"
definition GGML_DEFAULT_GRAPH_SIZE :: nat where "GGML_DEFAULT_GRAPH_SIZE = 2048"
definition GGML_MEM_ALIGN :: size_t where "GGML_MEM_ALIGN = 16"
definition GGML_EXIT_SUCCESS :: int where "GGML_EXIT_SUCCESS = 0"
definition GGML_EXIT_ABORTED :: int where "GGML_EXIT_ABORTED = 1"
definition GGML_ROPE_TYPE_NEOX :: int where "GGML_ROPE_TYPE_NEOX = 2"
definition GGML_ROPE_TYPE_MROPE :: int where "GGML_ROPE_TYPE_MROPE = 8"
definition GGML_ROPE_TYPE_VISION :: int where "GGML_ROPE_TYPE_VISION = 24"
definition GGUF_MAGIC :: string where "GGUF_MAGIC = ''GGUF''"
definition GGUF_VERSION :: nat where "GGUF_VERSION = 3"
definition GGUF_DEFAULT_ALIGNMENT :: size_t where "GGUF_DEFAULT_ALIGNMENT = 32"
definition GGML_KQ_MASK_PAD :: size_t where "GGML_KQ_MASK_PAD = 32"
definition GGML_N_TASKS_MAX :: int where "GGML_N_TASKS_MAX = - 1"

definition GGML_KOMPUTE_MAX_DEVICES :: nat where "GGML_KOMPUTE_MAX_DEVICES = 16"

definition GGML_CANN_MAX_DEVICES :: nat where "GGML_CANN_MAX_DEVICES = 16"

definition GGML_RPC_MAX_SERVERS :: nat where "GGML_RPC_MAX_SERVERS = 16"

definition GGML_SYCL_NAME :: string where "GGML_SYCL_NAME = ''SYCL''"
definition GGML_SYCL_MAX_DEVICES :: nat where "GGML_SYCL_MAX_DEVICES = 48"

definition GGML_VK_NAME :: string where "GGML_VK_NAME = ''Vulkan''"
definition GGML_VK_MAX_DEVICES :: nat where "GGML_VK_MAX_DEVICES = 16"

definition GGML_CUDA_NAME :: string where "GGML_CUDA_NAME = ''CUDA''"
definition GGML_CUBLAS_NAME :: string where "GGML_CUBLAS_NAME = ''cuBLAS''"
definition GGML_CUDA_MAX_DEVICES :: nat where "GGML_CUDA_MAX_DEVICES = 16"

subsection \<open>Files, type traits, threads\<close>

datatype (plugins only: code size) gguf_type =
    GGUF_TYPE_UINT8
  | GGUF_TYPE_INT8
  | GGUF_TYPE_UINT16
  | GGUF_TYPE_INT16
  | GGUF_TYPE_UINT32
  | GGUF_TYPE_INT32
  | GGUF_TYPE_FLOAT32
  | GGUF_TYPE_BOOL
  | GGUF_TYPE_STRING
  | GGUF_TYPE_ARRAY
  | GGUF_TYPE_UINT64
  | GGUF_TYPE_INT64
  | GGUF_TYPE_FLOAT64
  | GGUF_TYPE_COUNT

primrec gguf_type_val :: "gguf_type \<Rightarrow> int" where
  "gguf_type_val GGUF_TYPE_UINT8 = 0"
| "gguf_type_val GGUF_TYPE_INT8 = 1"
| "gguf_type_val GGUF_TYPE_UINT16 = 2"
| "gguf_type_val GGUF_TYPE_INT16 = 3"
| "gguf_type_val GGUF_TYPE_UINT32 = 4"
| "gguf_type_val GGUF_TYPE_INT32 = 5"
| "gguf_type_val GGUF_TYPE_FLOAT32 = 6"
| "gguf_type_val GGUF_TYPE_BOOL = 7"
| "gguf_type_val GGUF_TYPE_STRING = 8"
| "gguf_type_val GGUF_TYPE_ARRAY = 9"
| "gguf_type_val GGUF_TYPE_UINT64 = 10"
| "gguf_type_val GGUF_TYPE_INT64 = 11"
| "gguf_type_val GGUF_TYPE_FLOAT64 = 12"
| "gguf_type_val GGUF_TYPE_COUNT = 13"

record gguf_init_params =
  gi_no_alloc :: bool
  gi_ctx :: ptr

record ggml_type_traits =
  tt_type_name :: string
  tt_blck_size :: int
  tt_blck_size_interleave :: int
  tt_type_size :: size_t
  tt_is_quantized :: bool
  tt_to_float :: code_ptr
  tt_from_float_ref :: code_ptr

datatype (plugins only: code size) ggml_sched_priority =
    GGML_SCHED_PRIO_NORMAL
  | GGML_SCHED_PRIO_MEDIUM
  | GGML_SCHED_PRIO_HIGH
  | GGML_SCHED_PRIO_REALTIME

primrec ggml_sched_priority_val :: "ggml_sched_priority \<Rightarrow> int" where
  "ggml_sched_priority_val GGML_SCHED_PRIO_NORMAL = 0"
| "ggml_sched_priority_val GGML_SCHED_PRIO_MEDIUM = 1"
| "ggml_sched_priority_val GGML_SCHED_PRIO_HIGH = 2"
| "ggml_sched_priority_val GGML_SCHED_PRIO_REALTIME = 3"

record ggml_threadpool_params =
  tp_cpumask :: "bool list"
  tp_n_threads :: int
  tp_prio :: ggml_sched_priority
  tp_poll :: "32 word"
  tp_strict_cpu :: bool
  tp_paused :: bool

record ggml_cplan =
  cp_work_size :: size_t
  cp_work_data :: ptr
  cp_n_threads :: int
  cp_threadpool :: ptr
  cp_abort_callback :: code_ptr
  cp_abort_callback_data :: ptr

datatype (plugins only: code size) ggml_numa_strategy =
    GGML_NUMA_STRATEGY_DISABLED
  | GGML_NUMA_STRATEGY_DISTRIBUTE
  | GGML_NUMA_STRATEGY_ISOLATE
  | GGML_NUMA_STRATEGY_NUMACTL
  | GGML_NUMA_STRATEGY_MIRROR
  | GGML_NUMA_STRATEGY_COUNT

primrec ggml_numa_strategy_val :: "ggml_numa_strategy \<Rightarrow> int" where
  "ggml_numa_strategy_val GGML_NUMA_STRATEGY_DISABLED = 0"
| "ggml_numa_strategy_val GGML_NUMA_STRATEGY_DISTRIBUTE = 1"
| "ggml_numa_strategy_val GGML_NUMA_STRATEGY_ISOLATE = 2"
| "ggml_numa_strategy_val GGML_NUMA_STRATEGY_NUMACTL = 3"
| "ggml_numa_strategy_val GGML_NUMA_STRATEGY_MIRROR = 4"
| "ggml_numa_strategy_val GGML_NUMA_STRATEGY_COUNT = 5"

record ggml_type_traits_cpu =
  tc_from_float :: code_ptr
  tc_vec_dot :: code_ptr
  tc_vec_dot_type :: ggml_type
  tc_nrows :: int

subsection \<open>Allocators and backends\<close>

record ggml_tallocr =
  ta_buffer :: ptr
  ta_base :: ptr
  ta_alignment :: size_t
  ta_offset :: size_t

datatype (plugins only: code size) ggml_backend_buffer_usage =
    GGML_BACKEND_BUFFER_USAGE_ANY
  | GGML_BACKEND_BUFFER_USAGE_WEIGHTS
  | GGML_BACKEND_BUFFER_USAGE_COMPUTE

primrec ggml_backend_buffer_usage_val :: "ggml_backend_buffer_usage \<Rightarrow> int" where
  "ggml_backend_buffer_usage_val GGML_BACKEND_BUFFER_USAGE_ANY = 0"
| "ggml_backend_buffer_usage_val GGML_BACKEND_BUFFER_USAGE_WEIGHTS = 1"
| "ggml_backend_buffer_usage_val GGML_BACKEND_BUFFER_USAGE_COMPUTE = 2"

datatype (plugins only: code size) ggml_backend_dev_type =
    GGML_BACKEND_DEVICE_TYPE_CPU
  | GGML_BACKEND_DEVICE_TYPE_GPU
  | GGML_BACKEND_DEVICE_TYPE_ACCEL

primrec ggml_backend_dev_type_val :: "ggml_backend_dev_type \<Rightarrow> int" where
  "ggml_backend_dev_type_val GGML_BACKEND_DEVICE_TYPE_CPU = 0"
| "ggml_backend_dev_type_val GGML_BACKEND_DEVICE_TYPE_GPU = 1"
| "ggml_backend_dev_type_val GGML_BACKEND_DEVICE_TYPE_ACCEL = 2"

record ggml_backend_dev_caps =
  dc_async :: bool
  dc_host_buffer :: bool
  dc_buffer_from_host_ptr :: bool
  dc_events :: bool

record ggml_backend_dev_props =
  dp_name :: string
  dp_description :: string
  dp_memory_free :: size_t
  dp_memory_total :: size_t
  dp_type :: ggml_backend_dev_type
  dp_caps :: ggml_backend_dev_caps

record ggml_backend_feature =
  bf_name :: string
  bf_value :: string

record ggml_backend_graph_copy =
  gc_buffer :: ptr
  gc_ctx_allocated :: ptr
  gc_ctx_unallocated :: ptr
  gc_graph :: ptr

record ggml_vk_device =
  vk_index :: int
  vk_type :: int
  vk_heapSize :: size_t
  vk_name :: string
  vk_vendor :: string
  vk_subgroupSize :: int
  vk_bufferAlignment :: "64 word"
  vk_maxAlloc :: "64 word"

subsection \<open>The optimizer interface\<close>

datatype (plugins only: code size) ggml_opt_loss_type =
    GGML_OPT_LOSS_TYPE_MEAN
  | GGML_OPT_LOSS_TYPE_SUM
  | GGML_OPT_LOSS_TYPE_CROSS_ENTROPY
  | GGML_OPT_LOSS_TYPE_MEAN_SQUARED_ERROR

primrec ggml_opt_loss_type_val :: "ggml_opt_loss_type \<Rightarrow> int" where
  "ggml_opt_loss_type_val GGML_OPT_LOSS_TYPE_MEAN = 0"
| "ggml_opt_loss_type_val GGML_OPT_LOSS_TYPE_SUM = 1"
| "ggml_opt_loss_type_val GGML_OPT_LOSS_TYPE_CROSS_ENTROPY = 2"
| "ggml_opt_loss_type_val GGML_OPT_LOSS_TYPE_MEAN_SQUARED_ERROR = 3"

datatype (plugins only: code size) ggml_opt_build_type =
    GGML_OPT_BUILD_TYPE_FORWARD
  | GGML_OPT_BUILD_TYPE_GRAD
  | GGML_OPT_BUILD_TYPE_OPT

primrec ggml_opt_build_type_val :: "ggml_opt_build_type \<Rightarrow> int" where
  "ggml_opt_build_type_val GGML_OPT_BUILD_TYPE_FORWARD = 0"
| "ggml_opt_build_type_val GGML_OPT_BUILD_TYPE_GRAD = 1"
| "ggml_opt_build_type_val GGML_OPT_BUILD_TYPE_OPT = 2"

record ggml_opt_optimizer_params =
  adamw_alpha :: float32
  adamw_beta1 :: float32
  adamw_beta2 :: float32
  adamw_eps :: float32
  adamw_wd :: float32

record ggml_opt_params =
  op_backend_sched :: ptr
  op_ctx_compute :: ptr
  op_inputs :: ptr
  op_outputs :: ptr
  op_loss_type :: ggml_opt_loss_type
  op_build_type :: ggml_opt_build_type
  op_opt_period :: int
  op_get_opt_pars :: code_ptr
  op_get_opt_pars_ud :: ptr

end
