(* ===== verification/Llama_Types.thy ===== *)
theory Llama_Types
  imports Ggml_Types
begin

text \<open>
  The data types of \<open>prebuilts/npu/include/llama.h\<close>, through which the daemon talks to libllama:
  enumerations with the numbers of their constants, structures as records.
\<close>

subsection \<open>Tokens and constants\<close>

type_synonym llama_pos = int
type_synonym llama_seq_id = int

definition LLAMA_DEFAULT_SEED :: "32 word" where "LLAMA_DEFAULT_SEED = 0xFFFFFFFF"
definition LLAMA_TOKEN_NULL :: llama_token where "LLAMA_TOKEN_NULL = - 1"

subsection \<open>Enumerations\<close>

datatype (plugins only: code size) llama_vocab_type =
    LLAMA_VOCAB_TYPE_NONE
  | LLAMA_VOCAB_TYPE_SPM
  | LLAMA_VOCAB_TYPE_BPE
  | LLAMA_VOCAB_TYPE_WPM
  | LLAMA_VOCAB_TYPE_UGM
  | LLAMA_VOCAB_TYPE_RWKV

primrec llama_vocab_type_val :: "llama_vocab_type \<Rightarrow> int" where
  "llama_vocab_type_val LLAMA_VOCAB_TYPE_NONE = 0"
| "llama_vocab_type_val LLAMA_VOCAB_TYPE_SPM = 1"
| "llama_vocab_type_val LLAMA_VOCAB_TYPE_BPE = 2"
| "llama_vocab_type_val LLAMA_VOCAB_TYPE_WPM = 3"
| "llama_vocab_type_val LLAMA_VOCAB_TYPE_UGM = 4"
| "llama_vocab_type_val LLAMA_VOCAB_TYPE_RWKV = 5"

datatype (plugins only: code size) llama_vocab_pre_type =
    LLAMA_VOCAB_PRE_TYPE_DEFAULT
  | LLAMA_VOCAB_PRE_TYPE_LLAMA3
  | LLAMA_VOCAB_PRE_TYPE_DEEPSEEK_LLM
  | LLAMA_VOCAB_PRE_TYPE_DEEPSEEK_CODER
  | LLAMA_VOCAB_PRE_TYPE_FALCON
  | LLAMA_VOCAB_PRE_TYPE_MPT
  | LLAMA_VOCAB_PRE_TYPE_STARCODER
  | LLAMA_VOCAB_PRE_TYPE_GPT2
  | LLAMA_VOCAB_PRE_TYPE_REFACT
  | LLAMA_VOCAB_PRE_TYPE_COMMAND_R
  | LLAMA_VOCAB_PRE_TYPE_STABLELM2
  | LLAMA_VOCAB_PRE_TYPE_QWEN2
  | LLAMA_VOCAB_PRE_TYPE_OLMO
  | LLAMA_VOCAB_PRE_TYPE_DBRX
  | LLAMA_VOCAB_PRE_TYPE_SMAUG
  | LLAMA_VOCAB_PRE_TYPE_PORO
  | LLAMA_VOCAB_PRE_TYPE_CHATGLM3
  | LLAMA_VOCAB_PRE_TYPE_CHATGLM4
  | LLAMA_VOCAB_PRE_TYPE_VIKING
  | LLAMA_VOCAB_PRE_TYPE_JAIS
  | LLAMA_VOCAB_PRE_TYPE_TEKKEN
  | LLAMA_VOCAB_PRE_TYPE_SMOLLM
  | LLAMA_VOCAB_PRE_TYPE_CODESHELL
  | LLAMA_VOCAB_PRE_TYPE_BLOOM
  | LLAMA_VOCAB_PRE_TYPE_GPT3_FINNISH
  | LLAMA_VOCAB_PRE_TYPE_EXAONE
  | LLAMA_VOCAB_PRE_TYPE_CHAMELEON
  | LLAMA_VOCAB_PRE_TYPE_MINERVA

primrec llama_vocab_pre_type_val :: "llama_vocab_pre_type \<Rightarrow> int" where
  "llama_vocab_pre_type_val LLAMA_VOCAB_PRE_TYPE_DEFAULT = 0"
| "llama_vocab_pre_type_val LLAMA_VOCAB_PRE_TYPE_LLAMA3 = 1"
| "llama_vocab_pre_type_val LLAMA_VOCAB_PRE_TYPE_DEEPSEEK_LLM = 2"
| "llama_vocab_pre_type_val LLAMA_VOCAB_PRE_TYPE_DEEPSEEK_CODER = 3"
| "llama_vocab_pre_type_val LLAMA_VOCAB_PRE_TYPE_FALCON = 4"
| "llama_vocab_pre_type_val LLAMA_VOCAB_PRE_TYPE_MPT = 5"
| "llama_vocab_pre_type_val LLAMA_VOCAB_PRE_TYPE_STARCODER = 6"
| "llama_vocab_pre_type_val LLAMA_VOCAB_PRE_TYPE_GPT2 = 7"
| "llama_vocab_pre_type_val LLAMA_VOCAB_PRE_TYPE_REFACT = 8"
| "llama_vocab_pre_type_val LLAMA_VOCAB_PRE_TYPE_COMMAND_R = 9"
| "llama_vocab_pre_type_val LLAMA_VOCAB_PRE_TYPE_STABLELM2 = 10"
| "llama_vocab_pre_type_val LLAMA_VOCAB_PRE_TYPE_QWEN2 = 11"
| "llama_vocab_pre_type_val LLAMA_VOCAB_PRE_TYPE_OLMO = 12"
| "llama_vocab_pre_type_val LLAMA_VOCAB_PRE_TYPE_DBRX = 13"
| "llama_vocab_pre_type_val LLAMA_VOCAB_PRE_TYPE_SMAUG = 14"
| "llama_vocab_pre_type_val LLAMA_VOCAB_PRE_TYPE_PORO = 15"
| "llama_vocab_pre_type_val LLAMA_VOCAB_PRE_TYPE_CHATGLM3 = 16"
| "llama_vocab_pre_type_val LLAMA_VOCAB_PRE_TYPE_CHATGLM4 = 17"
| "llama_vocab_pre_type_val LLAMA_VOCAB_PRE_TYPE_VIKING = 18"
| "llama_vocab_pre_type_val LLAMA_VOCAB_PRE_TYPE_JAIS = 19"
| "llama_vocab_pre_type_val LLAMA_VOCAB_PRE_TYPE_TEKKEN = 20"
| "llama_vocab_pre_type_val LLAMA_VOCAB_PRE_TYPE_SMOLLM = 21"
| "llama_vocab_pre_type_val LLAMA_VOCAB_PRE_TYPE_CODESHELL = 22"
| "llama_vocab_pre_type_val LLAMA_VOCAB_PRE_TYPE_BLOOM = 23"
| "llama_vocab_pre_type_val LLAMA_VOCAB_PRE_TYPE_GPT3_FINNISH = 24"
| "llama_vocab_pre_type_val LLAMA_VOCAB_PRE_TYPE_EXAONE = 25"
| "llama_vocab_pre_type_val LLAMA_VOCAB_PRE_TYPE_CHAMELEON = 26"
| "llama_vocab_pre_type_val LLAMA_VOCAB_PRE_TYPE_MINERVA = 27"

datatype (plugins only: code size) llama_rope_type =
    LLAMA_ROPE_TYPE_NONE
  | LLAMA_ROPE_TYPE_NORM
  | LLAMA_ROPE_TYPE_NEOX
  | LLAMA_ROPE_TYPE_MROPE
  | LLAMA_ROPE_TYPE_VISION

primrec llama_rope_type_val :: "llama_rope_type \<Rightarrow> int" where
  "llama_rope_type_val LLAMA_ROPE_TYPE_NONE = - 1"
| "llama_rope_type_val LLAMA_ROPE_TYPE_NORM = 0"
| "llama_rope_type_val LLAMA_ROPE_TYPE_NEOX = 2"
| "llama_rope_type_val LLAMA_ROPE_TYPE_MROPE = 8"
| "llama_rope_type_val LLAMA_ROPE_TYPE_VISION = 24"

datatype (plugins only: code size) llama_token_type =
    LLAMA_TOKEN_TYPE_UNDEFINED
  | LLAMA_TOKEN_TYPE_NORMAL
  | LLAMA_TOKEN_TYPE_UNKNOWN
  | LLAMA_TOKEN_TYPE_CONTROL
  | LLAMA_TOKEN_TYPE_USER_DEFINED
  | LLAMA_TOKEN_TYPE_UNUSED
  | LLAMA_TOKEN_TYPE_BYTE

primrec llama_token_type_val :: "llama_token_type \<Rightarrow> int" where
  "llama_token_type_val LLAMA_TOKEN_TYPE_UNDEFINED = 0"
| "llama_token_type_val LLAMA_TOKEN_TYPE_NORMAL = 1"
| "llama_token_type_val LLAMA_TOKEN_TYPE_UNKNOWN = 2"
| "llama_token_type_val LLAMA_TOKEN_TYPE_CONTROL = 3"
| "llama_token_type_val LLAMA_TOKEN_TYPE_USER_DEFINED = 4"
| "llama_token_type_val LLAMA_TOKEN_TYPE_UNUSED = 5"
| "llama_token_type_val LLAMA_TOKEN_TYPE_BYTE = 6"

datatype (plugins only: code size) llama_token_attr =
    LLAMA_TOKEN_ATTR_UNDEFINED
  | LLAMA_TOKEN_ATTR_UNKNOWN
  | LLAMA_TOKEN_ATTR_UNUSED
  | LLAMA_TOKEN_ATTR_NORMAL
  | LLAMA_TOKEN_ATTR_CONTROL
  | LLAMA_TOKEN_ATTR_USER_DEFINED
  | LLAMA_TOKEN_ATTR_BYTE
  | LLAMA_TOKEN_ATTR_NORMALIZED
  | LLAMA_TOKEN_ATTR_LSTRIP
  | LLAMA_TOKEN_ATTR_RSTRIP
  | LLAMA_TOKEN_ATTR_SINGLE_WORD

primrec llama_token_attr_val :: "llama_token_attr \<Rightarrow> int" where
  "llama_token_attr_val LLAMA_TOKEN_ATTR_UNDEFINED = 0"
| "llama_token_attr_val LLAMA_TOKEN_ATTR_UNKNOWN = 1"
| "llama_token_attr_val LLAMA_TOKEN_ATTR_UNUSED = 2"
| "llama_token_attr_val LLAMA_TOKEN_ATTR_NORMAL = 4"
| "llama_token_attr_val LLAMA_TOKEN_ATTR_CONTROL = 8"
| "llama_token_attr_val LLAMA_TOKEN_ATTR_USER_DEFINED = 16"
| "llama_token_attr_val LLAMA_TOKEN_ATTR_BYTE = 32"
| "llama_token_attr_val LLAMA_TOKEN_ATTR_NORMALIZED = 64"
| "llama_token_attr_val LLAMA_TOKEN_ATTR_LSTRIP = 128"
| "llama_token_attr_val LLAMA_TOKEN_ATTR_RSTRIP = 256"
| "llama_token_attr_val LLAMA_TOKEN_ATTR_SINGLE_WORD = 512"

datatype (plugins only: code size) llama_ftype =
    LLAMA_FTYPE_ALL_F32
  | LLAMA_FTYPE_MOSTLY_F16
  | LLAMA_FTYPE_MOSTLY_Q4_0
  | LLAMA_FTYPE_MOSTLY_Q4_1
  | LLAMA_FTYPE_MOSTLY_Q8_0
  | LLAMA_FTYPE_MOSTLY_Q5_0
  | LLAMA_FTYPE_MOSTLY_Q5_1
  | LLAMA_FTYPE_MOSTLY_Q2_K
  | LLAMA_FTYPE_MOSTLY_Q3_K_S
  | LLAMA_FTYPE_MOSTLY_Q3_K_M
  | LLAMA_FTYPE_MOSTLY_Q3_K_L
  | LLAMA_FTYPE_MOSTLY_Q4_K_S
  | LLAMA_FTYPE_MOSTLY_Q4_K_M
  | LLAMA_FTYPE_MOSTLY_Q5_K_S
  | LLAMA_FTYPE_MOSTLY_Q5_K_M
  | LLAMA_FTYPE_MOSTLY_Q6_K
  | LLAMA_FTYPE_MOSTLY_IQ2_XXS
  | LLAMA_FTYPE_MOSTLY_IQ2_XS
  | LLAMA_FTYPE_MOSTLY_Q2_K_S
  | LLAMA_FTYPE_MOSTLY_IQ3_XS
  | LLAMA_FTYPE_MOSTLY_IQ3_XXS
  | LLAMA_FTYPE_MOSTLY_IQ1_S
  | LLAMA_FTYPE_MOSTLY_IQ4_NL
  | LLAMA_FTYPE_MOSTLY_IQ3_S
  | LLAMA_FTYPE_MOSTLY_IQ3_M
  | LLAMA_FTYPE_MOSTLY_IQ2_S
  | LLAMA_FTYPE_MOSTLY_IQ2_M
  | LLAMA_FTYPE_MOSTLY_IQ4_XS
  | LLAMA_FTYPE_MOSTLY_IQ1_M
  | LLAMA_FTYPE_MOSTLY_BF16
  | LLAMA_FTYPE_MOSTLY_TQ1_0
  | LLAMA_FTYPE_MOSTLY_TQ2_0
  | LLAMA_FTYPE_MOSTLY_MIXED_Q4_0_F16
  | LLAMA_FTYPE_MOSTLY_MIXED_Q4_0_Q8_0
  | LLAMA_FTYPE_MOSTLY_MIXED_IQ4_NL_Q8_0
  | LLAMA_FTYPE_GUESSED

primrec llama_ftype_val :: "llama_ftype \<Rightarrow> int" where
  "llama_ftype_val LLAMA_FTYPE_ALL_F32 = 0"
| "llama_ftype_val LLAMA_FTYPE_MOSTLY_F16 = 1"
| "llama_ftype_val LLAMA_FTYPE_MOSTLY_Q4_0 = 2"
| "llama_ftype_val LLAMA_FTYPE_MOSTLY_Q4_1 = 3"
| "llama_ftype_val LLAMA_FTYPE_MOSTLY_Q8_0 = 7"
| "llama_ftype_val LLAMA_FTYPE_MOSTLY_Q5_0 = 8"
| "llama_ftype_val LLAMA_FTYPE_MOSTLY_Q5_1 = 9"
| "llama_ftype_val LLAMA_FTYPE_MOSTLY_Q2_K = 10"
| "llama_ftype_val LLAMA_FTYPE_MOSTLY_Q3_K_S = 11"
| "llama_ftype_val LLAMA_FTYPE_MOSTLY_Q3_K_M = 12"
| "llama_ftype_val LLAMA_FTYPE_MOSTLY_Q3_K_L = 13"
| "llama_ftype_val LLAMA_FTYPE_MOSTLY_Q4_K_S = 14"
| "llama_ftype_val LLAMA_FTYPE_MOSTLY_Q4_K_M = 15"
| "llama_ftype_val LLAMA_FTYPE_MOSTLY_Q5_K_S = 16"
| "llama_ftype_val LLAMA_FTYPE_MOSTLY_Q5_K_M = 17"
| "llama_ftype_val LLAMA_FTYPE_MOSTLY_Q6_K = 18"
| "llama_ftype_val LLAMA_FTYPE_MOSTLY_IQ2_XXS = 19"
| "llama_ftype_val LLAMA_FTYPE_MOSTLY_IQ2_XS = 20"
| "llama_ftype_val LLAMA_FTYPE_MOSTLY_Q2_K_S = 21"
| "llama_ftype_val LLAMA_FTYPE_MOSTLY_IQ3_XS = 22"
| "llama_ftype_val LLAMA_FTYPE_MOSTLY_IQ3_XXS = 23"
| "llama_ftype_val LLAMA_FTYPE_MOSTLY_IQ1_S = 24"
| "llama_ftype_val LLAMA_FTYPE_MOSTLY_IQ4_NL = 25"
| "llama_ftype_val LLAMA_FTYPE_MOSTLY_IQ3_S = 26"
| "llama_ftype_val LLAMA_FTYPE_MOSTLY_IQ3_M = 27"
| "llama_ftype_val LLAMA_FTYPE_MOSTLY_IQ2_S = 28"
| "llama_ftype_val LLAMA_FTYPE_MOSTLY_IQ2_M = 29"
| "llama_ftype_val LLAMA_FTYPE_MOSTLY_IQ4_XS = 30"
| "llama_ftype_val LLAMA_FTYPE_MOSTLY_IQ1_M = 31"
| "llama_ftype_val LLAMA_FTYPE_MOSTLY_BF16 = 32"
| "llama_ftype_val LLAMA_FTYPE_MOSTLY_TQ1_0 = 36"
| "llama_ftype_val LLAMA_FTYPE_MOSTLY_TQ2_0 = 37"
| "llama_ftype_val LLAMA_FTYPE_MOSTLY_MIXED_Q4_0_F16 = 512"
| "llama_ftype_val LLAMA_FTYPE_MOSTLY_MIXED_Q4_0_Q8_0 = 513"
| "llama_ftype_val LLAMA_FTYPE_MOSTLY_MIXED_IQ4_NL_Q8_0 = 514"
| "llama_ftype_val LLAMA_FTYPE_GUESSED = 1024"

datatype (plugins only: code size) llama_rope_scaling_type =
    LLAMA_ROPE_SCALING_TYPE_UNSPECIFIED
  | LLAMA_ROPE_SCALING_TYPE_NONE
  | LLAMA_ROPE_SCALING_TYPE_LINEAR
  | LLAMA_ROPE_SCALING_TYPE_YARN
  | LLAMA_ROPE_SCALING_TYPE_LONGROPE

primrec llama_rope_scaling_type_val :: "llama_rope_scaling_type \<Rightarrow> int" where
  "llama_rope_scaling_type_val LLAMA_ROPE_SCALING_TYPE_UNSPECIFIED = - 1"
| "llama_rope_scaling_type_val LLAMA_ROPE_SCALING_TYPE_NONE = 0"
| "llama_rope_scaling_type_val LLAMA_ROPE_SCALING_TYPE_LINEAR = 1"
| "llama_rope_scaling_type_val LLAMA_ROPE_SCALING_TYPE_YARN = 2"
| "llama_rope_scaling_type_val LLAMA_ROPE_SCALING_TYPE_LONGROPE = 3"

abbreviation LLAMA_ROPE_SCALING_TYPE_MAX_VALUE :: llama_rope_scaling_type where
  "LLAMA_ROPE_SCALING_TYPE_MAX_VALUE \<equiv> LLAMA_ROPE_SCALING_TYPE_LONGROPE"

datatype (plugins only: code size) llama_pooling_type =
    LLAMA_POOLING_TYPE_UNSPECIFIED
  | LLAMA_POOLING_TYPE_NONE
  | LLAMA_POOLING_TYPE_MEAN
  | LLAMA_POOLING_TYPE_CLS
  | LLAMA_POOLING_TYPE_LAST
  | LLAMA_POOLING_TYPE_RANK

primrec llama_pooling_type_val :: "llama_pooling_type \<Rightarrow> int" where
  "llama_pooling_type_val LLAMA_POOLING_TYPE_UNSPECIFIED = - 1"
| "llama_pooling_type_val LLAMA_POOLING_TYPE_NONE = 0"
| "llama_pooling_type_val LLAMA_POOLING_TYPE_MEAN = 1"
| "llama_pooling_type_val LLAMA_POOLING_TYPE_CLS = 2"
| "llama_pooling_type_val LLAMA_POOLING_TYPE_LAST = 3"
| "llama_pooling_type_val LLAMA_POOLING_TYPE_RANK = 4"

datatype (plugins only: code size) llama_attention_type =
    LLAMA_ATTENTION_TYPE_UNSPECIFIED
  | LLAMA_ATTENTION_TYPE_CAUSAL
  | LLAMA_ATTENTION_TYPE_NON_CAUSAL

primrec llama_attention_type_val :: "llama_attention_type \<Rightarrow> int" where
  "llama_attention_type_val LLAMA_ATTENTION_TYPE_UNSPECIFIED = - 1"
| "llama_attention_type_val LLAMA_ATTENTION_TYPE_CAUSAL = 0"
| "llama_attention_type_val LLAMA_ATTENTION_TYPE_NON_CAUSAL = 1"

datatype (plugins only: code size) llama_split_mode =
    LLAMA_SPLIT_MODE_NONE
  | LLAMA_SPLIT_MODE_LAYER
  | LLAMA_SPLIT_MODE_ROW

primrec llama_split_mode_val :: "llama_split_mode \<Rightarrow> int" where
  "llama_split_mode_val LLAMA_SPLIT_MODE_NONE = 0"
| "llama_split_mode_val LLAMA_SPLIT_MODE_LAYER = 1"
| "llama_split_mode_val LLAMA_SPLIT_MODE_ROW = 2"

definition LLAMA_FILE_MAGIC_GGLA :: "32 word" where "LLAMA_FILE_MAGIC_GGLA = 0x67676c61"
definition LLAMA_FILE_MAGIC_GGSN :: "32 word" where "LLAMA_FILE_MAGIC_GGSN = 0x6767736e"
definition LLAMA_FILE_MAGIC_GGSQ :: "32 word" where "LLAMA_FILE_MAGIC_GGSQ = 0x67677371"
definition LLAMA_SESSION_MAGIC :: "32 word" where "LLAMA_SESSION_MAGIC = LLAMA_FILE_MAGIC_GGSN"
definition LLAMA_SESSION_VERSION :: nat where "LLAMA_SESSION_VERSION = 9"
definition LLAMA_STATE_SEQ_MAGIC :: "32 word" where "LLAMA_STATE_SEQ_MAGIC = LLAMA_FILE_MAGIC_GGSQ"
definition LLAMA_STATE_SEQ_VERSION :: nat where "LLAMA_STATE_SEQ_VERSION = 2"

subsection \<open>Candidates and batches\<close>

record llama_token_data =
  td_id :: llama_token
  td_logit :: float32
  td_p :: float32

record llama_token_data_array =
  tda_data :: "llama_token_data list"
  tda_size :: size_t
  tda_selected :: int
  tda_sorted :: bool

record llama_batch =
  b_n_tokens :: int
  b_token :: "llama_token list option"
  b_embd :: "float32 list option"
  b_pos :: "llama_pos list option"
  b_n_seq_id :: "int list option"
  b_seq_id :: "llama_seq_id list list option"
  b_logits :: "int list option"

subsection \<open>Parameters\<close>

datatype (plugins only: code size) llama_model_kv_override_type =
    LLAMA_KV_OVERRIDE_TYPE_INT
  | LLAMA_KV_OVERRIDE_TYPE_FLOAT
  | LLAMA_KV_OVERRIDE_TYPE_BOOL
  | LLAMA_KV_OVERRIDE_TYPE_STR

primrec llama_model_kv_override_type_val :: "llama_model_kv_override_type \<Rightarrow> int" where
  "llama_model_kv_override_type_val LLAMA_KV_OVERRIDE_TYPE_INT = 0"
| "llama_model_kv_override_type_val LLAMA_KV_OVERRIDE_TYPE_FLOAT = 1"
| "llama_model_kv_override_type_val LLAMA_KV_OVERRIDE_TYPE_BOOL = 2"
| "llama_model_kv_override_type_val LLAMA_KV_OVERRIDE_TYPE_STR = 3"

datatype (plugins only: code size) kv_override_value =
    val_i64 int
  | val_f64 "64 word"
  | val_bool bool
  | val_str string

record llama_model_kv_override =
  kv_tag :: llama_model_kv_override_type
  kv_key :: string
  kv_value :: kv_override_value

record llama_model_params =
  mp_devices :: "ptr list option"
  mp_n_gpu_layers :: int
  mp_split_mode :: llama_split_mode
  mp_main_gpu :: int
  mp_tensor_split :: "float32 list option"
  mp_rpc_servers :: "string option"
  mp_progress_callback :: code_ptr
  mp_progress_callback_user_data :: ptr
  mp_kv_overrides :: "llama_model_kv_override list option"
  mp_vocab_only :: bool
  mp_use_mmap :: bool
  mp_use_mlock :: bool
  mp_check_tensors :: bool

record llama_context_params =
  n_ctx :: "32 word"
  n_batch :: "32 word"
  n_ubatch :: "32 word"
  n_seq_max :: "32 word"
  n_threads :: int
  n_threads_batch :: int
  rope_scaling_type :: llama_rope_scaling_type
  pooling_type :: llama_pooling_type
  attention_type :: llama_attention_type
  rope_freq_base :: float32
  rope_freq_scale :: float32
  yarn_ext_factor :: float32
  yarn_attn_factor :: float32
  yarn_beta_fast :: float32
  yarn_beta_slow :: float32
  yarn_orig_ctx :: "32 word"
  defrag_thold :: float32
  cb_eval :: code_ptr
  cb_eval_user_data :: ptr
  type_k :: ggml_type
  type_v :: ggml_type
  logits_all :: bool
  embeddings :: bool
  offload_kqv :: bool
  flash_attn :: bool
  no_perf :: bool
  abort_callback :: code_ptr
  abort_callback_data :: ptr

record llama_model_quantize_params =
  q_nthread :: int
  q_ftype :: llama_ftype
  q_output_tensor_type :: ggml_type
  q_token_embedding_type :: ggml_type
  q_allow_requantize :: bool
  q_quantize_output_tensor :: bool
  q_only_copy :: bool
  q_pure :: bool
  q_keep_split :: bool
  q_imatrix :: ptr
  q_kv_overrides :: ptr

record llama_logit_bias =
  lb_token :: llama_token
  lb_bias :: float32

record llama_sampler_chain_params =
  sc_no_perf :: bool

record llama_chat_message =
  cm_role :: string
  cm_content :: string

subsection \<open>Views, samplers, performance data\<close>

record llama_kv_cache_view_cell =
  kc_pos :: llama_pos

record llama_kv_cache_view =
  kv_n_cells :: int
  kv_n_seq_max :: int
  kv_token_count :: int
  kv_used_cells :: int
  kv_max_contiguous :: int
  kv_max_contiguous_idx :: int
  kv_cells :: "llama_kv_cache_view_cell list"
  kv_cells_sequences :: "llama_seq_id list"

record llama_sampler_i =
  si_name :: code_ptr
  si_accept :: code_ptr
  si_apply :: code_ptr
  si_reset :: code_ptr
  si_clone :: code_ptr
  si_free :: code_ptr

record llama_sampler =
  smpl_iface :: llama_sampler_i
  smpl_ctx :: ptr

record llama_perf_context_data =
  pc_t_start_ms :: "64 word"
  pc_t_load_ms :: "64 word"
  pc_t_p_eval_ms :: "64 word"
  pc_t_eval_ms :: "64 word"
  pc_n_p_eval :: int
  pc_n_eval :: int

record llama_perf_sampler_data =
  ps_t_sample_ms :: "64 word"
  ps_n_sample :: int

end
