(* ===== verification/Llama_Env.thy ===== *)
theory Llama_Env
  imports C_Stdio Llama_Types
begin

text \<open>
  The libraries under the daemon (libllama, the file system, the steady clock) are not part of the
  repository's sources.  Every call to them is an event of a history, newest first, and every result
  they return is a function of the history and the arguments: the record \<open>llama_env\<close> is a parameter
  of each definition that calls out.  What the code relies on is stated by the predicates at the end.
\<close>

subsection \<open>Calls\<close>

type_synonym ctx = nat \<comment> \<open>a non-null \<open>llama_context *\<close>\<close>

type_synonym ctx_params = llama_context_params

datatype sampler_stage =
    TopK int
  | TopP float32 nat
  | Temp float32
  | Dist "32 word"

definition sampler_chain :: "sampler_stage list" where
  \<comment> \<open>the stages added to the chain, in order; \<open>0.9f\<close> and \<open>0.7f\<close> as their bit patterns\<close>
  "sampler_chain = [TopK 40, TopP 0x3F666666 1, Temp 0x3F333333, Dist LLAMA_DEFAULT_SEED]"

datatype event =
    LlamaInit nat ctx_params "ctx option" \<comment> \<open>\<open>llama_init_from_model(model, params)\<close>\<close>
  | LlamaFree ctx
  | SeqSave ctx string "llama_token list" size_t \<comment> \<open>\<open>llama_state_seq_save_file\<close>, bytes written\<close>
  | SeqGetSize ctx size_t
  | SeqLoad ctx string nat size_t \<comment> \<open>\<open>llama_state_seq_load_file\<close>, capacity, bytes read\<close>
  | SeqRm ctx int int \<comment> \<open>\<open>llama_memory_seq_rm\<close>\<close>
  | SeqAdd ctx int int int \<comment> \<open>\<open>llama_memory_seq_add\<close>\<close>
  | RemoveFile string \<comment> \<open>\<open>std::remove\<close>\<close>
  | NowMs int
  | Decode ctx "llama_token list" int \<comment> \<open>\<open>llama_decode\<close>, return code\<close>
  | DecodeBatch ctx llama_batch int \<comment> \<open>\<open>llama_decode\<close> of a batch the caller has filled in\<close>
  | Sample ctx llama_token
  | Accept llama_token
  | CancelLoad bool \<comment> \<open>\<open>cancelFlag->load()\<close>\<close>
  | KvClear ctx
  | Synchronize ctx
  | BackendInit
  | BackendLoadAll string \<comment> \<open>\<open>ggml_backend_load_all_from_path\<close>\<close>
  | BackendFree
  | ModelLoad string llama_model_params "nat option"
  | ModelFree nat
  | SamplerInit "sampler_stage list" \<comment> \<open>\<open>llama_sampler_chain_init\<close> and the stages added to it\<close>
  | SamplerFree

type_synonym history = "event list"

record llama_env =
  env_init :: "history \<Rightarrow> nat \<Rightarrow> ctx_params \<Rightarrow> ctx option"
  env_save :: "history \<Rightarrow> ctx \<Rightarrow> string \<Rightarrow> llama_token list \<Rightarrow> size_t"
  env_size :: "history \<Rightarrow> ctx \<Rightarrow> size_t"
  env_load :: "history \<Rightarrow> ctx \<Rightarrow> string \<Rightarrow> nat \<Rightarrow> size_t \<times> llama_token list \<times> nat"
    \<comment> \<open>bytes read, tokens written to the caller's buffer, \<open>*n_token_count_out\<close>\<close>
  env_now :: "history \<Rightarrow> int"
  env_decode :: "history \<Rightarrow> ctx \<Rightarrow> llama_token list \<Rightarrow> int"
  env_batch_one :: "llama_token list \<Rightarrow> llama_batch" \<comment> \<open>\<open>llama_batch_get_one\<close>\<close>
  env_decode_batch :: "history \<Rightarrow> ctx \<Rightarrow> llama_batch \<Rightarrow> int"
  env_sample :: "history \<Rightarrow> ctx \<Rightarrow> llama_token"
  env_cancel :: "history \<Rightarrow> bool"
  env_model :: "history \<Rightarrow> string \<Rightarrow> llama_model_params \<Rightarrow> nat option" \<comment> \<open>\<open>llama_model_load_from_file\<close>\<close>
  env_model_params :: llama_model_params \<comment> \<open>\<open>llama_model_default_params()\<close>\<close>
  env_ctx_params :: llama_context_params \<comment> \<open>\<open>llama_context_default_params()\<close>\<close>
  env_bos :: "nat \<Rightarrow> llama_token"
  env_tokenize :: "nat \<Rightarrow> string \<Rightarrow> llama_token list"
  env_is_eog :: "nat \<Rightarrow> llama_token \<Rightarrow> bool"
  env_piece :: "nat \<Rightarrow> llama_token \<Rightarrow> int \<times> string"
    \<comment> \<open>\<open>llama_token_to_piece\<close> with a 256-byte buffer: return value, bytes written\<close>

definition llama_free :: "ctx option \<Rightarrow> history \<Rightarrow> history" where
  \<comment> \<open>freeing a null pointer does nothing\<close>
  "llama_free c w = (case c of None \<Rightarrow> w | Some c \<Rightarrow> LlamaFree c # w)"

definition now_ms :: "llama_env \<Rightarrow> history \<Rightarrow> int \<times> history" where
  "now_ms e w = (env_now e w, NowMs (env_now e w) # w)"

lemma llama_free_simps [simp]:
  "llama_free None w = w" "llama_free (Some c) w = LlamaFree c # w"
  by (simp_all add: llama_free_def)

subsection \<open>The text of a token\<close>

definition piece_text :: "llama_env \<Rightarrow> nat \<Rightarrow> llama_token \<Rightarrow> string" where
  "piece_text e m t = take (nat (fst (env_piece e m t))) (snd (env_piece e m t))"

definition emit :: "llama_env \<Rightarrow> nat \<Rightarrow> (string \<Rightarrow> 'o \<Rightarrow> 'o) \<Rightarrow> llama_token list \<Rightarrow> 'o \<Rightarrow> 'o" where
  \<comment> \<open>one callback per token, in order\<close>
  "emit e m onToken ts out = foldl (\<lambda>out t. onToken (piece_text e m t) out) out ts"

lemma emit_simps [simp]:
  "emit e m f [] out = out"
  "emit e m f (ts @ us) out = emit e m f us (emit e m f ts out)"
  "emit e m f [t] out = f (piece_text e m t) out"
  by (simp_all add: emit_def)

subsection \<open>What a history says about contexts and files\<close>

fun live :: "history \<Rightarrow> ctx set" where
  \<comment> \<open>contexts created and not yet freed\<close>
  "live [] = {}"
| "live (ev # w) =
     (case ev of
        LlamaInit m p (Some c) \<Rightarrow> insert c (live w)
      | LlamaFree c \<Rightarrow> live w - {c}
      | _ \<Rightarrow> live w)"

fun swap_files :: "history \<Rightarrow> string set" where
  \<comment> \<open>files written successfully and not yet removed\<close>
  "swap_files [] = {}"
| "swap_files (ev # w) =
     (case ev of
        SeqSave c f ts n \<Rightarrow> if n = 0 then swap_files w else insert f (swap_files w)
      | RemoveFile f \<Rightarrow> swap_files w - {f}
      | _ \<Rightarrow> swap_files w)"

fun used_ctx :: "event \<Rightarrow> ctx option" where
  "used_ctx (LlamaFree c) = Some c"
| "used_ctx (SeqSave c f ts n) = Some c"
| "used_ctx (SeqGetSize c n) = Some c"
| "used_ctx (SeqLoad c f k n) = Some c"
| "used_ctx (SeqRm c p q) = Some c"
| "used_ctx (SeqAdd c p q d) = Some c"
| "used_ctx (Decode c ts r) = Some c"
| "used_ctx (DecodeBatch c b r) = Some c"
| "used_ctx (Sample c t) = Some c"
| "used_ctx (KvClear c) = Some c"
| "used_ctx (Synchronize c) = Some c"
| "used_ctx _ = None"

fun ctx_safe :: "history \<Rightarrow> bool" where
  \<comment> \<open>no call ever received a context that was not live: no use after free, no double free\<close>
  "ctx_safe [] = True"
| "ctx_safe (ev # w) =
     ((case used_ctx ev of None \<Rightarrow> True | Some c \<Rightarrow> c \<in> live w) \<and> ctx_safe w)"

subsection \<open>What the code relies on\<close>

definition fresh_init :: "llama_env \<Rightarrow> bool" where
  \<comment> \<open>a new context is a new object\<close>
  "fresh_init e \<longleftrightarrow> (\<forall>w m p c. env_init e w m p = Some c \<longrightarrow> c \<notin> live w)"

definition saves_succeed :: "llama_env \<Rightarrow> bool" where
  "saves_succeed e \<longleftrightarrow> (\<forall>w c f ts. env_save e w c f ts \<noteq> 0)"

definition piece_in_buffer :: "llama_env \<Rightarrow> bool" where
  \<comment> \<open>\<open>llama_token_to_piece\<close> writes no more than the 256 bytes it is told the buffer has\<close>
  "piece_in_buffer e \<longleftrightarrow> (\<forall>m t. length (snd (env_piece e m t)) \<le> 256)"

definition piece_fits :: "llama_env \<Rightarrow> bool" where
  \<comment> \<open>no token has a text that is too long for the buffer (the call then returns a negative number).
    No property assumes this; it says when a \<open>length_error\<close> can occur.\<close>
  "piece_fits e \<longleftrightarrow> (\<forall>m t. 0 \<le> fst (env_piece e m t))"

lemma piece_text_length: "piece_in_buffer e \<Longrightarrow> length (piece_text e m t) \<le> 256"
  by (simp add: piece_in_buffer_def piece_text_def min_le_iff_disj)

fun saved :: "history \<Rightarrow> string \<Rightarrow> llama_token list option" where
  \<comment> \<open>the tokens in a state file; a failed write leaves unknown contents\<close>
  "saved [] f = None"
| "saved (ev # w) f =
     (case ev of
        SeqSave c g ts n \<Rightarrow> if g = f then if n = 0 then None else Some ts else saved w f
      | RemoveFile g \<Rightarrow> if g = f then None else saved w f
      | _ \<Rightarrow> saved w f)"

definition loads_back :: "llama_env \<Rightarrow> bool" where
  \<comment> \<open>a successful load returns the tokens that were saved, which fit the buffer\<close>
  "loads_back e \<longleftrightarrow>
     (\<forall>w c f n ts ld wr k. saved w f = Some ts \<longrightarrow> env_load e w c f n = (ld, wr, k) \<longrightarrow> ld \<noteq> 0 \<longrightarrow>
        length ts \<le> n \<and> wr = ts \<and> k = length ts)"

subsection \<open>A concrete library\<close>

text \<open>
  An instance of the parameter, on which the hypotheses above hold: files keep what is written to
  them, contexts are numbered, every state file has the same size.
\<close>

fun next_ctx :: "history \<Rightarrow> ctx" where
  "next_ctx [] = 0"
| "next_ctx (ev # w) =
     (case ev of LlamaInit m p (Some c) \<Rightarrow> max (Suc c) (next_ctx w) | _ \<Rightarrow> next_ctx w)"

definition demo_load :: "history \<Rightarrow> ctx \<Rightarrow> string \<Rightarrow> nat \<Rightarrow> size_t \<times> llama_token list \<times> nat" where
  "demo_load w c f n =
     (case saved w f of
        Some ts \<Rightarrow> if length ts \<le> n then (8, ts, length ts) else (0, [], 0)
      | None \<Rightarrow> (0, [], 0))"

definition demo_model_params :: llama_model_params where
  "demo_model_params =
     \<lparr>mp_devices = None, mp_n_gpu_layers = 0, mp_split_mode = LLAMA_SPLIT_MODE_LAYER, mp_main_gpu = 0,
      mp_tensor_split = None, mp_rpc_servers = None, mp_progress_callback = None,
      mp_progress_callback_user_data = None, mp_kv_overrides = None, mp_vocab_only = False,
      mp_use_mmap = True, mp_use_mlock = False, mp_check_tensors = False\<rparr>"

definition demo_ctx_params :: llama_context_params where
  "demo_ctx_params =
     \<lparr>n_ctx = 16, n_batch = 16, n_ubatch = 16, n_seq_max = 1, n_threads = 4, n_threads_batch = 4,
      rope_scaling_type = LLAMA_ROPE_SCALING_TYPE_UNSPECIFIED,
      pooling_type = LLAMA_POOLING_TYPE_UNSPECIFIED,
      attention_type = LLAMA_ATTENTION_TYPE_UNSPECIFIED, rope_freq_base = 0, rope_freq_scale = 0,
      yarn_ext_factor = 0, yarn_attn_factor = 0, yarn_beta_fast = 0, yarn_beta_slow = 0,
      yarn_orig_ctx = 0, defrag_thold = 0, cb_eval = None, cb_eval_user_data = None,
      type_k = GGML_TYPE_F16, type_v = GGML_TYPE_F16, logits_all = False, embeddings = False,
      offload_kqv = True, flash_attn = False, no_perf = True, abort_callback = None,
      abort_callback_data = None\<rparr>"

definition demo_batch :: "llama_token list \<Rightarrow> llama_batch" where
  \<comment> \<open>the positions are tracked by the library: the other arrays are null\<close>
  "demo_batch ts =
     \<lparr>b_n_tokens = int (length ts), b_token = Some ts, b_embd = None, b_pos = None, b_n_seq_id = None,
      b_seq_id = None, b_logits = None\<rparr>"

definition demo_env :: "size_t \<Rightarrow> llama_env" where
  "demo_env bytes =
     \<lparr>env_init = (\<lambda>w m p. Some (next_ctx w)), env_save = (\<lambda>w c f ts. 8), env_size = (\<lambda>w c. bytes),
      env_load = demo_load, env_now = (\<lambda>w. int (length w)), env_decode = (\<lambda>w c ts. 0),
      env_batch_one = demo_batch, env_decode_batch = (\<lambda>w c b. 0),
      env_sample = (\<lambda>w c. int (length w) mod 128), env_cancel = (\<lambda>w. False),
      env_model = (\<lambda>w f p. Some 0),
      env_model_params = demo_model_params, env_ctx_params = demo_ctx_params, env_bos = (\<lambda>m. 1),
      env_tokenize = (\<lambda>m. map (\<lambda>ch. int (of_char ch :: nat))), env_is_eog = (\<lambda>m t. t = 0),
      env_piece = (\<lambda>m t. (1, [char_of (nat t)]))\<rparr>"

lemma live_next_ctx: "c \<in> live w \<Longrightarrow> c < next_ctx w"
  by (induction w) (auto split: event.splits option.splits if_splits)

lemma demo_fresh: "fresh_init (demo_env b)"
  by (auto simp: fresh_init_def demo_env_def dest: live_next_ctx)

lemma demo_saves: "saves_succeed (demo_env b)"
  by (simp add: saves_succeed_def demo_env_def)

lemma demo_loads: "loads_back (demo_env b)"
  by (auto simp: loads_back_def demo_env_def demo_load_def split: if_splits)

lemma demo_piece: "piece_fits (demo_env b)" "piece_in_buffer (demo_env b)"
  by (simp_all add: piece_fits_def piece_in_buffer_def demo_env_def)

end
