(* ===== verification/Session_Manager.thy ===== *)
theory Session_Manager
  imports Std_List Llama_Env
begin

text \<open>
  \<open>SessionManager\<close> of \<open>daemon/include/session_manager.h\<close> and \<open>daemon/src/session_manager.cpp\<close>: the
  state and every operation, statement by statement.  A session is HOT (it owns a llama context) or
  COLD (its state, if it ever had one, is in a swap file).  The two intrusive LRU lists hold the ids
  of the HOT and of the swapped sessions, oldest first; a session keeps an iterator to its node.

  \<open>unordered_map\<close> references stay valid until the element is erased, so a \<open>SessionMeta &\<close> is the id
  of the session, looked up again at each use; a look-up that fails where the code dereferences a
  reference it obtained earlier is the fault \<open>DanglingReference\<close>.
\<close>

subsection \<open>State\<close>

datatype sstate = HOT | COLD

record session_meta =
  m_id :: int
  m_state :: sstate
  m_ctx :: "ctx option"
  m_tokens :: "llama_token list"
  m_swapFilePath :: string
  m_swapFileBytes :: size_t
  m_lastUsedMs :: int
  m_lruIt :: iterator

definition new_meta :: session_meta where
  \<comment> \<open>the default member initialisers of \<open>SessionMeta\<close>\<close>
  "new_meta =
     \<lparr>m_id = - 1, m_state = COLD, m_ctx = None, m_tokens = [], m_swapFilePath = [],
      m_swapFileBytes = 0, m_lastUsedMs = 0, m_lruIt = None\<rparr>"

record session_manager =
  mModel :: nat
  mCtxParams :: ctx_params
  mSwapDir :: string
  mSessions :: "int \<rightharpoonup> session_meta"
  mHotLru :: id_list
  mHotLimit :: size_t
  mColdLru :: id_list
  mColdLimitBytes :: size_t
  mColdUsedBytes :: size_t
  nextNode :: node \<comment> \<open>the allocator of list nodes\<close>

definition kDefaultHotLimit :: size_t where "kDefaultHotLimit = 3"
definition kDefaultColdLimitBytes :: size_t where "kDefaultColdLimitBytes = 512 * 1024 * 1024"
definition kMinKeepTokens :: nat where "kMinKeepTokens = 64"

definition SessionManager :: "nat \<Rightarrow> ctx_params \<Rightarrow> string \<Rightarrow> session_manager" where
  "SessionManager model params dir =
     \<lparr>mModel = model, mCtxParams = params, mSwapDir = dir, mSessions = Map.empty,
      mHotLru = [], mHotLimit = kDefaultHotLimit, mColdLru = [],
      mColdLimitBytes = kDefaultColdLimitBytes, mColdUsedBytes = 0, nextNode = 0\<rparr>"

definition SessionManager_dtor :: "int list \<Rightarrow> session_manager \<Rightarrow> history \<Rightarrow> history" where
  \<comment> \<open>the argument lists the keys in the unspecified iteration order of the \<open>unordered_map\<close>\<close>
  "SessionManager_dtor order s w =
     foldl (\<lambda>w i. case mSessions s i of
                    Some m \<Rightarrow> if m_state m = HOT \<and> m_ctx m \<noteq> None then llama_free (m_ctx m) w else w
                  | None \<Rightarrow> w) w order"

definition swapPathFor :: "session_manager \<Rightarrow> int \<Rightarrow> string" where
  "swapPathFor s i = mSwapDir s @ ''/'' @ show_int i @ ''.state''"

abbreviation put_session :: "int \<Rightarrow> session_meta \<Rightarrow> session_manager \<Rightarrow> session_manager" where
  "put_session i m s \<equiv> s\<lparr>mSessions := (mSessions s)(i \<mapsto> m)\<rparr>"

abbreviation drop_session :: "int \<Rightarrow> session_manager \<Rightarrow> session_manager" where
  "drop_session i s \<equiv> s\<lparr>mSessions := (mSessions s)(i := None)\<rparr>"

subsection \<open>Creating and destroying sessions\<close>

definition createSession ::
    "llama_env \<Rightarrow> int \<Rightarrow> session_manager \<Rightarrow> history \<Rightarrow> bool \<times> session_manager \<times> history" where
  "createSession e requestedId s w =
     (if mSessions s requestedId \<noteq> None then (False, s, w)
      else let (t, w1) = now_ms e w;
               meta = new_meta\<lparr>m_id := requestedId, m_state := COLD, m_lastUsedMs := t\<rparr>
           in (True, put_session requestedId meta s, w1))"

definition killSession ::
    "int \<Rightarrow> session_manager \<Rightarrow> history \<Rightarrow> (bool \<times> session_manager \<times> history) result" where
  "killSession i s w =
     (case mSessions s i of
        None \<Rightarrow> Inr (False, s, w)
      | Some meta \<Rightarrow>
          if m_state meta = HOT then
            bindR (erase (m_lruIt meta) (mHotLru s)) (\<lambda>hot.
              Inr (True, drop_session i (s\<lparr>mHotLru := hot\<rparr>), llama_free (m_ctx meta) w))
          else if m_swapFilePath meta \<noteq> [] then
            bindR (erase (m_lruIt meta) (mColdLru s)) (\<lambda>cold.
              Inr (True,
                   drop_session i
                     (s\<lparr>mColdLru := cold, mColdUsedBytes := mColdUsedBytes s - m_swapFileBytes meta\<rparr>),
                   RemoveFile (m_swapFilePath meta) # w))
          else Inr (True, drop_session i s, w))"

subsection \<open>Recency\<close>

definition touchHot ::
    "llama_env \<Rightarrow> int \<Rightarrow> session_manager \<Rightarrow> history \<Rightarrow> (session_manager \<times> history) result" where
  "touchHot e i s w =
     (case mSessions s i of
        None \<Rightarrow> Inl DanglingReference
      | Some meta \<Rightarrow>
          bindR (erase (m_lruIt meta) (mHotLru s)) (\<lambda>hot.
            let hot' = push_back (nextNode s) (m_id meta) hot;
                (t, w1) = now_ms e w
            in Inr (put_session i (meta\<lparr>m_lruIt := prev_end hot', m_lastUsedMs := t\<rparr>)
                      (s\<lparr>mHotLru := hot', nextNode := Suc (nextNode s)\<rparr>), w1)))"

definition recordTokens ::
    "llama_env \<Rightarrow> int \<Rightarrow> llama_token list \<Rightarrow> session_manager \<Rightarrow> history
       \<Rightarrow> (session_manager \<times> history) result" where
  "recordTokens e i newTokens s w =
     (case mSessions s i of
        None \<Rightarrow> Inr (s, w)
      | Some meta \<Rightarrow>
          let s1 = put_session i (meta\<lparr>m_tokens := m_tokens meta @ newTokens\<rparr>) s in
          if m_state meta = HOT then touchHot e i s1 w else Inr (s1, w))"

subsection \<open>The COLD limit\<close>

fun evictCold_loop ::
    "nat \<Rightarrow> int \<Rightarrow> session_manager \<Rightarrow> history \<Rightarrow> (session_manager \<times> history) result" where
  "evictCold_loop 0 excludeId s w = Inl Diverges"
| "evictCold_loop (Suc fuel) excludeId s w =
     (if mColdLimitBytes s < mColdUsedBytes s \<and> mColdLru s \<noteq> [] then
        let front = snd (hd (mColdLru s)) in
        if front = excludeId \<and> length (mColdLru s) = 1 then Inr (s, w)
        else let victim = (if front = excludeId then snd (mColdLru s ! 1) else front) in
             bindR (killSession victim s w) (\<lambda>(ok, s1, w1). evictCold_loop fuel excludeId s1 w1)
      else Inr (s, w))"

definition evictColdIfNeeded ::
    "int \<Rightarrow> session_manager \<Rightarrow> history \<Rightarrow> (session_manager \<times> history) result" where
  "evictColdIfNeeded excludeId s w = evictCold_loop (Suc (length (mColdLru s))) excludeId s w"

definition setColdLimit ::
    "size_t \<Rightarrow> session_manager \<Rightarrow> history \<Rightarrow> (session_manager \<times> history) result" where
  "setColdLimit bytes s w = evictColdIfNeeded (- 1) (s\<lparr>mColdLimitBytes := bytes\<rparr>) w"

subsection \<open>Swapping out\<close>

definition pruneOldestTokens ::
    "session_meta \<Rightarrow> nat \<Rightarrow> history \<Rightarrow> (session_meta \<times> history) result" where
  "pruneOldestTokens meta n w =
     (if n = 0 \<or> length (m_tokens meta) \<le> n then Inr (meta, w)
      else case m_ctx meta of
        None \<Rightarrow> Inl NullDereference
      | Some c \<Rightarrow>
          Inr (meta\<lparr>m_tokens := drop n (m_tokens meta)\<rparr>,
               SeqAdd c (to_int32 (int n)) (- 1) (- to_int32 (int n))
               # SeqRm c 0 (to_int32 (int n)) # w))"

definition prune_amount :: "nat \<Rightarrow> nat" where
  \<comment> \<open>a quarter of the tokens, at least one, and never below \<open>kMinKeepTokens\<close>\<close>
  "prune_amount n = min (max 1 (n div 4)) (n - kMinKeepTokens)"

lemma prune_amount_bounds:
  assumes "kMinKeepTokens < n" shows "0 < prune_amount n" and "prune_amount n < n"
  using assms by (auto simp: prune_amount_def kMinKeepTokens_def)

lemma pruneOldestTokens_shorter:
  assumes "pruneOldestTokens meta (prune_amount (length (m_tokens meta))) w = Inr (meta', w')"
    and "kMinKeepTokens < length (m_tokens meta)"
  shows "length (m_tokens meta') < length (m_tokens meta)"
  using assms prune_amount_bounds [OF assms(2)]
  by (auto simp: pruneOldestTokens_def split: if_splits option.splits)

function swapOut_loop ::
    "llama_env \<Rightarrow> string \<Rightarrow> size_t \<Rightarrow> size_t \<Rightarrow> session_meta \<Rightarrow> history
       \<Rightarrow> (size_t option \<times> session_meta \<times> history) result" where
  \<comment> \<open>the \<open>for (;;)\<close> of \<open>swapOut\<close>; \<open>None\<close>: the save failed and \<open>swapOut\<close> returns \<open>false\<close>\<close>
  "swapOut_loop e path used limit meta w =
     (case m_ctx meta of
        None \<Rightarrow> Inl NullDereference
      | Some c \<Rightarrow>
          let written = env_save e w c path (m_tokens meta);
              w1 = SeqSave c path (m_tokens meta) written # w in
          if written = 0 then Inr (None, meta, w1)
          else
            let bytes = env_size e w1 c; w2 = SeqGetSize c bytes # w1 in
            if bytes + used \<le> limit then Inr (Some bytes, meta, w2)
            else if length (m_tokens meta) \<le> kMinKeepTokens then Inr (Some bytes, meta, w2)
            else
              bindR (pruneOldestTokens meta (prune_amount (length (m_tokens meta))) w2)
                (\<lambda>(meta', w3). swapOut_loop e path used limit meta' w3))"
  by pat_completeness auto
termination
  by (relation "measure (\<lambda>(e, path, used, limit, meta, w). length (m_tokens meta))")
    (auto dest: pruneOldestTokens_shorter)

declare swapOut_loop.simps [simp del]

definition swapOut ::
    "llama_env \<Rightarrow> int \<Rightarrow> session_manager \<Rightarrow> history
       \<Rightarrow> (bool \<times> session_manager \<times> history) result" where
  \<comment> \<open>called as \<open>swapOut(mSessions.at(victim))\<close>; \<open>at\<close> throws \<open>out_of_range\<close>\<close>
  "swapOut e i s w =
     (case mSessions s i of
        None \<Rightarrow> Inl OutOfRange
      | Some meta \<Rightarrow>
          let path = swapPathFor s (m_id meta) in
          bindR (swapOut_loop e path (mColdUsedBytes s) (mColdLimitBytes s) meta w)
            (\<lambda>(res, meta1, w1).
               case res of
                 None \<Rightarrow> Inr (False, put_session i meta1 s, w1)
               | Some bytes \<Rightarrow>
                   bindR (erase (m_lruIt meta1) (mHotLru s)) (\<lambda>hot.
                     let cold = push_back (nextNode s) (m_id meta1) (mColdLru s);
                         meta2 = meta1\<lparr>m_ctx := None, m_state := COLD, m_swapFilePath := path,
                                       m_swapFileBytes := bytes, m_lruIt := prev_end cold\<rparr>;
                         s1 = put_session i meta2
                                (s\<lparr>mHotLru := hot, mColdLru := cold, nextNode := Suc (nextNode s),
                                   mColdUsedBytes := mColdUsedBytes s + bytes\<rparr>)
                     in bindR (evictColdIfNeeded (m_id meta1) s1 (llama_free (m_ctx meta1) w1))
                          (\<lambda>(s2, w2). Inr (True, s2, w2)))))"

subsection \<open>The HOT limit\<close>

definition pick_victim :: "int \<Rightarrow> id_list \<Rightarrow> int" where
  \<comment> \<open>the first id in the list other than \<open>excludeId\<close>, with \<open>-1\<close> for none\<close>
  "pick_victim excludeId l =
     (case find (\<lambda>p. snd p \<noteq> excludeId) l of None \<Rightarrow> - 1 | Some p \<Rightarrow> snd p)"

lemma killSession_hot_shrinks:
  "killSession i s w = Inr (ok, s', w') \<Longrightarrow> length (mHotLru s') \<le> length (mHotLru s)"
  by (auto simp: killSession_def bindR_Inr_iff dest!: erase_shorter split: option.splits if_splits)

lemma evictCold_loop_hot_shrinks:
  "evictCold_loop fuel x s w = Inr (s', w') \<Longrightarrow> length (mHotLru s') \<le> length (mHotLru s)"
proof (induction fuel arbitrary: s w)
  case (Suc fuel)
  then show ?case
    by (fastforce simp: Let_def bindR_Inr_iff dest: killSession_hot_shrinks split: if_splits)
qed simp

lemma swapOut_hot_shrinks:
  "swapOut e i s w = Inr (True, s', w') \<Longrightarrow> length (mHotLru s') < length (mHotLru s)"
  by (auto simp: swapOut_def Let_def bindR_Inr_iff evictColdIfNeeded_def simp del: evictCold_loop.simps
      dest!: erase_shorter evictCold_loop_hot_shrinks split: option.splits)

function evictHotIfNeeded ::
    "llama_env \<Rightarrow> int \<Rightarrow> session_manager \<Rightarrow> history \<Rightarrow> (session_manager \<times> history) result" where
  "evictHotIfNeeded e excludeId s w =
     (if unat (mHotLimit s) \<le> length (mHotLru s) \<and> mHotLru s \<noteq> [] then
        let victim = pick_victim excludeId (mHotLru s) in
        if victim = - 1 then Inr (s, w)
        else
          bindR (swapOut e victim s w) (\<lambda>(ok, s1, w1).
            if ok then evictHotIfNeeded e excludeId s1 w1 else Inr (s1, w1))
      else Inr (s, w))"
  by pat_completeness auto
termination
  by (relation "measure (\<lambda>(e, x, s, w). length (mHotLru s))") (auto dest: swapOut_hot_shrinks)

declare evictHotIfNeeded.simps [simp del]

definition setHotLimit ::
    "llama_env \<Rightarrow> size_t \<Rightarrow> session_manager \<Rightarrow> history \<Rightarrow> (session_manager \<times> history) result" where
  "setHotLimit e count s w = evictHotIfNeeded e (- 1) (s\<lparr>mHotLimit := max 1 count\<rparr>) w"

subsection \<open>Activation\<close>

definition load_buffer :: "nat \<Rightarrow> llama_token list \<Rightarrow> llama_token list \<Rightarrow> llama_token list" where
  \<comment> \<open>\<open>tokens.resize(n_ctx)\<close>, then the tokens the library writes at the front of the buffer\<close>
  "load_buffer n old written =
     (let buf = resize n 0 old in take n (written @ drop (length written) buf))"

definition swapIn ::
    "llama_env \<Rightarrow> int \<Rightarrow> ctx \<Rightarrow> session_manager \<Rightarrow> history
       \<Rightarrow> (bool \<times> session_manager \<times> history) result" where
  \<comment> \<open>the block under \<open>if (!meta.swapFilePath.empty())\<close>; \<open>False\<close>: the load failed\<close>
  "swapIn e i c s w =
     (case mSessions s i of
        None \<Rightarrow> Inl DanglingReference
      | Some meta \<Rightarrow>
          let n = unat (n_ctx (mCtxParams s));
              (loaded, written, nOut) = env_load e w c (m_swapFilePath meta) n;
              w1 = SeqLoad c (m_swapFilePath meta) n loaded # w;
              buf = load_buffer n (m_tokens meta) written in
          if loaded = 0
          then Inr (False, put_session i (meta\<lparr>m_tokens := buf\<rparr>) s, LlamaFree c # w1)
          else
            bindR (erase (m_lruIt meta) (mColdLru s)) (\<lambda>cold.
              Inr (True,
                   put_session i (meta\<lparr>m_tokens := resize nOut 0 buf, m_swapFileBytes := 0\<rparr>)
                     (s\<lparr>mColdLru := cold, mColdUsedBytes := mColdUsedBytes s - m_swapFileBytes meta\<rparr>),
                   RemoveFile (m_swapFilePath meta) # w1)))"

definition make_hot ::
    "llama_env \<Rightarrow> int \<Rightarrow> ctx \<Rightarrow> session_manager \<Rightarrow> history
       \<Rightarrow> (session_manager \<times> history) result" where
  \<comment> \<open>the last block of \<open>activateForInfer\<close>\<close>
  "make_hot e i c s w =
     (case mSessions s i of
        None \<Rightarrow> Inl DanglingReference
      | Some meta \<Rightarrow>
          let hot = push_back (nextNode s) i (mHotLru s); (t, w1) = now_ms e w in
          Inr (put_session i (meta\<lparr>m_ctx := Some c, m_state := HOT, m_lruIt := prev_end hot,
                                   m_lastUsedMs := t\<rparr>)
                 (s\<lparr>mHotLru := hot, nextNode := Suc (nextNode s)\<rparr>), w1))"

definition activateForInfer ::
    "llama_env \<Rightarrow> int \<Rightarrow> session_manager \<Rightarrow> history
       \<Rightarrow> (ctx option \<times> session_manager \<times> history) result" where
  "activateForInfer e i s w =
     (case mSessions s i of
        None \<Rightarrow> Inr (None, s, w)
      | Some meta0 \<Rightarrow>
          if m_state meta0 = HOT then
            bindR (touchHot e i s w) (\<lambda>(s1, w1). Inr (m_ctx meta0, s1, w1))
          else
            bindR (evictHotIfNeeded e i s w) (\<lambda>(s1, w1).
              let res = env_init e w1 (mModel s1) (mCtxParams s1);
                  w2 = LlamaInit (mModel s1) (mCtxParams s1) res # w1 in
              case res of
                None \<Rightarrow> Inr (None, s1, w2)
              | Some c \<Rightarrow>
                  (case mSessions s1 i of
                     None \<Rightarrow> Inl DanglingReference
                   | Some meta \<Rightarrow>
                       bindR (if m_swapFilePath meta \<noteq> [] then swapIn e i c s1 w2
                              else Inr (True, s1, w2))
                         (\<lambda>(ok, s2, w3).
                            if ok then bindR (make_hot e i c s2 w3)
                                         (\<lambda>(s3, w4). Inr (Some c, s3, w4))
                            else Inr (None, s2, w3)))))"

end
