(* ===== verification/Session_Invariant.thy ===== *)
theory Session_Invariant
  imports Session_Manager
begin

text \<open>
  The well-formedness of \<open>SessionManager\<close> between its public operations, and its preservation by each
  of them.  The proofs go through a weaker predicate \<open>inv_on X\<close>, the invariant without the sessions
  of \<open>X\<close>: an operation unlinks the session it works on (\<open>inv_on {i}\<close>) and links it again in its new
  role, so that one unlink and one link lemma per role carry every operation.
\<close>

subsection \<open>The invariant\<close>

definition swapped :: "session_meta \<Rightarrow> bool" where
  "swapped m \<longleftrightarrow> m_state m = COLD \<and> m_swapFilePath m \<noteq> []"

definition bytes_of :: "session_manager \<Rightarrow> int \<Rightarrow> size_t" where
  "bytes_of s i = (case mSessions s i of None \<Rightarrow> 0 | Some m \<Rightarrow> m_swapFileBytes m)"

definition meta_ok :: "session_manager \<Rightarrow> int \<Rightarrow> session_meta \<Rightarrow> bool" where
  "meta_ok s i m \<longleftrightarrow>
     m_id m = i \<and> (m_state m = HOT \<longleftrightarrow> m_ctx m \<noteq> None) \<and>
     (m_state m = HOT \<or> swapped m \<longrightarrow> m_lruIt m \<noteq> None) \<and>
     (swapped m \<longrightarrow> m_swapFilePath m = swapPathFor s i)"

definition hot_nodes :: "int set \<Rightarrow> session_manager \<Rightarrow> (node \<times> int) set" where
  "hot_nodes X s =
     {(n, i). i \<notin> X \<and> (\<exists>m. mSessions s i = Some m \<and> m_state m = HOT \<and> m_lruIt m = Some n)}"

definition cold_nodes :: "int set \<Rightarrow> session_manager \<Rightarrow> (node \<times> int) set" where
  "cold_nodes X s =
     {(n, i). i \<notin> X \<and> (\<exists>m. mSessions s i = Some m \<and> swapped m \<and> m_lruIt m = Some n)}"

definition inv_on :: "int set \<Rightarrow> session_manager \<Rightarrow> bool" where
  "inv_on X s \<longleftrightarrow>
     finite (dom (mSessions s)) \<and>
     (\<forall>i m. i \<notin> X \<longrightarrow> mSessions s i = Some m \<longrightarrow> meta_ok s i m) \<and>
     set (mHotLru s) = hot_nodes X s \<and> set (mColdLru s) = cold_nodes X s \<and>
     distinct (map fst (mHotLru s)) \<and> distinct (map fst (mColdLru s)) \<and>
     (\<forall>n i. (n, i) \<in> set (mHotLru s) \<or> (n, i) \<in> set (mColdLru s) \<longrightarrow> n < nextNode s) \<and>
     mColdUsedBytes s = sum_list (map (\<lambda>p. bytes_of s (snd p)) (mColdLru s)) \<and>
     1 \<le> mHotLimit s"

definition sm_inv :: "session_manager \<Rightarrow> bool" where
  "sm_inv s \<longleftrightarrow> inv_on {} s"

lemma sm_inv_init: "sm_inv (SessionManager model params dir)"
  by (simp add: sm_inv_def inv_on_def SessionManager_def hot_nodes_def cold_nodes_def
      kDefaultHotLimit_def)

subsection \<open>What the invariant gives\<close>

lemma inv_meta: "sm_inv s \<Longrightarrow> mSessions s i = Some m \<Longrightarrow> meta_ok s i m"
  by (simp add: sm_inv_def inv_on_def)

lemma inv_hot_iff:
  "sm_inv s \<Longrightarrow> (n, i) \<in> set (mHotLru s) \<longleftrightarrow>
     (\<exists>m. mSessions s i = Some m \<and> m_state m = HOT \<and> m_lruIt m = Some n)"
  by (simp add: sm_inv_def inv_on_def hot_nodes_def)

lemma inv_cold_iff:
  "sm_inv s \<Longrightarrow> (n, i) \<in> set (mColdLru s) \<longleftrightarrow>
     (\<exists>m. mSessions s i = Some m \<and> swapped m \<and> m_lruIt m = Some n)"
  by (simp add: sm_inv_def inv_on_def cold_nodes_def)

lemma inv_hotE:
  assumes "sm_inv s" "mSessions s i = Some m" "m_state m = HOT"
  obtains n c where "m_lruIt m = Some n" "(n, i) \<in> set (mHotLru s)" "m_ctx m = Some c" "m_id m = i"
    "erase (m_lruIt m) (mHotLru s) = Inr (filter (\<lambda>p. fst p \<noteq> n) (mHotLru s))"
proof -
  from inv_meta [OF assms(1,2)] assms(3) obtain n c
    where n: "m_lruIt m = Some n" "m_ctx m = Some c" "m_id m = i"
    by (auto simp: meta_ok_def)
  then have "(n, i) \<in> set (mHotLru s)" using assms inv_hot_iff by blast
  with n show thesis by (intro that) (auto simp: erase_member)
qed

lemma inv_coldE:
  assumes "sm_inv s" "mSessions s i = Some m" "swapped m"
  obtains n where "m_lruIt m = Some n" "(n, i) \<in> set (mColdLru s)" "m_ctx m = None" "m_id m = i"
    "m_swapFilePath m = swapPathFor s i"
    "erase (m_lruIt m) (mColdLru s) = Inr (filter (\<lambda>p. fst p \<noteq> n) (mColdLru s))"
proof -
  from inv_meta [OF assms(1,2)] assms(3) obtain n
    where n: "m_lruIt m = Some n" "m_ctx m = None" "m_id m = i" "m_swapFilePath m = swapPathFor s i"
    by (auto simp: meta_ok_def swapped_def)
  then have "(n, i) \<in> set (mColdLru s)" using assms inv_cold_iff by blast
  with n show thesis by (intro that) (auto simp: erase_member)
qed

lemma distinct_fst_ids:
  assumes "distinct (map fst l)" and "\<And>n n' i. (n, i) \<in> set l \<Longrightarrow> (n', i) \<in> set l \<Longrightarrow> n = n'"
  shows "distinct (map snd l)"
proof -
  have "inj_on snd (set l)" by (rule inj_onI) (use assms(2) in \<open>auto split: prod.splits\<close>)
  then show ?thesis using assms(1) by (simp add: distinct_map)
qed

lemma inv_hot_distinct: "sm_inv s \<Longrightarrow> distinct (ids (mHotLru s))"
  by (rule distinct_fst_ids) (simp add: sm_inv_def inv_on_def, auto simp: inv_hot_iff)

lemma inv_cold_distinct: "sm_inv s \<Longrightarrow> distinct (ids (mColdLru s))"
  by (rule distinct_fst_ids) (simp add: sm_inv_def inv_on_def, auto simp: inv_cold_iff)

lemma inv_hot_ids: "sm_inv s \<Longrightarrow> i \<in> set (ids (mHotLru s)) \<longleftrightarrow>
    (\<exists>m. mSessions s i = Some m \<and> m_state m = HOT)"
proof
  assume inv: "sm_inv s" and "i \<in> set (ids (mHotLru s))"
  then obtain n where "(n, i) \<in> set (mHotLru s)" by auto
  then show "\<exists>m. mSessions s i = Some m \<and> m_state m = HOT" using inv_hot_iff [OF inv] by auto
next
  assume inv: "sm_inv s" and "\<exists>m. mSessions s i = Some m \<and> m_state m = HOT"
  then obtain n where "(n, i) \<in> set (mHotLru s)" using inv_hotE [OF inv] by metis
  then show "i \<in> set (ids (mHotLru s))" by force
qed

lemma inv_cold_ids: "sm_inv s \<Longrightarrow> i \<in> set (ids (mColdLru s)) \<longleftrightarrow>
    (\<exists>m. mSessions s i = Some m \<and> swapped m)"
proof
  assume inv: "sm_inv s" and "i \<in> set (ids (mColdLru s))"
  then obtain n where "(n, i) \<in> set (mColdLru s)" by auto
  then show "\<exists>m. mSessions s i = Some m \<and> swapped m" using inv_cold_iff [OF inv] by auto
next
  assume inv: "sm_inv s" and "\<exists>m. mSessions s i = Some m \<and> swapped m"
  then obtain n where "(n, i) \<in> set (mColdLru s)" using inv_coldE [OF inv] by metis
  then show "i \<in> set (ids (mColdLru s))" by force
qed

lemma inv_disjoint: "sm_inv s \<Longrightarrow> set (ids (mHotLru s)) \<inter> set (ids (mColdLru s)) = {}"
  by (auto simp del: set_map simp: inv_hot_ids inv_cold_ids swapped_def)

subsection \<open>Unlinking and linking one session\<close>

lemma inv_onI:
  assumes "finite (dom (mSessions s))"
    and "\<And>i m. i \<notin> X \<Longrightarrow> mSessions s i = Some m \<Longrightarrow> meta_ok s i m"
    and "set (mHotLru s) = hot_nodes X s" and "set (mColdLru s) = cold_nodes X s"
    and "distinct (map fst (mHotLru s))" and "distinct (map fst (mColdLru s))"
    and "\<And>n i. (n, i) \<in> set (mHotLru s) \<or> (n, i) \<in> set (mColdLru s) \<Longrightarrow> n < nextNode s"
    and "mColdUsedBytes s = sum_list (map (\<lambda>p. bytes_of s (snd p)) (mColdLru s))"
    and "1 \<le> mHotLimit s"
  shows "inv_on X s"
  unfolding inv_on_def using assms by (intro conjI allI impI) assumption+

lemma inv_onD:
  assumes "inv_on X s"
  shows "finite (dom (mSessions s))"
    and "\<And>i m. i \<notin> X \<Longrightarrow> mSessions s i = Some m \<Longrightarrow> meta_ok s i m"
    and "set (mHotLru s) = hot_nodes X s" and "set (mColdLru s) = cold_nodes X s"
    and "distinct (map fst (mHotLru s))" and "distinct (map fst (mColdLru s))"
    and "\<And>n i. (n, i) \<in> set (mHotLru s) \<or> (n, i) \<in> set (mColdLru s) \<Longrightarrow> n < nextNode s"
    and "mColdUsedBytes s = sum_list (map (\<lambda>p. bytes_of s (snd p)) (mColdLru s))"
    and "1 \<le> mHotLimit s"
  using assms unfolding inv_on_def by blast+

lemma inv_node_hot: "inv_on X s \<Longrightarrow> (n, i) \<in> set (mHotLru s) \<Longrightarrow> n < nextNode s"
  and inv_node_cold: "inv_on X s \<Longrightarrow> (n, i) \<in> set (mColdLru s) \<Longrightarrow> n < nextNode s"
  by (blast dest: inv_onD(7))+

lemma filter_node_set:
  assumes "distinct (map fst l)" "(n, i) \<in> set l" "\<And>k. (k, i) \<in> set l \<Longrightarrow> k = n"
  shows "(k, j) \<in> set (filter (\<lambda>p. fst p \<noteq> n) l) \<longleftrightarrow> (k, j) \<in> set l \<and> j \<noteq> i"
proof -
  have "(n, j) \<in> set l \<Longrightarrow> j = i" using assms(1,2) by (meson eq_key_imp_eq_value)
  with assms(3) show ?thesis by auto
qed

lemma unlink_hot:
  assumes inv: "sm_inv s" and i: "mSessions s i = Some m" "m_state m = HOT" "m_lruIt m = Some n"
  shows "inv_on {i} (s\<lparr>mHotLru := filter (\<lambda>p. fst p \<noteq> n) (mHotLru s)\<rparr>)"
proof (rule inv_onI)
  note D = inv_onD [OF inv [unfolded sm_inv_def]]
  have mem: "(k, j) \<in> set (filter (\<lambda>p. fst p \<noteq> n) (mHotLru s)) \<longleftrightarrow> (k, j) \<in> set (mHotLru s) \<and> j \<noteq> i"
    for k j
    by (rule filter_node_set) (use D(5) i inv_hot_iff [OF inv] in auto)
  show "set (mHotLru (s\<lparr>mHotLru := filter (\<lambda>p. fst p \<noteq> n) (mHotLru s)\<rparr>))
    = hot_nodes {i} (s\<lparr>mHotLru := filter (\<lambda>p. fst p \<noteq> n) (mHotLru s)\<rparr>)"
    by (rule set_eqI) (auto simp del: set_filter simp: mem inv_hot_iff [OF inv] hot_nodes_def)
  show "set (mColdLru (s\<lparr>mHotLru := filter (\<lambda>p. fst p \<noteq> n) (mHotLru s)\<rparr>))
    = cold_nodes {i} (s\<lparr>mHotLru := filter (\<lambda>p. fst p \<noteq> n) (mHotLru s)\<rparr>)"
    using i inv_cold_iff [OF inv] by (auto simp: cold_nodes_def swapped_def)
qed (use inv_onD(1,2,5,6,8,9) [OF inv [unfolded sm_inv_def]] in
    \<open>auto simp: meta_ok_def swapPathFor_def bytes_of_def intro: distinct_map_filter_fst
       dest: inv_node_hot [OF inv [unfolded sm_inv_def]] inv_node_cold [OF inv [unfolded sm_inv_def]]\<close>)

lemma unlink_cold:
  assumes inv: "sm_inv s" and i: "mSessions s i = Some m" "swapped m" "m_lruIt m = Some n"
  shows "inv_on {i} (s\<lparr>mColdLru := filter (\<lambda>p. fst p \<noteq> n) (mColdLru s),
                       mColdUsedBytes := mColdUsedBytes s - m_swapFileBytes m\<rparr>)" (is "inv_on _ ?s")
proof (rule inv_onI)
  note D = inv_onD [OF inv [unfolded sm_inv_def]]
  have ni: "(n, i) \<in> set (mColdLru s)" using i inv_cold_iff [OF inv] by auto
  have mem: "(k, j) \<in> set (filter (\<lambda>p. fst p \<noteq> n) (mColdLru s)) \<longleftrightarrow> (k, j) \<in> set (mColdLru s) \<and> j \<noteq> i"
    for k j
    by (rule filter_node_set) (use D(6) i inv_cold_iff [OF inv] in auto)
  show "set (mHotLru ?s) = hot_nodes {i} ?s"
    using i inv_hot_iff [OF inv] by (auto simp: hot_nodes_def swapped_def)
  show "set (mColdLru ?s) = cold_nodes {i} ?s"
    by (rule set_eqI) (auto simp del: set_filter simp: mem inv_cold_iff [OF inv] cold_nodes_def)
  have "sum_list (map (\<lambda>p. bytes_of s (snd p)) (filter (\<lambda>p. fst p \<noteq> n) (mColdLru s)))
      = sum_list (map (\<lambda>p. bytes_of s (snd p)) (mColdLru s)) - bytes_of s i"
    using sum_list_filter_fst [OF D(6) ni, of "\<lambda>p. bytes_of s (snd p)"] by simp
  then show "mColdUsedBytes ?s = sum_list (map (\<lambda>p. bytes_of ?s (snd p)) (mColdLru ?s))"
    using D(8) i by (simp add: bytes_of_def)
qed (use inv_onD(1,2,5,6,8,9) [OF inv [unfolded sm_inv_def]] in
    \<open>auto simp: meta_ok_def swapPathFor_def bytes_of_def intro: distinct_map_filter_fst
       dest: inv_node_hot [OF inv [unfolded sm_inv_def]] inv_node_cold [OF inv [unfolded sm_inv_def]]\<close>)

lemma unlink_unlisted:
  assumes inv: "sm_inv s"
    and i: "\<And>m. mSessions s i = Some m \<Longrightarrow> m_state m = COLD \<and> m_swapFilePath m = []"
  shows "inv_on {i} s"
proof (rule inv_onI)
  show "set (mHotLru s) = hot_nodes {i} s" "set (mColdLru s) = cold_nodes {i} s"
    using i inv_hot_iff [OF inv] inv_cold_iff [OF inv]
    by (fastforce simp: hot_nodes_def cold_nodes_def swapped_def)+
qed (use inv_onD(1,2,5,6,8,9) [OF inv [unfolded sm_inv_def]] in
    \<open>auto simp: meta_ok_def swapPathFor_def
       dest: inv_node_hot [OF inv [unfolded sm_inv_def]] inv_node_cold [OF inv [unfolded sm_inv_def]]\<close>)

text \<open>An unlinked session may change in any way.\<close>

lemma unlinked_ids:
  assumes "inv_on {i} s"
  shows "i \<notin> snd ` set (mHotLru s)" and "i \<notin> snd ` set (mColdLru s)"
  using inv_onD(3,4) [OF assms] by (auto simp: hot_nodes_def cold_nodes_def)

lemma bytes_of_other:
  assumes "i \<notin> snd ` set l"
  shows "map (\<lambda>p. bytes_of (s\<lparr>mSessions := (mSessions s)(i := x)\<rparr>) (snd p)) l
    = map (\<lambda>p. bytes_of s (snd p)) l"
  using assms by (auto simp: bytes_of_def intro!: map_cong)

lemma inv_on_upd:
  assumes "inv_on {i} s"
  shows "inv_on {i} (s\<lparr>mSessions := (mSessions s)(i := x)\<rparr>)" (is "inv_on _ ?s")
proof (rule inv_onI)
  note D = inv_onD [OF assms]
  show "set (mHotLru ?s) = hot_nodes {i} ?s" "set (mColdLru ?s) = cold_nodes {i} ?s"
    using D(3,4) by (auto simp: hot_nodes_def cold_nodes_def)
  show "mColdUsedBytes ?s = sum_list (map (\<lambda>p. bytes_of ?s (snd p)) (mColdLru ?s))"
    using D(8) bytes_of_other [OF unlinked_ids(2) [OF assms], of s x]
    by (simp del: map_eq_conv)
  show "finite (dom (mSessions ?s))"
    using D(1) by (rule rev_finite_subset [OF finite_insert [THEN iffD2]]) (auto split: if_splits)
qed (use inv_onD(1,2,5,6,8,9) [OF assms] in
    \<open>auto simp: meta_ok_def swapPathFor_def dest: inv_node_hot [OF assms] inv_node_cold [OF assms]\<close>)

lemma inv_link:
  \<comment> \<open>an unlinked session without a node is linked by being absent, or fresh\<close>
  assumes "inv_on {i} s"
    and "\<And>m. mSessions s i = Some m \<Longrightarrow>
      m_id m = i \<and> m_state m = COLD \<and> m_swapFilePath m = [] \<and> m_ctx m = None"
  shows "sm_inv s"
  unfolding sm_inv_def
proof (rule inv_onI)
  note D = inv_onD [OF assms(1)]
  show "set (mHotLru s) = hot_nodes {} s" "set (mColdLru s) = cold_nodes {} s"
    using D(3,4) assms(2) by (fastforce simp: hot_nodes_def cold_nodes_def swapped_def)+
  show "meta_ok s j m" if "mSessions s j = Some m" for j m
    using D(2) [of j m] assms(2) [of m] that by (cases "j = i") (auto simp: meta_ok_def swapped_def)
qed (use inv_onD(1,5,6,8,9) [OF assms(1)] in
    \<open>auto dest: inv_node_hot [OF assms(1)] inv_node_cold [OF assms(1)]\<close>)

lemma link_none: "inv_on {i} s \<Longrightarrow> sm_inv (drop_session i s)"
  by (rule inv_link [OF inv_on_upd]) auto

lemma link_fresh:
  "inv_on {i} s \<Longrightarrow> m_id m = i \<Longrightarrow> m_state m = COLD \<Longrightarrow> m_swapFilePath m = [] \<Longrightarrow> m_ctx m = None
    \<Longrightarrow> sm_inv (put_session i m s)"
  by (rule inv_link [OF inv_on_upd]) auto

lemma link_hot:
  assumes "inv_on {i} s" and m: "m_id m = i" "m_state m = HOT" "m_ctx m \<noteq> None" "m_lruIt m = Some (nextNode s)"
  shows "sm_inv (put_session i m (s\<lparr>mHotLru := push_back (nextNode s) i (mHotLru s),
                                    nextNode := Suc (nextNode s)\<rparr>))" (is "sm_inv ?s")
  unfolding sm_inv_def
proof (rule inv_onI)
  let ?u = "put_session i m s"
  have I: "inv_on {i} ?u" using assms(1) by (rule inv_on_upd)
  note D = inv_onD [OF I]
  show "set (mHotLru ?s) = hot_nodes {} ?s"
    using D(3) m by (auto simp: hot_nodes_def)
  show "set (mColdLru ?s) = cold_nodes {} ?s"
    using D(4) m by (auto simp: cold_nodes_def swapped_def)
  show "meta_ok ?s j m'" if "mSessions ?s j = Some m'" for j m'
    using D(2) [of j m'] that m by (cases "j = i") (auto simp: meta_ok_def swapped_def swapPathFor_def)
  show "distinct (map fst (mHotLru ?s))"
    using D(5) inv_node_hot [OF assms(1)] by (force simp: push_back_def)
  show "finite (dom (mSessions ?s))" using D(1) by simp
  show "n < nextNode ?s" if "(n, j) \<in> set (mHotLru ?s) \<or> (n, j) \<in> set (mColdLru ?s)" for n j
    using that inv_node_hot [OF assms(1), of n j] inv_node_cold [OF assms(1), of n j]
    by (auto simp: less_Suc_eq)
  show "mColdUsedBytes ?s = sum_list (map (\<lambda>p. bytes_of ?s (snd p)) (mColdLru ?s))"
    using D(8) by (simp add: bytes_of_def)
qed (use inv_onD(6,9) [OF assms(1)] in auto)

lemma link_cold:
  assumes "inv_on {i} s" and m: "m_id m = i" "m_state m = COLD" "m_ctx m = None"
    "m_swapFilePath m = swapPathFor s i" "m_lruIt m = Some (nextNode s)"
  shows "sm_inv (put_session i m (s\<lparr>mColdLru := push_back (nextNode s) i (mColdLru s),
                                    nextNode := Suc (nextNode s),
                                    mColdUsedBytes := mColdUsedBytes s + m_swapFileBytes m\<rparr>))"
    (is "sm_inv ?s")
  unfolding sm_inv_def
proof (rule inv_onI)
  let ?u = "put_session i m s"
  have I: "inv_on {i} ?u" using assms(1) by (rule inv_on_upd)
  note D = inv_onD [OF I]
  have sw: "swapped m" using m by (simp add: swapped_def swapPathFor_def)
  show "set (mHotLru ?s) = hot_nodes {} ?s"
    using D(3) m by (auto simp: hot_nodes_def)
  show "set (mColdLru ?s) = cold_nodes {} ?s"
    using D(4) m sw by (auto simp: cold_nodes_def)
  show "meta_ok ?s j m'" if "mSessions ?s j = Some m'" for j m'
    using D(2) [of j m'] that m by (cases "j = i") (auto simp: meta_ok_def swapPathFor_def)
  show "distinct (map fst (mColdLru ?s))"
    using D(6) inv_node_cold [OF assms(1)] by (force simp: push_back_def)
  show "finite (dom (mSessions ?s))" using D(1) by simp
  show "n < nextNode ?s" if "(n, j) \<in> set (mHotLru ?s) \<or> (n, j) \<in> set (mColdLru ?s)" for n j
    using that inv_node_hot [OF assms(1), of n j] inv_node_cold [OF assms(1), of n j]
    by (auto simp: less_Suc_eq)
  show "mColdUsedBytes ?s = sum_list (map (\<lambda>p. bytes_of ?s (snd p)) (mColdLru ?s))"
    using D(8) by (simp add: bytes_of_def)
qed (use inv_onD(5,9) [OF assms(1)] in auto)

text \<open>A linked session may change its tokens and its time stamp.\<close>

lemma inv_put_same:
  assumes inv: "sm_inv s" and i: "mSessions s i = Some m"
    and same: "m_id m' = m_id m" "m_state m' = m_state m" "m_ctx m' = m_ctx m"
      "m_swapFilePath m' = m_swapFilePath m" "m_swapFileBytes m' = m_swapFileBytes m"
      "m_lruIt m' = m_lruIt m"
  shows "sm_inv (put_session i m' s)" (is "sm_inv ?s")
  unfolding sm_inv_def
proof (rule inv_onI)
  note D = inv_onD [OF inv [unfolded sm_inv_def]]
  have sw: "swapped m' = swapped m" using same by (simp add: swapped_def)
  show "set (mHotLru ?s) = hot_nodes {} ?s" "set (mColdLru ?s) = cold_nodes {} ?s"
    using D(3,4) same i sw by (auto simp: hot_nodes_def cold_nodes_def)
  show "meta_ok ?s j x" if "mSessions ?s j = Some x" for j x
    using D(2) [of j x] D(2) [OF _ i] that same sw
    by (cases "j = i") (auto simp: meta_ok_def swapPathFor_def)
  have "bytes_of ?s j = bytes_of s j" for j using i same by (simp add: bytes_of_def)
  then show "mColdUsedBytes ?s = sum_list (map (\<lambda>p. bytes_of ?s (snd p)) (mColdLru ?s))"
    using D(8) by simp
  show "finite (dom (mSessions ?s))" using D(1) by simp
  show "n < nextNode ?s" if "(n, j) \<in> set (mHotLru ?s) \<or> (n, j) \<in> set (mColdLru ?s)" for n j
    using that D(7) [of n j] by simp
qed (use inv_onD(5,6,9) [OF inv [unfolded sm_inv_def]] in auto)

lemma inv_limits:
  "sm_inv s \<Longrightarrow> sm_inv (s\<lparr>mColdLimitBytes := b\<rparr>)"
  "sm_inv s \<Longrightarrow> 1 \<le> h \<Longrightarrow> sm_inv (s\<lparr>mHotLimit := h\<rparr>)"
  by (simp_all add: sm_inv_def inv_on_def meta_ok_def hot_nodes_def cold_nodes_def bytes_of_def
      swapPathFor_def)

end
