(* ===== verification/Session_Ops.thy ===== *)
theory Session_Ops
  imports Session_Invariant
begin

text \<open>
  Each operation of \<open>SessionManager\<close> under the invariant: it does not fault, it preserves the
  invariant, and its effect on the lists and the map in closed form.  Eviction is described by the
  ids it removes: always a prefix of the LRU order.
\<close>

subsection \<open>Lists of nodes under the invariant\<close>

lemma filter_node_id:
  assumes "distinct (map fst l)" "distinct (ids l)" "(n, i) \<in> set l"
  shows "filter (\<lambda>p. fst p \<noteq> n) l = filter (\<lambda>p. snd p \<noteq> i) l"
proof (rule filter_cong [OF refl])
  fix p assume p: "p \<in> set l"
  have "fst p = n \<Longrightarrow> p = (n, i)" using assms(1,3) p by (metis eq_key_imp_eq_value prod.collapse)
  moreover have "snd p = i \<Longrightarrow> p = (n, i)"
    using assms(2,3) p by (auto simp: distinct_map inj_on_def)
  ultimately show "fst p \<noteq> n \<longleftrightarrow> snd p \<noteq> i" by (metis fst_conv snd_conv)
qed

lemma inv_hot_filter:
  "sm_inv s \<Longrightarrow> (n, i) \<in> set (mHotLru s) \<Longrightarrow>
    filter (\<lambda>p. fst p \<noteq> n) (mHotLru s) = filter (\<lambda>p. snd p \<noteq> i) (mHotLru s)"
  by (rule filter_node_id) (auto simp: inv_hot_distinct sm_inv_def dest: inv_onD(5))

lemma inv_cold_filter:
  "sm_inv s \<Longrightarrow> (n, i) \<in> set (mColdLru s) \<Longrightarrow>
    filter (\<lambda>p. fst p \<noteq> n) (mColdLru s) = filter (\<lambda>p. snd p \<noteq> i) (mColdLru s)"
  by (rule filter_node_id) (auto simp: inv_cold_distinct sm_inv_def dest: inv_onD(6))

abbreviation without :: "int \<Rightarrow> id_list \<Rightarrow> id_list" where
  "without i l \<equiv> filter (\<lambda>p. snd p \<noteq> i) l"

lemma ids_without: "ids (without i l) = filter (\<lambda>j. j \<noteq> i) (ids l)"
  by (simp add: filter_map o_def)

subsection \<open>Killing a session\<close>

lemma kill_cases [consumes 1, case_names absent hot cold fresh]:
  assumes inv: "sm_inv s"
  obtains
    "mSessions s i = None" "killSession i s w = Inr (False, s, w)"
  | m c where "mSessions s i = Some m" "m_state m = HOT" "m_ctx m = Some c"
      "killSession i s w =
        Inr (True, drop_session i (s\<lparr>mHotLru := without i (mHotLru s)\<rparr>), LlamaFree c # w)"
      "sm_inv (drop_session i (s\<lparr>mHotLru := without i (mHotLru s)\<rparr>))"
  | m where "mSessions s i = Some m" "swapped m" "m_ctx m = None"
      "m_swapFilePath m = swapPathFor s i"
      "killSession i s w =
        Inr (True, drop_session i (s\<lparr>mColdLru := without i (mColdLru s),
               mColdUsedBytes := mColdUsedBytes s - m_swapFileBytes m\<rparr>),
             RemoveFile (swapPathFor s i) # w)"
      "sm_inv (drop_session i (s\<lparr>mColdLru := without i (mColdLru s),
               mColdUsedBytes := mColdUsedBytes s - m_swapFileBytes m\<rparr>))"
  | m where "mSessions s i = Some m" "m_state m = COLD" "m_swapFilePath m = []" "m_ctx m = None"
      "killSession i s w = Inr (True, drop_session i s, w)" "sm_inv (drop_session i s)"
proof (cases "mSessions s i")
  case None
  then show thesis using that(1) by (simp add: killSession_def)
next
  case i: (Some m)
  show thesis
  proof (cases "m_state m")
    case HOT
    from inv_hotE [OF inv i HOT] obtain n c where n: "m_lruIt m = Some n" "(n, i) \<in> set (mHotLru s)"
      "m_ctx m = Some c" "erase (m_lruIt m) (mHotLru s) = Inr (filter (\<lambda>p. fst p \<noteq> n) (mHotLru s))"
      by blast
    note eq = inv_hot_filter [OF inv n(2)]
    show thesis
      using that(2) [OF i HOT n(3)] i HOT n link_none [OF unlink_hot [OF inv i HOT n(1)]]
      by (simp add: killSession_def eq)
  next
    case COLD
    show thesis
    proof (cases "m_swapFilePath m = []")
      case True
      have "inv_on {i} s" by (rule unlink_unlisted [OF inv]) (use i COLD True in auto)
      then show thesis
        using that(4) [OF i COLD True] i COLD True link_none inv_meta [OF inv i]
        by (simp add: killSession_def meta_ok_def)
    next
      case False
      then have sw: "swapped m" using COLD by (simp add: swapped_def)
      from inv_coldE [OF inv i sw] obtain n where n: "m_lruIt m = Some n" "(n, i) \<in> set (mColdLru s)"
        "m_ctx m = None" "m_swapFilePath m = swapPathFor s i"
        "erase (m_lruIt m) (mColdLru s) = Inr (filter (\<lambda>p. fst p \<noteq> n) (mColdLru s))"
        by blast
      note eq = inv_cold_filter [OF inv n(2)]
      show thesis
        using that(3) [OF i sw n(3,4)] i COLD False n link_none [OF unlink_cold [OF inv i sw n(1)]]
        by (simp add: killSession_def eq)
    qed
  qed
qed

lemma kill_total:
  assumes "sm_inv s"
  shows "\<exists>ok s' w'. killSession i s w = Inr (ok, s', w') \<and> sm_inv s'"
  using assms by (cases rule: kill_cases [where i = i and w = w]) (use assms in auto)

lemma kill_swapped:
  assumes "sm_inv s" "mSessions s i = Some m" "swapped m"
  defines "s1 \<equiv> drop_session i (s\<lparr>mColdLru := without i (mColdLru s),
               mColdUsedBytes := mColdUsedBytes s - m_swapFileBytes m\<rparr>)"
  shows "killSession i s w = Inr (True, s1, RemoveFile (swapPathFor s i) # w)" and "sm_inv s1"
proof -
  have "killSession i s w = Inr (True, s1, RemoveFile (swapPathFor s i) # w) \<and> sm_inv s1"
    using assms(1) unfolding s1_def
    by (cases rule: kill_cases [where i = i and w = w]) (use assms(2,3) in \<open>simp_all add: swapped_def\<close>)
  then show "killSession i s w = Inr (True, s1, RemoveFile (swapPathFor s i) # w)" and "sm_inv s1"
    by simp_all
qed

subsection \<open>Evicting swapped sessions\<close>

lemma evictCold_loop_rule:
  \<comment> \<open>what killing keeps, eviction keeps\<close>
  assumes "evictCold_loop fuel x s w = Inr (s', w')" and "P s w"
    and "\<And>v s w ok s' w'. P s w \<Longrightarrow> killSession v s w = Inr (ok, s', w') \<Longrightarrow> P s' w'"
  shows "P s' w'"
  using assms(1,2)
proof (induction fuel arbitrary: s w)
  case (Suc fuel)
  then show ?case
    by (auto simp: Let_def bindR_Inr_iff split: if_splits dest: assms(3))
qed simp

definition cold_victims :: "int \<Rightarrow> session_manager \<Rightarrow> int list" where
  \<comment> \<open>the candidates of \<open>evictColdIfNeeded\<close>, in the order in which it takes them\<close>
  "cold_victims x s = filter (\<lambda>j. j \<noteq> x) (ids (mColdLru s))"

definition evicted :: "int set \<Rightarrow> session_manager \<Rightarrow> session_manager \<Rightarrow> bool" where
  \<comment> \<open>the swapped sessions \<open>K\<close> are gone and nothing else has changed\<close>
  "evicted K s s' \<longleftrightarrow>
     s' = s\<lparr>mSessions := mSessions s |` (- K), mColdLru := filter (\<lambda>p. snd p \<notin> K) (mColdLru s),
            mColdUsedBytes := mColdUsedBytes s'\<rparr>"

lemma evicted_empty: "evicted {} s s"
proof -
  have "mSessions s |` UNIV = mSessions s" by (simp add: restrict_map_def fun_eq_iff)
  then show ?thesis by (simp add: evicted_def)
qed

lemma evicted_insert:
  assumes "evicted K (drop_session v (s\<lparr>mColdLru := without v (mColdLru s), mColdUsedBytes := b\<rparr>)) s'"
  shows "evicted (insert v K) s s'"
proof -
  have "((mSessions s)(v := None)) |` (- K) = mSessions s |` (- insert v K)"
    by (auto simp: restrict_map_def)
  moreover have "filter (\<lambda>p. snd p \<notin> K) (without v (mColdLru s))
      = filter (\<lambda>p. snd p \<notin> insert v K) (mColdLru s)"
    by (auto intro: filter_cong)
  ultimately show ?thesis using assms unfolding evicted_def by (simp del: insert_iff)
qed

definition cold_settled :: "int \<Rightarrow> session_manager \<Rightarrow> bool" where
  \<comment> \<open>the three ways in which the loop ends\<close>
  "cold_settled x s \<longleftrightarrow>
     mColdUsedBytes s \<le> mColdLimitBytes s \<or> mColdLru s = [] \<or> ids (mColdLru s) = [x]"

lemma cold_victims_without:
  "mColdLru s1 = without v (mColdLru s) \<Longrightarrow>
    cold_victims x s1 = filter (\<lambda>j. j \<noteq> v) (cold_victims x s)"
  by (simp only: cold_victims_def ids_without filter_filter) (rule filter_cong, auto)

lemma cold_victim_hd:
  assumes inv: "sm_inv s" and ne: "mColdLru s \<noteq> []"
    and more: "\<not> (snd (hd (mColdLru s)) = x \<and> length (mColdLru s) = 1)"
    and v: "v = (if snd (hd (mColdLru s)) = x then snd (mColdLru s ! 1) else snd (hd (mColdLru s)))"
  shows "\<exists>vs. cold_victims x s = v # vs \<and> filter (\<lambda>j. j \<noteq> v) (cold_victims x s) = vs"
proof -
  have d: "distinct (ids (mColdLru s))" using inv by (rule inv_cold_distinct)
  obtain p l where l: "mColdLru s = p # l" using ne by (meson neq_Nil_conv)
  have "\<exists>vs. cold_victims x s = v # vs"
  proof (cases "snd p = x")
    case True
    then obtain q l' where "l = q # l'" using more l by (cases l) auto
    then show ?thesis using True v l d by (auto simp: cold_victims_def)
  qed (use v l in \<open>auto simp: cold_victims_def\<close>)
  then obtain vs where vs: "cold_victims x s = v # vs" by blast
  have "distinct (cold_victims x s)" using d by (simp add: cold_victims_def)
  with vs show ?thesis by (auto intro!: filter_True)
qed

definition cold_left :: "int \<Rightarrow> session_manager \<Rightarrow> nat \<Rightarrow> size_t" where
  \<comment> \<open>the accounted bytes once the first \<open>k\<close> candidates are gone\<close>
  "cold_left x s k = mColdUsedBytes s - sum_list (map (bytes_of s) (take k (cold_victims x s)))"

definition first_fit :: "int \<Rightarrow> session_manager \<Rightarrow> nat \<Rightarrow> session_manager \<Rightarrow> bool" where
  \<comment> \<open>the state after \<open>k\<close> candidates are gone, and none of them was killed without need\<close>
  "first_fit x s k s' \<longleftrightarrow> k \<le> length (cold_victims x s) \<and> mColdUsedBytes s' = cold_left x s k \<and>
     (\<forall>j<k. mColdLimitBytes s < cold_left x s j)"

lemma first_fit_Suc:
  assumes vs: "cold_victims x s = v # vs" "filter (\<lambda>j. j \<noteq> v) (cold_victims x s) = vs" "cold_victims x s1 = vs"
    and s1: "mColdUsedBytes s1 = mColdUsedBytes s - bytes_of s v" "mColdLimitBytes s1 = mColdLimitBytes s"
      "\<And>j. j \<noteq> v \<Longrightarrow> bytes_of s1 j = bytes_of s j"
    and over: "mColdLimitBytes s < mColdUsedBytes s" and fit: "first_fit x s1 k s'"
  shows "first_fit x s (Suc k) s'"
proof -
  have "v \<notin> set vs" using vs(2) by auto
  then have "bytes_of s1 x = bytes_of s x" if "x \<in> set (take j vs)" for x j
    using that in_set_takeD [of x j vs] by (intro s1(3)) auto
  then have "map (bytes_of s1) (take j vs) = map (bytes_of s) (take j vs)" for j
    by (intro map_cong refl)
  then have left: "cold_left x s1 j = cold_left x s (Suc j)" for j
    by (simp add: cold_left_def vs(1,3) s1(1) diff_diff_eq del: map_eq_conv)
  have "mColdLimitBytes s < cold_left x s j" if "j < Suc k" for j
    using that fit over s1(2) left by (cases j) (auto simp: first_fit_def cold_left_def)
  then show ?thesis using fit left by (simp add: first_fit_def vs(1,3))
qed

lemma evictCold_loop_spec:
  assumes "sm_inv s" and "length (mColdLru s) < fuel"
  shows "\<exists>k s' w'. evictCold_loop fuel x s w = Inr (s', w') \<and> sm_inv s' \<and> cold_settled x s' \<and>
    evicted (set (take k (cold_victims x s))) s s' \<and> first_fit x s k s'"
  using assms
proof (induction fuel arbitrary: s w)
  case (Suc fuel)
  note inv = Suc.prems(1)
  let ?front = "snd (hd (mColdLru s))"
  show ?case
  proof (cases "mColdLimitBytes s < mColdUsedBytes s \<and> mColdLru s \<noteq> [] \<and>
      \<not> (?front = x \<and> length (mColdLru s) = 1)")
    case False
    then have "evictCold_loop (Suc fuel) x s w = Inr (s, w)" and "cold_settled x s"
      by (auto simp: Let_def cold_settled_def length_Suc_conv hd_conv_nth split: if_splits)
    then show ?thesis
      using inv evicted_empty by (intro exI [of _ 0] exI [of _ s] exI [of _ w]) (simp add: first_fit_def cold_left_def)
  next
    case True
    define v where "v = (if ?front = x then snd (mColdLru s ! 1) else ?front)"
    obtain vs where vs: "cold_victims x s = v # vs" "filter (\<lambda>j. j \<noteq> v) (cold_victims x s) = vs"
      using cold_victim_hd [OF inv _ _ v_def] True by blast
    then have "v \<in> set (ids (mColdLru s))"
      by (metis cold_victims_def filter_is_subset list.set_intros(1) subsetD)
    then obtain m where m: "mSessions s v = Some m" "swapped m"
      using inv_cold_ids [OF inv] by blast
    define s1 where "s1 = drop_session v (s\<lparr>mColdLru := without v (mColdLru s),
               mColdUsedBytes := mColdUsedBytes s - m_swapFileBytes m\<rparr>)"
    note kill = kill_swapped [OF inv m, folded s1_def]
    have "length (mColdLru s1) < length (mColdLru s)"
      using \<open>v \<in> set (ids (mColdLru s))\<close> by (auto simp: s1_def intro: length_filter_less)
    then have "length (mColdLru s1) < fuel" using Suc.prems(2) by simp
    from Suc.IH [OF kill(2) this, of "RemoveFile (swapPathFor s v) # w"] obtain k s' w'
      where IH: "evictCold_loop fuel x s1 (RemoveFile (swapPathFor s v) # w) = Inr (s', w')" "sm_inv s'"
        "cold_settled x s'" "evicted (set (take k (cold_victims x s1))) s1 s'" "first_fit x s1 k s'" by blast
    have v1: "cold_victims x s1 = vs"
      using cold_victims_without [of s1 v s x] vs(2) by (simp add: s1_def)
    have "first_fit x s (Suc k) s'"
      using IH(5) True m vs v1 by (intro first_fit_Suc [of x s v vs s1]) (auto simp: s1_def bytes_of_def)
    moreover have "evicted (set (take (Suc k) (cold_victims x s))) s s'"
      using v1 IH(4) vs(1) evicted_insert s1_def by (metis list.simps(15) take_Suc_Cons)
    moreover have "evictCold_loop (Suc fuel) x s w = Inr (s', w')"
      using True kill(1) IH(1) by (auto simp: Let_def v_def)
    ultimately show ?thesis using IH by blast
  qed
qed simp

lemma evictCold_spec:
  assumes "sm_inv s"
  obtains k s' w' where "evictColdIfNeeded x s w = Inr (s', w')" "sm_inv s'" "cold_settled x s'"
    "evicted (set (take k (cold_victims x s))) s s'" "first_fit x s k s'"
  using evictCold_loop_spec [OF assms, of "Suc (length (mColdLru s))" x w]
  by (auto simp: evictColdIfNeeded_def)

subsection \<open>Swapping out\<close>

lemma prune_spec:
  assumes "m_ctx m = Some c" and "kMinKeepTokens < length (m_tokens m)"
  defines "k \<equiv> prune_amount (length (m_tokens m))"
  shows "pruneOldestTokens m k w = Inr (m\<lparr>m_tokens := drop k (m_tokens m)\<rparr>,
     SeqAdd c (to_int32 (int k)) (- 1) (- to_int32 (int k)) # SeqRm c 0 (to_int32 (int k)) # w)"
    and "0 < k" and "kMinKeepTokens \<le> length (m_tokens m) - k"
proof -
  have "k \<le> length (m_tokens m) - kMinKeepTokens" by (simp add: k_def prune_amount_def)
  then show "kMinKeepTokens \<le> length (m_tokens m) - k" using assms(2) by linarith
qed (use assms(1) prune_amount_bounds [OF assms(2)] in \<open>auto simp: pruneOldestTokens_def k_def\<close>)

lemma swapOut_loop_spec:
  assumes "m_ctx m = Some c"
  shows "\<exists>res k w'. swapOut_loop e path u l m w = Inr (res, m\<lparr>m_tokens := drop k (m_tokens m)\<rparr>, w') \<and>
     (k = 0 \<or> kMinKeepTokens \<le> length (m_tokens m) - k) \<and>
     (\<forall>b. res = Some b \<longrightarrow> b + u \<le> l \<or> length (m_tokens m) - k \<le> kMinKeepTokens) \<and>
     (res = None \<longrightarrow> \<not> saves_succeed e)"
  using assms
proof (induction "length (m_tokens m)" arbitrary: m w rule: less_induct)
  case less
  define written where "written = env_save e w c path (m_tokens m)"
  define w1 where "w1 = SeqSave c path (m_tokens m) written # w"
  define b where "b = env_size e w1 c"
  define w2 where "w2 = SeqGetSize c b # w1"
  note defs = written_def w1_def b_def w2_def
  have stop: "m = m\<lparr>m_tokens := drop 0 (m_tokens m)\<rparr>" by simp
  consider (fail) "written = 0" | (fits) "written \<noteq> 0" "b + u \<le> l \<or> length (m_tokens m) \<le> kMinKeepTokens"
    | (prune) "written \<noteq> 0" "\<not> b + u \<le> l" "kMinKeepTokens < length (m_tokens m)"
    by linarith
  then show ?case
  proof cases
    case fail
    then have "swapOut_loop e path u l m w = Inr (None, m, w1)"
      using less.prems by (simp add: swapOut_loop.simps [of e path u l m w] defs)
    moreover have "\<not> saves_succeed e" using fail by (auto simp: saves_succeed_def written_def)
    ultimately show ?thesis using stop by (intro exI [of _ None] exI [of _ 0]) auto
  next
    case fits
    then have "swapOut_loop e path u l m w = Inr (Some b, m, w2)"
      using less.prems by (auto simp: swapOut_loop.simps [of e path u l m w] Let_def defs [symmetric])
    with stop fits show ?thesis by (intro exI [of _ "Some b"] exI [of _ 0]) auto
  next
    case prune
    define k where "k = prune_amount (length (m_tokens m))"
    define m' where "m' = m\<lparr>m_tokens := drop k (m_tokens m)\<rparr>"
    obtain w3 where p: "pruneOldestTokens m k w2 = Inr (m', w3)"
      and k: "0 < k" "kMinKeepTokens \<le> length (m_tokens m) - k"
      using prune_spec [OF less.prems prune(3)] by (metis k_def m'_def)
    have "length (m_tokens m') < length (m_tokens m)" "m_ctx m' = Some c"
      using k prune(3) less.prems by (auto simp: m'_def)
    from less.hyps [OF this, of w3] obtain res j w'
      where IH: "swapOut_loop e path u l m' w3 = Inr (res, m'\<lparr>m_tokens := drop j (m_tokens m')\<rparr>, w')"
        "j = 0 \<or> kMinKeepTokens \<le> length (m_tokens m') - j"
        "\<forall>b. res = Some b \<longrightarrow> b + u \<le> l \<or> length (m_tokens m') - j \<le> kMinKeepTokens"
        "res = None \<longrightarrow> \<not> saves_succeed e" by blast
    have "swapOut_loop e path u l m w = swapOut_loop e path u l m' w3"
      using prune p less.prems
      by (simp add: swapOut_loop.simps [of e path u l m w] Let_def defs [symmetric] k_def [symmetric])
    moreover have "m'\<lparr>m_tokens := drop j (m_tokens m')\<rparr> = m\<lparr>m_tokens := drop (j + k) (m_tokens m)\<rparr>"
      by (simp add: m'_def)
    ultimately show ?thesis
      using IH k by (intro exI [of _ res] exI [of _ "j + k"] exI [of _ w']) (auto simp: m'_def)
  qed
qed

definition same_config :: "session_manager \<Rightarrow> session_manager \<Rightarrow> bool" where
  "same_config s s' \<longleftrightarrow>
     mModel s' = mModel s \<and> mCtxParams s' = mCtxParams s \<and> mSwapDir s' = mSwapDir s \<and>
     mHotLimit s' = mHotLimit s \<and> mColdLimitBytes s' = mColdLimitBytes s"

lemma same_config_refl [simp]: "same_config s s"
  by (simp add: same_config_def)

lemma same_config_trans: "same_config s t \<Longrightarrow> same_config t u \<Longrightarrow> same_config s u"
  by (simp add: same_config_def)

lemma evictedD:
  assumes "evicted K s s'"
  shows "mSessions s' = mSessions s |` (- K)" "mColdLru s' = filter (\<lambda>p. snd p \<notin> K) (mColdLru s)"
    "mHotLru s' = mHotLru s" "nextNode s' = nextNode s" "same_config s s'"
proof -
  obtain b where s': "s' = s\<lparr>mSessions := mSessions s |` (- K), mColdLru := filter (\<lambda>p. snd p \<notin> K) (mColdLru s),
            mColdUsedBytes := b\<rparr>" using assms unfolding evicted_def by blast
  show "mSessions s' = mSessions s |` (- K)" "mColdLru s' = filter (\<lambda>p. snd p \<notin> K) (mColdLru s)"
    "mHotLru s' = mHotLru s" "nextNode s' = nextNode s" "same_config s s'"
    by (simp_all add: s' same_config_def)
qed

definition swapped_out ::
    "int \<Rightarrow> session_meta \<Rightarrow> nat \<Rightarrow> size_t \<Rightarrow> session_manager \<Rightarrow> session_manager" where
  \<comment> \<open>the state in which \<open>swapOut\<close> calls \<open>evictColdIfNeeded\<close>\<close>
  "swapped_out i m k bytes s =
     put_session i
       (m\<lparr>m_tokens := drop k (m_tokens m), m_ctx := None, m_state := COLD,
          m_swapFilePath := swapPathFor s i, m_swapFileBytes := bytes, m_lruIt := Some (nextNode s)\<rparr>)
       (s\<lparr>mHotLru := without i (mHotLru s), mColdLru := push_back (nextNode s) i (mColdLru s),
          nextNode := Suc (nextNode s), mColdUsedBytes := mColdUsedBytes s + bytes\<rparr>)"

lemma swapOut_mid [consumes 3, case_names mid]:
  assumes inv: "sm_inv s" and i: "mSessions s i = Some m" "m_state m = HOT"
  obtains c res k w1 where "m_ctx m = Some c"
    "swapOut_loop e (swapPathFor s i) (mColdUsedBytes s) (mColdLimitBytes s) m w
       = Inr (res, m\<lparr>m_tokens := drop k (m_tokens m)\<rparr>, w1)"
    "k = 0 \<or> kMinKeepTokens \<le> length (m_tokens m) - k"
    "\<And>b. res = Some b \<Longrightarrow> b + mColdUsedBytes s \<le> mColdLimitBytes s
                 \<or> length (m_tokens m) - k \<le> kMinKeepTokens"
    "res = None \<Longrightarrow> \<not> saves_succeed e"
    "res = None \<Longrightarrow>
       swapOut e i s w = Inr (False, put_session i (m\<lparr>m_tokens := drop k (m_tokens m)\<rparr>) s, w1)"
    "\<And>b. res = Some b \<Longrightarrow>
       swapOut e i s w = bindR (evictColdIfNeeded i (swapped_out i m k b s) (LlamaFree c # w1))
         (\<lambda>(s2, w2). Inr (True, s2, w2))"
    "\<And>b. sm_inv (swapped_out i m k b s)"
proof -
  from inv_hotE [OF inv i] obtain n c where n: "m_lruIt m = Some n" "(n, i) \<in> set (mHotLru s)"
    "m_ctx m = Some c" "m_id m = i"
    "erase (m_lruIt m) (mHotLru s) = Inr (filter (\<lambda>p. fst p \<noteq> n) (mHotLru s))" by blast
  from swapOut_loop_spec [OF n(3), of e "swapPathFor s i" "mColdUsedBytes s" "mColdLimitBytes s" w]
  obtain res k w1 where loop: "swapOut_loop e (swapPathFor s i) (mColdUsedBytes s) (mColdLimitBytes s) m w
      = Inr (res, m\<lparr>m_tokens := drop k (m_tokens m)\<rparr>, w1)"
    and k: "k = 0 \<or> kMinKeepTokens \<le> length (m_tokens m) - k"
    and b: "\<forall>b. res = Some b \<longrightarrow> b + mColdUsedBytes s \<le> mColdLimitBytes s
                 \<or> length (m_tokens m) - k \<le> kMinKeepTokens"
    and ns: "res = None \<longrightarrow> \<not> saves_succeed e" by blast
  show thesis
  proof (rule that [OF n(3) loop k])
    show "sm_inv (swapped_out i m k b s)" for b
      using link_cold [OF unlink_hot [OF inv i n(1)], of "m\<lparr>m_tokens := drop k (m_tokens m), m_ctx := None,
          m_state := COLD, m_swapFilePath := swapPathFor s i, m_swapFileBytes := b, m_lruIt := Some (nextNode s)\<rparr>"] n
      by (simp add: swapped_out_def swapPathFor_def inv_hot_filter [OF inv n(2)])
    show "swapOut e i s w = Inr (False, put_session i (m\<lparr>m_tokens := drop k (m_tokens m)\<rparr>) s, w1)"
      if "res = None" using i n loop that by (simp add: swapOut_def)
    show "swapOut e i s w = bindR (evictColdIfNeeded i (swapped_out i m k b s) (LlamaFree c # w1))
         (\<lambda>(s2, w2). Inr (True, s2, w2))" if "res = Some b" for b
      using i n loop that
      by (simp add: swapOut_def swapped_out_def inv_hot_filter [OF inv n(2)] del: fun_upd_apply)
  qed (use b ns in auto)
qed

text \<open>
  Swapping out a HOT session either fails and at most drops its oldest tokens, or moves the session
  to the back of the COLD list and then evicts the oldest other swapped sessions.
\<close>

lemma swapOut_cases [consumes 3, case_names failed swapped]:
  assumes inv: "sm_inv s" and i: "mSessions s i = Some m" "m_state m = HOT"
  obtains k w' where
      "swapOut e i s w = Inr (False, put_session i (m\<lparr>m_tokens := drop k (m_tokens m)\<rparr>) s, w')"
      "sm_inv (put_session i (m\<lparr>m_tokens := drop k (m_tokens m)\<rparr>) s)"
      "k = 0 \<or> kMinKeepTokens \<le> length (m_tokens m) - k" "\<not> saves_succeed e"
  | k m2 j s' w' where
      "swapOut e i s w = Inr (True, s', w')" "sm_inv s'" "same_config s s'"
      "swapped m2" "m_tokens m2 = drop k (m_tokens m)"
      "k = 0 \<or> kMinKeepTokens \<le> length (m_tokens m) - k"
      "m_swapFileBytes m2 + mColdUsedBytes s \<le> mColdLimitBytes s \<or> length (m_tokens m2) \<le> kMinKeepTokens"
      "mHotLru s' = without i (mHotLru s)"
      "mSessions s' = ((mSessions s)(i \<mapsto> m2)) |` (- set (take j (ids (mColdLru s))))"
      "ids (mColdLru s') = filter (\<lambda>v. v \<notin> set (take j (ids (mColdLru s)))) (ids (mColdLru s)) @ [i]"
      "cold_settled i s'"
  using inv i
proof (cases rule: swapOut_mid [where e = e and w = w])
  case (mid c res k w1)
  note k = mid(3) and b = mid(4) and fail = mid(5,6) and out = mid(7) and inv1 = mid(8)
  show thesis
  proof (cases res)
    case None
    show thesis
    proof (rule that(1) [OF fail(2) [OF None]])
      show "sm_inv (put_session i (m\<lparr>m_tokens := drop k (m_tokens m)\<rparr>) s)"
        by (rule inv_put_same [OF inv i(1)]) simp_all
    qed (use k fail(1) None in auto)
  next
    case (Some bytes)
    define s1 where "s1 = swapped_out i m k bytes s"
    obtain j s' w' where ev: "evictColdIfNeeded i s1 (LlamaFree c # w1) = Inr (s', w')"
      "sm_inv s'" "cold_settled i s'" "evicted (set (take j (cold_victims i s1))) s1 s'"
      using evictCold_spec [OF inv1] s1_def by metis
    have nc: "i \<notin> set (ids (mColdLru s))"
      using inv_cold_ids [OF inv, of i] i by (auto simp: swapped_def)
    then have cv: "cold_victims i s1 = ids (mColdLru s)"
      by (auto simp: cold_victims_def s1_def swapped_out_def intro!: filter_True)
    have jn: "i \<notin> set (take j (ids (mColdLru s)))" using nc by (meson in_set_takeD)
    have res: "swapOut e i s w = Inr (True, s', w')"
      using out [OF Some] ev(1) by (simp add: s1_def)
    note E = evictedD [OF ev(4) [unfolded cv]]
    define m2 where "m2 = m\<lparr>m_tokens := drop k (m_tokens m), m_ctx := None, m_state := COLD,
      m_swapFilePath := swapPathFor s i, m_swapFileBytes := bytes, m_lruIt := Some (nextNode s)\<rparr>"
    note s1 = s1_def swapped_out_def m2_def [symmetric]
    show thesis
    proof (rule that(2) [OF res ev(2)])
      show "same_config s s'" using E(5) by (simp add: same_config_def s1)
      show "swapped m2" by (simp add: swapped_def m2_def swapPathFor_def)
      show "m_tokens m2 = drop k (m_tokens m)" by (simp add: m2_def)
      show "mHotLru s' = without i (mHotLru s)" using E(3) by (simp add: s1)
      show "mSessions s' = ((mSessions s)(i \<mapsto> m2)) |` (- set (take j (ids (mColdLru s))))"
        using E(1) by (simp add: s1)
      show "ids (mColdLru s') = filter (\<lambda>v. v \<notin> set (take j (ids (mColdLru s)))) (ids (mColdLru s)) @ [i]"
        using E(2) jn by (simp add: s1 push_back_def filter_map o_def)
      show "m_swapFileBytes m2 + mColdUsedBytes s \<le> mColdLimitBytes s \<or> length (m_tokens m2) \<le> kMinKeepTokens"
        using b [OF Some] by (simp add: m2_def)
    qed (rule k, rule ev(3))
  qed
qed

lemma swapOut_kills_front:
  \<comment> \<open>a state that does not fit the COLD limit pushes the oldest swapped session out\<close>
  assumes inv: "sm_inv s" and v: "mSessions s v = Some m" "m_state m = HOT"
    and loop: "swapOut_loop e (swapPathFor s v) (mColdUsedBytes s) (mColdLimitBytes s) m w = Inr (Some b, m', w1)"
    and over: "mColdLimitBytes s < b + mColdUsedBytes s"
    and front: "mColdLru s \<noteq> []" "snd (hd (mColdLru s)) = i"
  shows "\<exists>s' w'. swapOut e v s w = Inr (True, s', w') \<and> sm_inv s' \<and> mSessions s' i = None"
  using inv v
proof (cases rule: swapOut_mid [where e = e and w = w])
  case (mid c res k w2)
  define s1 where "s1 = swapped_out v m k b s"
  have res: "res = Some b" using mid(2) loop by simp
  have inv1: "sm_inv s1" unfolding s1_def by (rule mid(8))
  obtain j s' w' where ev: "evictColdIfNeeded v s1 (LlamaFree c # w2) = Inr (s', w')" "sm_inv s'" "cold_settled v s'"
    "evicted (set (take j (cold_victims v s1))) s1 s'" "first_fit v s1 j s'"
    by (rule evictCold_spec [OF inv1])
  have nv: "v \<notin> set (ids (mColdLru s))" using inv_cold_ids [OF inv, of v] v by (auto simp: swapped_def)
  then have cv: "cold_victims v s1 = ids (mColdLru s)"
    by (auto simp: cold_victims_def s1_def swapped_out_def intro!: filter_True)
  note E = evictedD [OF ev(4)]
  obtain p l where pl: "mColdLru s = p # l" "snd p = i" using front by (cases "mColdLru s") auto
  have "j \<noteq> 0"
  proof
    assume "j = 0"
    then have "mColdUsedBytes s' = mColdUsedBytes s1" "mColdLru s' = mColdLru s1"
      using ev(5) E(2) by (simp_all add: first_fit_def cold_left_def)
    then have "\<not> mColdUsedBytes s' \<le> mColdLimitBytes s'" "ids (mColdLru s') = i # ids l @ [v]"
      using over E(5) pl by (simp_all add: s1_def swapped_out_def same_config_def not_le add.commute)
    then show False using ev(3) by (auto simp: cold_settled_def)
  qed
  then have "i \<in> set (take j (cold_victims v s1))" using pl by (cases j) (simp_all add: cv)
  then have "mSessions s' i = None" using E(1) by (simp add: restrict_map_def)
  moreover have "swapOut e v s w = Inr (True, s', w')" using mid(7) [OF res] ev(1) by (simp add: s1_def)
  ultimately show ?thesis using ev(2) by blast
qed

subsection \<open>Evicting HOT sessions\<close>

definition hot_victims :: "int \<Rightarrow> session_manager \<Rightarrow> int list" where
  \<comment> \<open>the candidates of \<open>evictHotIfNeeded\<close>, least recently used first\<close>
  "hot_victims x s = filter (\<lambda>j. j \<noteq> x) (ids (mHotLru s))"

definition hot_settled :: "int \<Rightarrow> session_manager \<Rightarrow> bool" where
  "hot_settled x s \<longleftrightarrow> length (mHotLru s) < unat (mHotLimit s) \<or> set (ids (mHotLru s)) \<subseteq> {x}"

lemma pick_victim_hd: "pick_victim x (mHotLru s) = (case hot_victims x s of [] \<Rightarrow> - 1 | v # vs \<Rightarrow> v)"
proof -
  have "find (\<lambda>p. snd p \<noteq> x) l = None \<and> filter (\<lambda>j. j \<noteq> x) (ids l) = [] \<or>
      (\<exists>p vs. find (\<lambda>p. snd p \<noteq> x) l = Some p \<and> filter (\<lambda>j. j \<noteq> x) (ids l) = snd p # vs)" for l :: id_list
    by (induction l) auto
  from this [of "mHotLru s"] show ?thesis by (auto simp: pick_victim_def hot_victims_def)
qed

lemma hot_victims_set: "set (hot_victims x s) = set (ids (mHotLru s)) - {x}"
  by (auto simp: hot_victims_def)

lemma evictHot_rule:
  \<comment> \<open>what swapping out the first candidate keeps, eviction keeps\<close>
  assumes "evictHotIfNeeded e x s w = Inr (s', w')" and "P s w"
    and "\<And>v vs s w ok s' w'. P s w \<Longrightarrow> hot_victims x s = v # vs \<Longrightarrow>
          swapOut e v s w = Inr (ok, s', w') \<Longrightarrow> P s' w'"
  shows "P s' w'"
  using assms(1,2)
proof (induction "length (mHotLru s)" arbitrary: s w rule: less_induct)
  case less
  have pick: "pick_victim x (mHotLru s) \<noteq> - 1 \<Longrightarrow>
      \<exists>vs. hot_victims x s = pick_victim x (mHotLru s) # vs"
    by (auto simp: pick_victim_hd split: list.splits)
  show ?case
    using less.prems unfolding evictHotIfNeeded.simps [of e x s w] Let_def
    by (auto simp: bindR_Inr_iff split: if_splits
        intro: less.hyps [OF swapOut_hot_shrinks] assms(3) [OF less.prems(2)] dest: pick)
qed

lemma hot_victims_hd: "hot_victims x s = v # vs \<Longrightarrow> v \<in> set (ids (mHotLru s)) \<and> v \<noteq> x"
  using hot_victims_set [of x s] by (auto simp del: set_map)

text \<open>
  Eviction terminates without a fault; it swaps out a prefix of the LRU order, leaves the other HOT
  sessions where they are, and either keeps the excluded session or, when that one is in a swap file,
  may have killed it while it made room in the COLD store.
\<close>

lemma evictHot_spec:
  assumes "sm_inv s"
  shows "\<exists>k s' w'. evictHotIfNeeded e x s w = Inr (s', w') \<and> sm_inv s' \<and> same_config s s' \<and>
     mHotLru s' = filter (\<lambda>p. snd p \<notin> set (take k (hot_victims x s))) (mHotLru s) \<and>
     (mSessions s' x = mSessions s x \<or>
        mSessions s' x = None \<and> (\<exists>m. mSessions s x = Some m \<and> swapped m)) \<and>
     (saves_succeed e \<longrightarrow> - 1 \<notin> set (ids (mHotLru s)) \<longrightarrow> hot_settled x s')"
  using assms
proof (induction "length (mHotLru s)" arbitrary: s w rule: less_induct)
  case less
  note inv = less.prems
  have stop: ?case if "evictHotIfNeeded e x s w = Inr (s, w)"
      "- 1 \<notin> set (ids (mHotLru s)) \<Longrightarrow> hot_settled x s"
    using that inv by (intro exI [of _ 0] exI [of _ s] exI [of _ w]) simp
  show ?case
  proof (cases "unat (mHotLimit s) \<le> length (mHotLru s) \<and> mHotLru s \<noteq> []")
    case False
    then show ?thesis
      by (intro stop) (auto simp: evictHotIfNeeded.simps [of e x s w] hot_settled_def)
  next
    case True
    show ?thesis
    proof (cases "hot_victims x s = [] \<or> pick_victim x (mHotLru s) = - 1")
      case stuck: True
      show ?thesis
      proof (rule stop)
        have "pick_victim x (mHotLru s) = - 1" using stuck by (auto simp: pick_victim_hd)
        then show "evictHotIfNeeded e x s w = Inr (s, w)"
          by (simp add: evictHotIfNeeded.simps [of e x s w])
        assume no: "- 1 \<notin> set (ids (mHotLru s))"
        have "hot_victims x s = []"
        proof (cases "hot_victims x s")
          case (Cons v vs)
          then have "v \<in> set (ids (mHotLru s))" using hot_victims_set [of x s] by auto
          then show ?thesis using no stuck Cons by (auto simp: pick_victim_hd simp del: set_map)
        qed
        then show "hot_settled x s" using hot_victims_set [of x s] by (auto simp: hot_settled_def)
      qed
    next
      case False
      then obtain v vs where vs: "hot_victims x s = v # vs" "v \<noteq> - 1"
        by (auto simp: pick_victim_hd split: list.splits)
      then have v: "pick_victim x (mHotLru s) = v" by (simp add: pick_victim_hd)
      have vx: "v \<noteq> x" and vhot: "v \<in> set (ids (mHotLru s))"
        using vs hot_victims_set [of x s] by (auto simp del: set_map)
      then obtain m where m: "mSessions s v = Some m" "m_state m = HOT"
        using inv_hot_ids [OF inv] by blast
      have step: "evictHotIfNeeded e x s w = bindR (swapOut e v s w)
          (\<lambda>(ok, s1, w1). if ok then evictHotIfNeeded e x s1 w1 else Inr (s1, w1))"
        using True vs(2) v by (simp add: evictHotIfNeeded.simps [of e x s w])
      show ?thesis
        using inv m
      proof (cases rule: swapOut_cases [where e = e and w = w])
        case (failed k w')
        then have "evictHotIfNeeded e x s w = Inr (put_session v (m\<lparr>m_tokens := drop k (m_tokens m)\<rparr>) s, w')"
          using step by simp
        with failed vx show ?thesis
          by (intro exI [of _ 0] exI [of _ "put_session v (m\<lparr>m_tokens := drop k (m_tokens m)\<rparr>) s"]
              exI [of _ w']) (simp add: same_config_def)
      next
        case (swapped k m2 j s1 w1)
        have "length (mHotLru s1) < length (mHotLru s)"
          using swapped(1) by (rule swapOut_hot_shrinks)
        from less.hyps [OF this swapped(2), of w1] obtain l s' w'
          where IH: "evictHotIfNeeded e x s1 w1 = Inr (s', w')" "sm_inv s'" "same_config s1 s'"
            "mHotLru s' = filter (\<lambda>p. snd p \<notin> set (take l (hot_victims x s1))) (mHotLru s1)"
            "mSessions s' x = mSessions s1 x \<or>
               mSessions s' x = None \<and> (\<exists>m. mSessions s1 x = Some m \<and> swapped m)"
            "saves_succeed e \<longrightarrow> - 1 \<notin> set (ids (mHotLru s1)) \<longrightarrow> hot_settled x s'" by blast
        have "distinct (hot_victims x s)"
          using inv_hot_distinct [OF inv] by (simp add: hot_victims_def)
        then have "filter (\<lambda>j. j \<noteq> v) (hot_victims x s) = vs"
          using vs(1) by (auto intro!: filter_True)
        moreover have "hot_victims x s1 = filter (\<lambda>j. j \<noteq> v) (hot_victims x s)"
          unfolding hot_victims_def swapped(8) ids_without filter_filter by (rule filter_cong) auto
        ultimately have hv: "hot_victims x s1 = vs" by simp
        have lru: "mHotLru s' = filter (\<lambda>p. snd p \<notin> set (take (Suc l) (hot_victims x s))) (mHotLru s)"
          unfolding IH(4) swapped(8) hv vs(1) by (auto intro: filter_cong)
        have keep: "mSessions s1 x = mSessions s x \<or>
            mSessions s1 x = None \<and> (\<exists>m. mSessions s x = Some m \<and> Session_Invariant.swapped m)"
        proof (cases "x \<in> set (take j (ids (mColdLru s)))")
          case True
          then have "x \<in> set (ids (mColdLru s))" by (rule in_set_takeD)
          moreover have "mSessions s1 x = None"
            unfolding swapped(9) using True by (auto simp: restrict_map_def)
          ultimately show ?thesis using inv_cold_ids [OF inv, of x] by blast
        next
          case False
          then have "mSessions s1 x = mSessions s x"
            unfolding swapped(9) using vx by (auto simp: restrict_map_def)
          then show ?thesis ..
        qed
        have "- 1 \<notin> set (ids (mHotLru s)) \<longrightarrow> - 1 \<notin> set (ids (mHotLru s1))"
          by (auto simp: swapped(8))
        then show ?thesis
          using step swapped(1) IH lru keep same_config_trans [OF swapped(3) IH(3)]
          by (intro exI [of _ "Suc l"] exI [of _ s'] exI [of _ w']) (auto simp del: set_map)
      qed
    qed
  qed
qed

subsection \<open>Creation, recency and recording\<close>

lemma create_inv:
  assumes "sm_inv s" and "createSession e i s w = (ok, s', w')"
  shows "sm_inv s'"
proof (cases "mSessions s i")
  case None
  then have "inv_on {i} s" by (intro unlink_unlisted [OF assms(1)]) simp
  then show ?thesis
    using assms(2) None link_fresh
    by (auto simp: createSession_def now_ms_def Let_def new_meta_def)
qed (use assms in \<open>simp add: createSession_def\<close>)

definition touched :: "int \<Rightarrow> session_meta \<Rightarrow> int \<Rightarrow> session_manager \<Rightarrow> session_manager" where
  "touched i m t s =
     put_session i (m\<lparr>m_lruIt := Some (nextNode s), m_lastUsedMs := t\<rparr>)
       (s\<lparr>mHotLru := push_back (nextNode s) i (without i (mHotLru s)), nextNode := Suc (nextNode s)\<rparr>)"

lemma touch_spec:
  assumes inv: "sm_inv s" and i: "mSessions s i = Some m" "m_state m = HOT"
  shows "touchHot e i s w = Inr (touched i m (env_now e w) s, NowMs (env_now e w) # w)"
    and "sm_inv (touched i m t s)"
proof -
  from inv_hotE [OF inv i] obtain n c where n: "m_lruIt m = Some n" "(n, i) \<in> set (mHotLru s)"
    "m_ctx m = Some c" "m_id m = i"
    "erase (m_lruIt m) (mHotLru s) = Inr (filter (\<lambda>p. fst p \<noteq> n) (mHotLru s))" by blast
  show "touchHot e i s w = Inr (touched i m (env_now e w) s, NowMs (env_now e w) # w)"
    using i n by (simp add: touchHot_def touched_def now_ms_def Let_def inv_hot_filter [OF inv n(2)])
  show "sm_inv (touched i m t s)"
    using link_hot [OF unlink_hot [OF inv i n(1)], of "m\<lparr>m_lruIt := Some (nextNode s), m_lastUsedMs := t\<rparr>"]
      i n by (simp add: touched_def inv_hot_filter [OF inv n(2)])
qed

lemma record_spec:
  assumes inv: "sm_inv s"
  shows "\<exists>s' w'. recordTokens e i ts s w = Inr (s', w') \<and> sm_inv s'"
proof (cases "mSessions s i")
  case None
  then show ?thesis using inv by (simp add: recordTokens_def)
next
  case (Some m)
  let ?m = "m\<lparr>m_tokens := m_tokens m @ ts\<rparr>"
  have inv1: "sm_inv (put_session i ?m s)" by (rule inv_put_same [OF inv Some]) simp_all
  show ?thesis
  proof (cases "m_state m")
    case HOT
    have "mSessions (put_session i ?m s) i = Some ?m" "m_state ?m = HOT" using HOT by simp_all
    from touch_spec [OF inv1 this] show ?thesis
      using Some HOT by (simp add: recordTokens_def)
  next
    case COLD
    then show ?thesis using Some inv1 by (simp add: recordTokens_def)
  qed
qed

subsection \<open>Changing the limits\<close>

lemma setColdLimit_spec:
  assumes "sm_inv s"
  obtains k s' w' where "setColdLimit b s w = Inr (s', w')" "sm_inv s'" "mColdLimitBytes s' = b"
    "cold_settled (- 1) s'" "evicted (set (take k (cold_victims (- 1) s))) (s\<lparr>mColdLimitBytes := b\<rparr>) s'"
    "first_fit (- 1) (s\<lparr>mColdLimitBytes := b\<rparr>) k s'"
proof -
  from evictCold_spec [OF inv_limits(1) [OF assms], where x = "- 1" and w = w]
  obtain k s' w' where e: "evictColdIfNeeded (- 1) (s\<lparr>mColdLimitBytes := b\<rparr>) w = Inr (s', w')"
    "sm_inv s'" "cold_settled (- 1) s'"
    "evicted (set (take k (cold_victims (- 1) (s\<lparr>mColdLimitBytes := b\<rparr>)))) (s\<lparr>mColdLimitBytes := b\<rparr>) s'"
    "first_fit (- 1) (s\<lparr>mColdLimitBytes := b\<rparr>) k s'" by blast
  have "mColdLimitBytes s' = b" using evictedD(5) [OF e(4)] by (simp add: same_config_def)
  then show thesis using that e by (simp add: setColdLimit_def cold_victims_def)
qed

lemma max_1_size_t: "1 \<le> max 1 (h :: size_t)"
  by simp

lemma setHotLimit_spec:
  assumes "sm_inv s"
  obtains k s' w' where "setHotLimit e h s w = Inr (s', w')" "sm_inv s'" "mHotLimit s' = max 1 h"
    "mHotLru s' = filter (\<lambda>p. snd p \<notin> set (take k (hot_victims (- 1) s))) (mHotLru s)"
    "saves_succeed e \<longrightarrow> - 1 \<notin> set (ids (mHotLru s)) \<longrightarrow> hot_settled (- 1) s'"
  using evictHot_spec [OF inv_limits(2) [OF assms max_1_size_t, of h], where e = e and x = "- 1" and w = w]
  by (auto simp: setHotLimit_def same_config_def hot_victims_def)

subsection \<open>Activation\<close>

lemma swapIn_spec:
  assumes inv: "sm_inv s" and i: "mSessions s i = Some m" "swapped m"
  shows "\<exists>ok s' w' m'. swapIn e i c s w = Inr (ok, s', w') \<and> mSessions s' i = Some m' \<and>
     mHotLru s' = mHotLru s \<and> same_config s s' \<and> m_id m' = i \<and>
     mColdLru s' = (if ok then without i (mColdLru s) else mColdLru s) \<and>
     dom (mSessions s') = dom (mSessions s) \<and>
     (ok \<longrightarrow> inv_on {i} s') \<and> (\<not> ok \<longrightarrow> sm_inv s' \<and> swapped m')"
proof -
  from inv_coldE [OF inv i] obtain n where n: "m_lruIt m = Some n" "(n, i) \<in> set (mColdLru s)"
    "m_ctx m = None" "m_id m = i" "m_swapFilePath m = swapPathFor s i"
    "erase (m_lruIt m) (mColdLru s) = Inr (filter (\<lambda>p. fst p \<noteq> n) (mColdLru s))" by blast
  define k where "k = unat (n_ctx (mCtxParams s))"
  obtain ld wr nOut where l: "env_load e w c (m_swapFilePath m) k = (ld, wr, nOut)"
    by (metis prod_cases3)
  define buf where "buf = load_buffer k (m_tokens m) wr"
  show ?thesis
  proof (cases "ld = 0")
    case True
    have "sm_inv (put_session i (m\<lparr>m_tokens := buf\<rparr>) s)"
      by (rule inv_put_same [OF inv i(1)]) simp_all
    then show ?thesis
      using i l True n(4) insert_absorb [OF domI [of "mSessions s", OF i(1)]]
      by (simp add: swapIn_def k_def [symmetric] buf_def [symmetric] swapped_def
          same_config_def) blast
  next
    case False
    have "inv_on {i} (put_session i (m\<lparr>m_tokens := resize nOut 0 buf, m_swapFileBytes := 0\<rparr>)
        (s\<lparr>mColdLru := filter (\<lambda>p. fst p \<noteq> n) (mColdLru s),
           mColdUsedBytes := mColdUsedBytes s - m_swapFileBytes m\<rparr>))"
      by (rule inv_on_upd) (rule unlink_cold [OF inv i n(1)])
    then show ?thesis
      using i l False n(4,6) inv_cold_filter [OF inv n(2)] insert_absorb [OF domI [of "mSessions s", OF i(1)]]
      by (simp add: swapIn_def k_def [symmetric] buf_def [symmetric] same_config_def) blast
  qed
qed

lemma make_hot_spec:
  assumes "inv_on {i} s" and "mSessions s i = Some m" "m_id m = i"
  shows "\<exists>s' w'. make_hot e i c s w = Inr (s', w') \<and> sm_inv s' \<and>
     mHotLru s' = push_back (nextNode s) i (mHotLru s) \<and> same_config s s' \<and>
     mColdLru s' = mColdLru s \<and> dom (mSessions s') = dom (mSessions s) \<and>
     (\<exists>m'. mSessions s' i = Some m' \<and> m_state m' = HOT \<and> m_ctx m' = Some c \<and> m_tokens m' = m_tokens m)"
  using assms link_hot [OF assms(1), of "m\<lparr>m_ctx := Some c, m_state := HOT,
      m_lruIt := Some (nextNode s), m_lastUsedMs := env_now e w\<rparr>"]
  by (auto simp: make_hot_def now_ms_def Let_def same_config_def)

text \<open>
  The part of \<open>activateForInfer\<close> after eviction, for a session that eviction has left in the map.
\<close>

lemma activate_cold_spec:
  assumes inv: "sm_inv s1" and i: "mSessions s1 i = Some m" "m_state m = COLD"
  shows "\<exists>ok s3 w4. bindR (if m_swapFilePath m \<noteq> [] then swapIn e i c s1 w2 else Inr (True, s1, w2))
      (\<lambda>(ok, s2, w3). if ok then bindR (make_hot e i c s2 w3) (\<lambda>(s3, w4). Inr (Some c, s3, w4))
                       else Inr (None, s2, w3)) = Inr ((if ok then Some c else None), s3, w4) \<and>
      sm_inv s3 \<and> same_config s1 s3 \<and> dom (mSessions s3) = dom (mSessions s1) \<and>
      (if ok then ids (mHotLru s3) = ids (mHotLru s1) @ [i] \<and> mColdLru s3 = without i (mColdLru s1)
       else mHotLru s3 = mHotLru s1 \<and> mColdLru s3 = mColdLru s1)"
proof (cases "m_swapFilePath m = []")
  case True
  have "inv_on {i} s1" by (rule unlink_unlisted [OF inv]) (use i True in auto)
  moreover have "m_id m = i" using inv_meta [OF inv i(1)] by (simp add: meta_ok_def)
  ultimately obtain s3 w4 where h: "make_hot e i c s1 w2 = Inr (s3, w4)" "sm_inv s3"
    "mHotLru s3 = push_back (nextNode s1) i (mHotLru s1)" "same_config s1 s3"
    "mColdLru s3 = mColdLru s1" "dom (mSessions s3) = dom (mSessions s1)"
    using make_hot_spec i(1) by blast
  moreover have "i \<notin> set (ids (mColdLru s1))"
    using inv_cold_ids [OF inv, of i] i(1) True by (auto simp: swapped_def)
  then have "without i (mColdLru s1) = mColdLru s1" by (auto intro!: filter_True)
  ultimately show ?thesis using True by (intro exI [of _ True] exI [of _ s3] exI [of _ w4]) simp
next
  case False
  then have "swapped m" using i by (simp add: swapped_def)
  from swapIn_spec [OF inv i(1) this, of e c w2] obtain ok s2 w3 m2
    where sw: "swapIn e i c s1 w2 = Inr (ok, s2, w3)" "mSessions s2 i = Some m2" "m_id m2 = i"
      "mHotLru s2 = mHotLru s1" "same_config s1 s2"
      "mColdLru s2 = (if ok then without i (mColdLru s1) else mColdLru s1)"
      "dom (mSessions s2) = dom (mSessions s1)" "ok \<longrightarrow> inv_on {i} s2" "\<not> ok \<longrightarrow> sm_inv s2"
    by blast
  show ?thesis
  proof (cases ok)
    case True
    then obtain s3 w4 where h: "make_hot e i c s2 w3 = Inr (s3, w4)" "sm_inv s3"
      "mHotLru s3 = push_back (nextNode s2) i (mHotLru s2)" "same_config s2 s3"
      "mColdLru s3 = mColdLru s2" "dom (mSessions s3) = dom (mSessions s2)"
      using make_hot_spec sw by blast
    then show ?thesis
      using False True sw same_config_trans [OF sw(5) h(4)]
      by (intro exI [of _ True] exI [of _ s3] exI [of _ w4]) simp
  next
    case notok: False
    then show ?thesis using False sw by (intro exI [of _ False] exI [of _ s2] exI [of _ w3]) simp
  qed
qed

lemma activate_spec:
  assumes inv: "sm_inv s"
  obtains (absent) "mSessions s i = None" "activateForInfer e i s w = Inr (None, s, w)"
  | (hot) m c where "mSessions s i = Some m" "m_state m = HOT" "m_ctx m = Some c"
      "activateForInfer e i s w = Inr (Some c, touched i m (env_now e w) s, NowMs (env_now e w) # w)"
      "sm_inv (touched i m (env_now e w) s)"
  | (dangling) m where "mSessions s i = Some m" "swapped m"
      "unat (mHotLimit s) \<le> length (mHotLru s)"
      "activateForInfer e i s w = Inl DanglingReference"
  | (cold) m k s1 w1 r s' w' where "mSessions s i = Some m" "m_state m = COLD"
      "evictHotIfNeeded e i s w = Inr (s1, w1)"
      "mHotLru s1 = filter (\<lambda>p. snd p \<notin> set (take k (hot_victims i s))) (mHotLru s)"
      "saves_succeed e \<longrightarrow> - 1 \<notin> set (ids (mHotLru s)) \<longrightarrow> length (mHotLru s1) < unat (mHotLimit s)"
      "activateForInfer e i s w = Inr (r, s', w')" "sm_inv s'" "same_config s s'"
      "ids (mHotLru s') = ids (mHotLru s1) @ (if r = None then [] else [i])"
      "mColdLru s' = (if r = None then mColdLru s1 else without i (mColdLru s1))"
      "dom (mSessions s') = dom (mSessions s1)" "r \<noteq> None \<longrightarrow> i \<in> dom (mSessions s1)"
proof (cases "mSessions s i")
  case None
  then show thesis using that(1) by (simp add: activateForInfer_def)
next
  case i: (Some m)
  show thesis
  proof (cases "m_state m")
    case HOT
    from inv_hotE [OF inv i HOT] obtain c where "m_ctx m = Some c" by blast
    then show thesis
      using that(2) i HOT touch_spec [OF inv i HOT] by (simp add: activateForInfer_def)
  next
    case COLD
    from evictHot_spec [OF inv, of e i w] obtain k s1 w1
      where ev: "evictHotIfNeeded e i s w = Inr (s1, w1)" "sm_inv s1" "same_config s s1"
        "mHotLru s1 = filter (\<lambda>p. snd p \<notin> set (take k (hot_victims i s))) (mHotLru s)"
        "mSessions s1 i = mSessions s i \<or>
           mSessions s1 i = None \<and> (\<exists>m. mSessions s i = Some m \<and> swapped m)"
        "saves_succeed e \<longrightarrow> - 1 \<notin> set (ids (mHotLru s)) \<longrightarrow> hot_settled i s1" by blast
    have "i \<notin> set (ids (mHotLru s1))"
      using inv_hot_ids [OF inv, of i] i COLD unfolding ev(4) by auto
    then have "set (ids (mHotLru s1)) \<subseteq> {i} \<Longrightarrow> mHotLru s1 = []" by (cases "mHotLru s1") auto
    moreover have "1 \<le> mHotLimit s" using inv by (simp add: sm_inv_def inv_on_def)
    then have "0 < unat (mHotLimit s)" by (simp add: word_le_nat_alt)
    ultimately have lim: "saves_succeed e \<longrightarrow> - 1 \<notin> set (ids (mHotLru s)) \<longrightarrow>
        length (mHotLru s1) < unat (mHotLimit s)"
      using ev(3,6) by (auto simp: hot_settled_def same_config_def simp del: set_map)
    define res where "res = env_init e w1 (mModel s1) (mCtxParams s1)"
    define w2 where "w2 = LlamaInit (mModel s1) (mCtxParams s1) res # w1"
    show thesis
    proof (cases res)
      case None
      show thesis
        by (rule that(4) [OF i COLD ev(1,4) lim _ ev(2,3), of None w2])
          (simp_all add: activateForInfer_def i COLD ev(1) res_def [symmetric] w2_def None)
    next
      case c: (Some c)
      show thesis
      proof (cases "mSessions s1 i")
        case None
        then have "swapped m" and "s1 \<noteq> s" using ev(5) i by auto
        moreover have "unat (mHotLimit s) \<le> length (mHotLru s)"
        proof (rule ccontr)
          assume "\<not> unat (mHotLimit s) \<le> length (mHotLru s)"
          then have "evictHotIfNeeded e i s w = Inr (s, w)"
            by (simp add: evictHotIfNeeded.simps [of e i s w])
          then show False using ev(1) \<open>s1 \<noteq> s\<close> by simp
        qed
        ultimately show thesis
          using that(3) i None c COLD ev(1) by (simp add: activateForInfer_def res_def [symmetric])
      next
        case (Some m1)
        then have m1: "mSessions s1 i = Some m" using ev(5) i by auto
        from activate_cold_spec [OF ev(2) m1 COLD, of e c w2] obtain ok s3 w4
          where A: "bindR (if m_swapFilePath m \<noteq> [] then swapIn e i c s1 w2 else Inr (True, s1, w2))
             (\<lambda>(ok, s2, w3). if ok then bindR (make_hot e i c s2 w3) (\<lambda>(s3, w4). Inr (Some c, s3, w4))
                       else Inr (None, s2, w3)) = Inr ((if ok then Some c else None), s3, w4)"
            "sm_inv s3" "same_config s1 s3" "dom (mSessions s3) = dom (mSessions s1)"
            "if ok then ids (mHotLru s3) = ids (mHotLru s1) @ [i] \<and> mColdLru s3 = without i (mColdLru s1)
             else mHotLru s3 = mHotLru s1 \<and> mColdLru s3 = mColdLru s1" by blast
        show thesis
        proof (rule that(4) [OF i COLD ev(1,4) lim _ A(2) same_config_trans [OF ev(3) A(3)]])
          show "activateForInfer e i s w = Inr ((if ok then Some c else None), s3, w4)"
            unfolding A(1) [symmetric] using i COLD ev(1) c m1
            by (simp add: activateForInfer_def res_def [symmetric] w2_def Let_def)
          show "ids (mHotLru s3) = ids (mHotLru s1) @ (if (if ok then Some c else None) = None then [] else [i])"
            using A(5) by simp
          show "mColdLru s3 = (if (if ok then Some c else None) = None then mColdLru s1 else without i (mColdLru s1))"
            using A(5) by simp
          show "dom (mSessions s3) = dom (mSessions s1)" by (rule A(4))
        qed (use m1 in auto)
      qed
    qed
  qed
qed

text \<open>When eviction leaves the sessions alone, activating a COLD session cannot fault.\<close>

lemma activate_no_evict:
  assumes inv: "sm_inv s" and i: "mSessions s i = Some m" "m_state m = COLD"
    and ev: "evictHotIfNeeded e i s w = Inr (s, w)"
  shows "\<exists>r s' w'. activateForInfer e i s w = Inr (r, s', w') \<and> sm_inv s' \<and> same_config s s' \<and>
    ids (mHotLru s') = ids (mHotLru s) @ (if r = None then [] else [i])"
  using inv
proof (cases rule: activate_spec [where e = e and i = i and w = w])
  case (dangling m')
  define res where "res = env_init e w (mModel s) (mCtxParams s)"
  obtain c where c: "res = Some c"
    using dangling(4) i ev by (cases res) (auto simp: activateForInfer_def res_def [symmetric])
  define w2 where "w2 = LlamaInit (mModel s) (mCtxParams s) res # w"
  from activate_cold_spec [OF inv i, of e c w2] obtain ok s3 w4
    where A: "bindR (if m_swapFilePath m \<noteq> [] then swapIn e i c s w2 else Inr (True, s, w2))
      (\<lambda>(ok, s2, w3). if ok then bindR (make_hot e i c s2 w3) (\<lambda>(s3, w4). Inr (Some c, s3, w4))
                       else Inr (None, s2, w3)) = Inr ((if ok then Some c else None), s3, w4)" by blast
  have "activateForInfer e i s w = Inr ((if ok then Some c else None), s3, w4)"
    unfolding A [symmetric] using i ev c by (simp add: activateForInfer_def res_def [symmetric] w2_def Let_def)
  then show ?thesis using dangling(4) by simp
next
  case (cold m' k s1 w1 r s' w')
  then show ?thesis using ev by auto
qed (use i in auto)

end
