(* ===== verification/Session_Resources.thy ===== *)
theory Session_Resources
  imports Session_Ops
begin

text \<open>
  What the session manager owns outside its own memory: llama contexts and swap files.  \<open>res_inv\<close>
  ties the history of library calls to the state: the live contexts are exactly those of the HOT
  sessions, no two sessions share one, no call ever used a context that was not live, and the swap
  file of every swapped session is there.
\<close>

definition ctxs :: "session_manager \<Rightarrow> ctx set" where
  "ctxs s = {c. \<exists>i m. mSessions s i = Some m \<and> m_ctx m = Some c}"

definition res_on :: "ctx set \<Rightarrow> session_manager \<Rightarrow> history \<Rightarrow> bool" where
  \<comment> \<open>\<open>C\<close>: contexts an operation holds and no session owns yet\<close>
  "res_on C s w \<longleftrightarrow>
     live w = ctxs s \<union> C \<and> ctxs s \<inter> C = {} \<and> ctx_safe w \<and>
     (\<forall>i j m m' c. mSessions s i = Some m \<longrightarrow> mSessions s j = Some m' \<longrightarrow>
        m_ctx m = Some c \<longrightarrow> m_ctx m' = Some c \<longrightarrow> i = j) \<and>
     (\<forall>i m. mSessions s i = Some m \<longrightarrow> swapped m \<longrightarrow> m_swapFilePath m \<in> swap_files w)"

definition res_inv :: "session_manager \<Rightarrow> history \<Rightarrow> bool" where
  "res_inv s w \<longleftrightarrow> res_on {} s w"

lemma res_onI:
  assumes "live w = ctxs s \<union> C" "ctxs s \<inter> C = {}" "ctx_safe w"
    and "\<And>i j m m' c. mSessions s i = Some m \<Longrightarrow> mSessions s j = Some m' \<Longrightarrow>
        m_ctx m = Some c \<Longrightarrow> m_ctx m' = Some c \<Longrightarrow> i = j"
    and "\<And>i m. mSessions s i = Some m \<Longrightarrow> swapped m \<Longrightarrow> m_swapFilePath m \<in> swap_files w"
  shows "res_on C s w"
  unfolding res_on_def using assms by blast

lemma res_onD:
  assumes "res_on C s w"
  shows "live w = ctxs s \<union> C" "ctxs s \<inter> C = {}" "ctx_safe w"
    and "\<And>i j m m' c. mSessions s i = Some m \<Longrightarrow> mSessions s j = Some m' \<Longrightarrow>
        m_ctx m = Some c \<Longrightarrow> m_ctx m' = Some c \<Longrightarrow> i = j"
    and "\<And>i m. mSessions s i = Some m \<Longrightarrow> swapped m \<Longrightarrow> m_swapFilePath m \<in> swap_files w"
  using assms unfolding res_on_def by blast+

lemma res_init: "res_inv (SessionManager model params dir) []"
  by (simp add: res_inv_def res_on_def SessionManager_def ctxs_def)

lemma set_ids_filter: "i \<in> set (ids (filter P l)) \<Longrightarrow> i \<in> set (ids l)"
  by auto

text \<open>Only the sessions matter, and of them only the contexts and the swap files.\<close>

lemma res_on_sessions: "res_on C s w \<Longrightarrow> mSessions s' = mSessions s \<Longrightarrow> res_on C s' w"
  by (simp add: res_on_def ctxs_def)

lemma ctxs_drop:
  assumes i: "mSessions s i = Some m"
    and u: "\<And>j mj c. mSessions s j = Some mj \<Longrightarrow> m_ctx mj = Some c \<Longrightarrow> m_ctx m = Some c \<Longrightarrow> j = i"
  shows "ctxs (drop_session i s) = ctxs s - set_option (m_ctx m)"
proof (rule set_eqI)
  fix c
  show "c \<in> ctxs (drop_session i s) \<longleftrightarrow> c \<in> ctxs s - set_option (m_ctx m)"
  proof
    assume "c \<in> ctxs (drop_session i s)"
    then obtain j mj where "j \<noteq> i" "mSessions s j = Some mj" "m_ctx mj = Some c"
      by (auto simp: ctxs_def split: if_splits)
    then show "c \<in> ctxs s - set_option (m_ctx m)" using u by (auto simp: ctxs_def)
  next
    assume "c \<in> ctxs s - set_option (m_ctx m)"
    then obtain j mj where j: "mSessions s j = Some mj" "m_ctx mj = Some c" "m_ctx m \<noteq> Some c"
      by (auto simp: ctxs_def)
    then have "j \<noteq> i" using i by auto
    then show "c \<in> ctxs (drop_session i s)" using j by (auto simp: ctxs_def)
  qed
qed

lemma ctxs_put:
  assumes "mSessions s i = None"
  shows "ctxs (put_session i m s) = ctxs s \<union> set_option (m_ctx m)"
proof (rule set_eqI)
  fix c
  have "c \<in> ctxs (put_session i m s) \<longleftrightarrow>
      m_ctx m = Some c \<or> (\<exists>j mj. j \<noteq> i \<and> mSessions s j = Some mj \<and> m_ctx mj = Some c)"
    by (auto simp: ctxs_def)
  also have "\<dots> \<longleftrightarrow> c \<in> ctxs s \<union> set_option (m_ctx m)"
    using assms by (auto simp: ctxs_def) (metis option.distinct(1))
  finally show "c \<in> ctxs (put_session i m s) \<longleftrightarrow> c \<in> ctxs s \<union> set_option (m_ctx m)" .
qed

lemma res_drop:
  \<comment> \<open>a session leaves the map; a context it had is now in the hands of the operation\<close>
  assumes r: "res_on C s w" and i: "mSessions s i = Some m"
  shows "res_on (C \<union> set_option (m_ctx m)) (drop_session i s) w"
proof (rule res_onI)
  note D = res_onD [OF r]
  have c: "ctxs (drop_session i s) = ctxs s - set_option (m_ctx m)"
    using D(4) i by (intro ctxs_drop) blast+
  show "live w = ctxs (drop_session i s) \<union> (C \<union> set_option (m_ctx m))"
    using c D(1) i by (auto simp: ctxs_def)
  show "ctxs (drop_session i s) \<inter> (C \<union> set_option (m_ctx m)) = {}" using c D(2) by auto
qed (use res_onD(3,4,5) [OF r] in \<open>auto split: if_splits\<close>)

lemma res_put:
  \<comment> \<open>a session enters the map, with a context the operation held\<close>
  assumes r: "res_on C s w" and i: "mSessions s i = None"
    and m: "set_option (m_ctx m) \<subseteq> C" "swapped m \<Longrightarrow> m_swapFilePath m \<in> swap_files w"
  shows "res_on (C - set_option (m_ctx m)) (put_session i m s) w"
proof (rule res_onI)
  note D = res_onD [OF r]
  have c: "ctxs (put_session i m s) = ctxs s \<union> set_option (m_ctx m)"
    using i by (rule ctxs_put)
  show "live w = ctxs (put_session i m s) \<union> (C - set_option (m_ctx m))"
    using c D(1) m by auto
  show "ctxs (put_session i m s) \<inter> (C - set_option (m_ctx m)) = {}" using c D(2) by auto
  have no: "mSessions s j = Some mj \<Longrightarrow> m_ctx mj = Some d \<Longrightarrow> d \<notin> set_option (m_ctx m)" for j mj d
    using D(2) m(1) by (auto simp: ctxs_def)
  show "a = b" if "mSessions (put_session i m s) a = Some ma" "mSessions (put_session i m s) b = Some mb"
    "m_ctx ma = Some d" "m_ctx mb = Some d" for a b ma mb d
    using that no [of a ma d] no [of b mb d] D(4) [of a ma b mb d] by (auto split: if_splits)
qed (use res_onD(3,5) [OF r] m in \<open>auto split: if_splits\<close>)

lemma res_replace:
  assumes r: "res_on C s w" and i: "mSessions s i = Some m"
    and m: "set_option (m_ctx m') \<subseteq> C \<union> set_option (m_ctx m)"
      "swapped m' \<Longrightarrow> m_swapFilePath m' \<in> swap_files w"
  shows "res_on (C \<union> set_option (m_ctx m) - set_option (m_ctx m')) (put_session i m' s) w"
  using res_put [OF res_drop [OF r i], of i m'] m by simp

lemma res_event:
  \<comment> \<open>an event that creates, frees and removes nothing\<close>
  assumes r: "res_on C s w" and ev: "live (ev # w) = live w" "swap_files w \<subseteq> swap_files (ev # w)"
    and use_ok: "\<And>c. used_ctx ev = Some c \<Longrightarrow> c \<in> live w"
  shows "res_on C s (ev # w)"
  using res_onD [OF r] ev use_ok
  by (intro res_onI) (auto split: option.splits simp del: live.simps swap_files.simps)

lemma res_free:
  assumes "res_on (insert c C) s w" and "c \<notin> C"
  shows "res_on C s (LlamaFree c # w)"
  using res_onD [OF assms(1)] assms(2) by (intro res_onI) auto

lemma swapPath_inj: "swapPathFor s i = swapPathFor s j \<longleftrightarrow> i = j"
  by (simp add: swapPathFor_def show_int_inj)

lemma res_remove:
  assumes r: "res_on C s w" and inv: "\<And>j m. mSessions s j = Some m \<Longrightarrow> swapped m \<Longrightarrow>
      m_swapFilePath m = swapPathFor s j \<and> j \<noteq> i"
  shows "res_on C s (RemoveFile (swapPathFor s i) # w)"
  using res_onD [OF r] inv by (intro res_onI) (auto simp: swapPath_inj)

lemma res_remove_dropped:
  assumes "res_on C (drop_session i s) w"
    and "\<And>j m. mSessions s j = Some m \<Longrightarrow> swapped m \<Longrightarrow> m_swapFilePath m = swapPathFor s j"
  shows "res_on C (drop_session i s) (RemoveFile (swapPathFor s i) # w)"
proof -
  have p: "swapPathFor (drop_session i s) j = swapPathFor s j" for j by (simp add: swapPathFor_def)
  from assms have "res_on C (drop_session i s) (RemoveFile (swapPathFor (drop_session i s) i) # w)"
    by (intro res_remove) (auto simp: p split: if_splits)
  then show ?thesis by (simp only: p)
qed

subsection \<open>Killing and evicting\<close>

lemma kill_res:
  assumes inv: "sm_inv s" and r: "res_inv s w" and k: "killSession i s w = Inr (ok, s', w')"
  shows "sm_inv s' \<and> res_inv s' w'"
  using inv
proof (cases rule: kill_cases [where i = i and w = w])
  case absent
  then show ?thesis using inv r k by simp
next
  case (hot m c)
  have "res_on {c} (drop_session i s) w"
    using res_drop [OF r [unfolded res_inv_def] hot(1)] hot(3) by simp
  then have "res_on {} (drop_session i s) (LlamaFree c # w)" by (intro res_free) auto
  then show ?thesis using hot k by (auto simp: res_inv_def elim: res_on_sessions)
next
  case (cold m)
  have "res_on {} (drop_session i s) w"
    using res_drop [OF r [unfolded res_inv_def] cold(1)] cold(3) by simp
  then have "res_on {} (drop_session i s) (RemoveFile (swapPathFor s i) # w)"
    using inv_meta [OF inv] by (intro res_remove_dropped) (simp_all add: meta_ok_def)
  then show ?thesis using cold k by (auto simp: res_inv_def elim: res_on_sessions)
next
  case (fresh m)
  then show ?thesis
    using res_drop [OF r [unfolded res_inv_def] fresh(1)] k by (simp add: res_inv_def)
qed

lemma evictCold_res:
  assumes "sm_inv s" "res_inv s w" "evictColdIfNeeded x s w = Inr (s', w')"
  shows "sm_inv s' \<and> res_inv s' w'"
  using assms evictCold_loop_rule [where P = "\<lambda>s w. sm_inv s \<and> res_inv s w"] kill_res
  unfolding evictColdIfNeeded_def by blast

subsection \<open>Swapping out\<close>

lemma swapOut_loop_hist:
  assumes "m_ctx m = Some c" and "swapOut_loop e path u l m w = Inr (res, m', w')"
  shows "live w' = live w" and "c \<in> live w \<Longrightarrow> ctx_safe w \<Longrightarrow> ctx_safe w'"
    and "swap_files w \<subseteq> swap_files w'" and "res \<noteq> None \<Longrightarrow> path \<in> swap_files w'"
proof -
  have "live w' = live w \<and> (c \<in> live w \<longrightarrow> ctx_safe w \<longrightarrow> ctx_safe w') \<and>
      swap_files w \<subseteq> swap_files w' \<and> (res \<noteq> None \<longrightarrow> path \<in> swap_files w')"
    using assms
  proof (induction "length (m_tokens m)" arbitrary: m w rule: less_induct)
    case less
    define n where "n = env_save e w c path (m_tokens m)"
    define w1 where "w1 = SeqSave c path (m_tokens m) n # w"
    define b where "b = env_size e w1 c"
    define w2 where "w2 = SeqGetSize c b # w1"
    have eq: "swapOut_loop e path u l m w =
        (if n = 0 then Inr (None, m, w1)
         else if b + u \<le> l \<or> length (m_tokens m) \<le> kMinKeepTokens then Inr (Some b, m, w2)
         else bindR (pruneOldestTokens m (prune_amount (length (m_tokens m))) w2)
                (\<lambda>(meta', w3). swapOut_loop e path u l meta' w3))"
      using less.prems(1) by (simp add: swapOut_loop.simps [of e path u l m w] n_def w1_def b_def w2_def Let_def)
    have w2: "live w2 = live w" "c \<in> live w \<Longrightarrow> ctx_safe w \<Longrightarrow> ctx_safe w2" "live w1 = live w"
      "swap_files w \<subseteq> swap_files w1" "c \<in> live w \<Longrightarrow> ctx_safe w \<Longrightarrow> ctx_safe w1"
      "n \<noteq> 0 \<Longrightarrow> swap_files w2 = insert path (swap_files w)"
      by (auto simp: w2_def w1_def)
    show ?case
    proof (cases "n = 0 \<or> b + u \<le> l \<or> length (m_tokens m) \<le> kMinKeepTokens")
      case True
      then have "res = None \<and> w' = w1 \<or> n \<noteq> 0 \<and> w' = w2"
        using less.prems(2) unfolding eq by (auto split: if_splits)
      then show ?thesis using w2 by auto
    next
      case False
      define k where "k = prune_amount (length (m_tokens m))"
      define m1 where "m1 = m\<lparr>m_tokens := drop k (m_tokens m)\<rparr>"
      define w3 where "w3 = SeqAdd c (to_int32 (int k)) (- 1) (- to_int32 (int k))
         # SeqRm c 0 (to_int32 (int k)) # w2"
      have long: "kMinKeepTokens < length (m_tokens m)" using False by simp
      note P = prune_spec [OF less.prems(1) long, folded k_def, folded m1_def]
      have "swapOut_loop e path u l m1 w3 = Inr (res, m', w')"
        using less.prems(2) False P(1) [of w2] unfolding eq by (simp add: k_def [symmetric] w3_def)
      moreover have "length (m_tokens m1) < length (m_tokens m)" "m_ctx m1 = Some c"
        using P(2,3) long less.prems(1) by (auto simp: m1_def)
      ultimately have IH: "live w' = live w3 \<and> (c \<in> live w3 \<longrightarrow> ctx_safe w3 \<longrightarrow> ctx_safe w') \<and>
          swap_files w3 \<subseteq> swap_files w' \<and> (res \<noteq> None \<longrightarrow> path \<in> swap_files w')"
        using less.hyps by blast
      have "live w3 = live w2" "c \<in> live w2 \<Longrightarrow> ctx_safe w2 \<Longrightarrow> ctx_safe w3" "swap_files w3 = swap_files w2"
        by (auto simp: w3_def)
      with IH w2 False show ?thesis by auto
    qed
  qed
  then show "live w' = live w" and "c \<in> live w \<Longrightarrow> ctx_safe w \<Longrightarrow> ctx_safe w'"
    and "swap_files w \<subseteq> swap_files w'" and "res \<noteq> None \<Longrightarrow> path \<in> swap_files w'" by auto
qed

lemma res_grow:
  assumes "res_on C s w" and "live w' = live w" "ctx_safe w'" "swap_files w \<subseteq> swap_files w'"
  shows "res_on C s w'"
  using res_onD [OF assms(1)] assms(2-) by (intro res_onI) auto

lemma swapOut_res:
  assumes inv: "sm_inv s" and r: "res_inv s w" and hot: "i \<in> set (ids (mHotLru s))"
    and out: "swapOut e i s w = Inr (ok, s', w')"
  shows "sm_inv s' \<and> res_inv s' w'"
proof -
  obtain m where i: "mSessions s i = Some m" "m_state m = HOT"
    using inv_hot_ids [OF inv] hot by blast
  show ?thesis
    using inv i
  proof (cases rule: swapOut_mid [where e = e and w = w])
    case (mid c res k w1)
    note H = swapOut_loop_hist [OF mid(1,2)]
    have "c \<in> live w" using r i mid(1) by (auto simp: res_inv_def res_on_def ctxs_def)
    then have r1: "res_on {} s w1"
      using H res_grow [OF r [unfolded res_inv_def]] r by (auto simp: res_inv_def res_on_def)
    show ?thesis
    proof (cases res)
      case None
      have "res_on {} (put_session i (m\<lparr>m_tokens := drop k (m_tokens m)\<rparr>) s) w1"
        using res_replace [OF r1 i(1), of "m\<lparr>m_tokens := drop k (m_tokens m)\<rparr>"] i(2)
        by (simp add: swapped_def)
      moreover have "sm_inv (put_session i (m\<lparr>m_tokens := drop k (m_tokens m)\<rparr>) s)"
        by (rule inv_put_same [OF inv i(1)]) simp_all
      ultimately show ?thesis using mid(6) [OF None] out by (simp add: res_inv_def)
    next
      case (Some b)
      let ?m = "m\<lparr>m_tokens := drop k (m_tokens m), m_ctx := None, m_state := COLD,
          m_swapFilePath := swapPathFor s i, m_swapFileBytes := b, m_lruIt := Some (nextNode s)\<rparr>"
      have "res_on {c} (put_session i ?m s) w1"
        using res_replace [OF r1 i(1), of ?m] mid(1) H(4) Some by simp
      then have "res_on {} (put_session i ?m s) (LlamaFree c # w1)" by (intro res_free) auto
      moreover have "mSessions (swapped_out i m k b s) = mSessions (put_session i ?m s)"
        by (simp add: swapped_out_def)
      ultimately have "res_inv (swapped_out i m k b s) (LlamaFree c # w1)"
        unfolding res_inv_def by (rule res_on_sessions)
      moreover have "evictColdIfNeeded i (swapped_out i m k b s) (LlamaFree c # w1) = Inr (s', w')"
        using out unfolding mid(7) [OF Some] by (auto simp: bindR_Inr_iff)
      ultimately show ?thesis using evictCold_res [OF mid(8)] by blast
    qed
  qed
qed

lemma evictHot_res:
  assumes "sm_inv s" "res_inv s w" "evictHotIfNeeded e x s w = Inr (s', w')"
  shows "sm_inv s' \<and> res_inv s' w'"
  using evictHot_rule [OF assms(3), where P = "\<lambda>s w. sm_inv s \<and> res_inv s w"] assms(1,2)
    swapOut_res hot_victims_hd by blast

subsection \<open>The remaining operations\<close>

lemma create_res:
  assumes "res_inv s w" and "createSession e i s w = (ok, s', w')"
  shows "res_inv s' w'"
proof (cases "mSessions s i")
  case None
  let ?m = "new_meta\<lparr>m_id := i, m_state := COLD, m_lastUsedMs := env_now e w\<rparr>"
  have "res_on {} (put_session i ?m s) w"
    using res_put [OF assms(1) [unfolded res_inv_def] None, of ?m] by (simp add: new_meta_def swapped_def)
  then have "res_on {} (put_session i ?m s) (NowMs (env_now e w) # w)" by (rule res_event) auto
  then show ?thesis
    using assms(2) None by (auto simp: createSession_def now_ms_def res_inv_def)
qed (use assms in \<open>simp add: createSession_def\<close>)

lemma touched_res:
  assumes "res_inv s w" and "mSessions s i = Some m" "m_state m = HOT"
  shows "res_inv (touched i m t s) (NowMs t # w)"
proof -
  let ?m = "m\<lparr>m_lruIt := Some (nextNode s), m_lastUsedMs := t\<rparr>"
  have "res_on {} (put_session i ?m s) w"
    using res_replace [OF assms(1) [unfolded res_inv_def] assms(2), of ?m] assms(3)
    by (simp add: swapped_def)
  then have "res_on {} (put_session i ?m s) (NowMs t # w)" by (rule res_event) auto
  moreover have "mSessions (touched i m t s) = mSessions (put_session i ?m s)" by (simp add: touched_def)
  ultimately show ?thesis unfolding res_inv_def by (rule res_on_sessions)
qed

lemma record_res:
  assumes inv: "sm_inv s" and r: "res_inv s w" and rec: "recordTokens e i ts s w = Inr (s', w')"
  shows "res_inv s' w'"
proof (cases "mSessions s i")
  case None
  then show ?thesis using r rec by (simp add: recordTokens_def)
next
  case (Some m)
  let ?m = "m\<lparr>m_tokens := m_tokens m @ ts\<rparr>"
  have r1: "res_inv (put_session i ?m s) w"
    using res_replace [OF r [unfolded res_inv_def] Some, of ?m] res_onD(5) [OF r [unfolded res_inv_def] Some]
    by (simp add: swapped_def res_inv_def)
  have inv1: "sm_inv (put_session i ?m s)" by (rule inv_put_same [OF inv Some]) simp_all
  show ?thesis
  proof (cases "m_state m")
    case HOT
    have m: "mSessions (put_session i ?m s) i = Some ?m" "m_state ?m = HOT" using HOT by simp_all
    show ?thesis
      using rec Some HOT touch_spec(1) [OF inv1 m] touched_res [OF r1 m]
      by (auto simp: recordTokens_def)
  next
    case COLD
    then show ?thesis using r1 rec Some by (simp add: recordTokens_def)
  qed
qed

lemma setColdLimit_res:
  assumes "sm_inv s" "res_inv s w" "setColdLimit b s w = Inr (s', w')"
  shows "sm_inv s' \<and> res_inv s' w'"
proof -
  have "res_inv (s\<lparr>mColdLimitBytes := b\<rparr>) w"
    using assms(2) unfolding res_inv_def by (rule res_on_sessions) simp
  then show ?thesis
    using evictCold_res inv_limits(1) [OF assms(1)] assms(3) unfolding setColdLimit_def by blast
qed

lemma setHotLimit_res:
  assumes "sm_inv s" "res_inv s w" "setHotLimit e h s w = Inr (s', w')"
  shows "sm_inv s' \<and> res_inv s' w'"
proof -
  have "res_inv (s\<lparr>mHotLimit := max 1 h\<rparr>) w"
    using assms(2) unfolding res_inv_def by (rule res_on_sessions) simp
  then show ?thesis
    using evictHot_res inv_limits(2) [OF assms(1) max_1_size_t] assms(3) unfolding setHotLimit_def
    by blast
qed

subsection \<open>Activation\<close>

lemma make_hot_res:
  \<comment> \<open>the session to become HOT is out of the map as far as resources are concerned\<close>
  assumes r: "res_on {c} (drop_session i s) w" and h: "make_hot e i c s w = Inr (s', w')"
  shows "res_inv s' w'"
proof -
  obtain m where i: "mSessions s i = Some m" using h by (auto simp: make_hot_def split: option.splits)
  let ?m = "m\<lparr>m_ctx := Some c, m_state := HOT, m_lruIt := Some (nextNode s), m_lastUsedMs := env_now e w\<rparr>"
  have "res_on {} (put_session i ?m (drop_session i s)) w"
    using res_put [OF r, of i ?m] by (simp add: swapped_def)
  then have "res_on {} (put_session i ?m s) (NowMs (env_now e w) # w)" by (intro res_event) auto
  moreover have "s' = put_session i ?m (s\<lparr>mHotLru := push_back (nextNode s) i (mHotLru s), nextNode := Suc (nextNode s)\<rparr>)"
    "w' = NowMs (env_now e w) # w"
    using h i by (simp_all add: make_hot_def now_ms_def Let_def)
  ultimately show ?thesis by (auto simp: res_inv_def elim: res_on_sessions)
qed

lemma swapIn_res:
  assumes inv: "sm_inv s" and i: "mSessions s i = Some m" "swapped m"
    and r: "res_on {c} s w" and sw: "swapIn e i c s w = Inr (ok, s', w')"
  shows "if ok then res_on {c} (drop_session i s') w' else res_inv s' w'"
proof -
  from inv_coldE [OF inv i] obtain n where n: "m_ctx m = None" "m_swapFilePath m = swapPathFor s i"
    "erase (m_lruIt m) (mColdLru s) = Inr (filter (\<lambda>p. fst p \<noteq> n) (mColdLru s))" by blast
  define k where "k = unat (n_ctx (mCtxParams s))"
  obtain ld wr nOut where l: "env_load e w c (m_swapFilePath m) k = (ld, wr, nOut)"
    by (metis prod_cases3)
  define w1 where "w1 = SeqLoad c (m_swapFilePath m) k ld # w"
  have c: "c \<in> live w" using res_onD(1) [OF r] by auto
  have r1: "res_on {c} s w1" unfolding w1_def by (rule res_event [OF r]) (use c in auto)
  show ?thesis
  proof (cases "ld = 0")
    case True
    define m' where "m' = m\<lparr>m_tokens := load_buffer k (m_tokens m) wr\<rparr>"
    have s': "s' = put_session i m' s" "w' = LlamaFree c # w1" "\<not> ok"
      using sw i l True by (auto simp: swapIn_def k_def [symmetric] w1_def m'_def)
    have "res_on {c} (put_session i m' s) w1"
      using res_replace [OF r1 i(1), of m'] n(1) i res_onD(5) [OF r1 i(1)] by (simp add: m'_def)
    then show ?thesis using s' by (auto simp: res_inv_def intro: res_free)
  next
    case False
    have s': "mSessions (drop_session i s') = mSessions (drop_session i s)"
      "w' = RemoveFile (swapPathFor s i) # w1" ok
      using sw i l False n by (auto simp: swapIn_def k_def [symmetric] w1_def)
    have "res_on {c} (drop_session i s) w1" using res_drop [OF r1 i(1)] n(1) by simp
    then have "res_on {c} (drop_session i s) w'"
      unfolding s'(2) using inv_meta [OF inv] by (intro res_remove_dropped) (simp_all add: meta_ok_def)
    then show ?thesis using s'(1,3) res_on_sessions by auto
  qed
qed

lemma activate_res:
  assumes inv: "sm_inv s" and r: "res_inv s w" and fresh: "fresh_init e"
    and a: "activateForInfer e i s w = Inr (res, s', w')"
  shows "sm_inv s' \<and> res_inv s' w'"
  using inv
proof (cases rule: activate_spec [where e = e and i = i and w = w])
  case absent
  then show ?thesis using inv r a by simp
next
  case (hot m c)
  then show ?thesis using touched_res [OF r hot(1,2)] a by simp
next
  case (dangling m)
  then show ?thesis using a by simp
next
  case (cold m k s1 w1 _ s'' w'')
  have inv': "sm_inv s'" using cold a by simp
  have r1: "res_on {} s1 w1" and inv1: "sm_inv s1"
    using evictHot_res [OF inv r cold(3)] by (simp_all add: res_inv_def)
  define ini where "ini = env_init e w1 (mModel s1) (mCtxParams s1)"
  define w2 where "w2 = LlamaInit (mModel s1) (mCtxParams s1) ini # w1"
  show ?thesis
  proof (cases ini)
    case None
    have "res_on {} s1 w2" unfolding w2_def None by (rule res_event [OF r1]) auto
    then show ?thesis
      using inv' a cold(1-3) None
      by (auto simp: activateForInfer_def ini_def [symmetric] w2_def res_inv_def)
  next
    case (Some c)
    then have "c \<notin> live w1" using fresh by (auto simp: fresh_init_def ini_def)
    then have r2: "res_on {c} s1 w2"
      using res_onD [OF r1] unfolding w2_def Some by (intro res_onI) auto
    obtain m1 where m1: "mSessions s1 i = Some m1"
      using a cold(1-3) Some by (auto simp: activateForInfer_def ini_def [symmetric] Let_def split: option.splits)
    have C: "m_state m1 = COLD"
      using m1 inv_hot_ids [OF inv1, of i] inv_hot_ids [OF inv, of i] cold(1,2) unfolding cold(4)
      by (cases "m_state m1") (auto simp del: set_map dest: set_ids_filter)
    have rest: "bindR (if m_swapFilePath m1 \<noteq> [] then swapIn e i c s1 w2 else Inr (True, s1, w2))
        (\<lambda>(ok, s2, w3). if ok then bindR (make_hot e i c s2 w3) (\<lambda>(s3, w4). Inr (Some c, s3, w4))
                         else Inr (None, s2, w3)) = Inr (res, s', w')"
      using a cold(1-3) Some [unfolded ini_def] m1
      by (simp add: activateForInfer_def w2_def ini_def Let_def cong: if_cong)
    show ?thesis
    proof (cases "m_swapFilePath m1 = []")
      case True
      have "m_ctx m1 = None" using inv_meta [OF inv1 m1] C by (auto simp: meta_ok_def)
      then have "res_on {c} (drop_session i s1) w2" using res_drop [OF r2 m1] by simp
      then show ?thesis using rest True inv' make_hot_res by (auto simp: bindR_Inr_iff)
    next
      case False
      then have sw: "swapped m1" using C by (simp add: swapped_def)
      obtain ok s2 w3 where S: "swapIn e i c s1 w2 = Inr (ok, s2, w3)"
        using rest False by (auto simp: bindR_Inr_iff)
      show ?thesis
        using swapIn_res [OF inv1 m1 sw r2 S] rest False S inv' make_hot_res
        by (auto simp: bindR_Inr_iff split: if_splits)
    qed
  qed
qed

subsection \<open>Destruction\<close>

text \<open>
  The destructor frees every context exactly once, whatever the iteration order of the map: no
  context outlives the manager, and none is freed twice.
\<close>

lemma dtor_res:
  assumes inv: "sm_inv s" and r: "res_inv s w" and d: "distinct order" "set order = dom (mSessions s)"
  shows "live (SessionManager_dtor order s w) = {}" and "ctx_safe (SessionManager_dtor order s w)"
proof -
  have hot: "m_ctx m \<noteq> None \<Longrightarrow> m_state m = HOT" if "mSessions s i = Some m" for i m
    using inv_meta [OF inv that] by (auto simp: meta_ok_def)
  have step: "live (SessionManager_dtor l s w) = live w - {c. \<exists>i m. i \<in> set l \<and> mSessions s i = Some m \<and> m_ctx m = Some c}
      \<and> ctx_safe (SessionManager_dtor l s w)" if "distinct l" for l
    using that
  proof (induction l rule: rev_induct)
    case Nil
    then show ?case using r by (simp add: SessionManager_dtor_def res_inv_def res_on_def)
  next
    case (snoc i l)
    then have IH: "live (SessionManager_dtor l s w) = live w - {c. \<exists>i m. i \<in> set l \<and> mSessions s i = Some m \<and> m_ctx m = Some c}"
      "ctx_safe (SessionManager_dtor l s w)" by auto
    show ?case
    proof (cases "\<exists>m c. mSessions s i = Some m \<and> m_ctx m = Some c")
      case True
      then obtain m c where m: "mSessions s i = Some m" "m_ctx m = Some c" by blast
      then have "c \<in> live w" using res_onD(1) [OF r [unfolded res_inv_def]] by (auto simp: ctxs_def)
      moreover have "c \<notin> {c. \<exists>i m. i \<in> set l \<and> mSessions s i = Some m \<and> m_ctx m = Some c}"
        using res_onD(4) [OF r [unfolded res_inv_def] m(1) _ m(2)] snoc.prems by auto
      moreover have "SessionManager_dtor (l @ [i]) s w = LlamaFree c # SessionManager_dtor l s w"
        using m hot [OF m(1)] by (simp add: SessionManager_dtor_def)
      ultimately show ?thesis using IH m by auto
    next
      case False
      then have "SessionManager_dtor (l @ [i]) s w = SessionManager_dtor l s w"
        by (auto simp: SessionManager_dtor_def split: option.splits)
      then show ?thesis using IH False by auto
    qed
  qed
  show "ctx_safe (SessionManager_dtor order s w)" using step [OF d(1)] by blast
  show "live (SessionManager_dtor order s w) = {}"
    using step [OF d(1)] res_onD(1) [OF r [unfolded res_inv_def]] d(2) by (auto simp: ctxs_def)
qed

end
