(* ===== verification/Session_Spec.thy ===== *)
theory Session_Spec
  imports Session_Resources
begin

text \<open>
  The contract of \<open>SessionManager\<close>.  A client is a list of calls; the states it can reach keep the
  invariants of the two theories before this one.  The detailed operations refine an abstract cache
  of three components: the HOT ids and the swapped ids, each oldest first, and the set of all ids.
\<close>

subsection \<open>Clients\<close>

datatype sm_call =
    Create int
  | Kill int
  | Activate int
  | Record int "llama_token list"
  | SetHotLimit size_t
  | SetColdLimit size_t

fun sm_exec ::
    "llama_env \<Rightarrow> sm_call \<Rightarrow> session_manager \<times> history \<Rightarrow> (session_manager \<times> history) result" where
  \<comment> \<open>one call of a public member function, its return value dropped\<close>
  "sm_exec e (Create i) (s, w) = Inr (snd (createSession e i s w))"
| "sm_exec e (Kill i) (s, w) = bindR (killSession i s w) (\<lambda>r. Inr (snd r))"
| "sm_exec e (Activate i) (s, w) = bindR (activateForInfer e i s w) (\<lambda>r. Inr (snd r))"
| "sm_exec e (Record i ts) (s, w) = recordTokens e i ts s w"
| "sm_exec e (SetHotLimit h) (s, w) = setHotLimit e h s w"
| "sm_exec e (SetColdLimit b) (s, w) = setColdLimit b s w"

definition sm_ok :: "session_manager \<times> history \<Rightarrow> bool" where
  "sm_ok = (\<lambda>(s, w). sm_inv s \<and> res_inv s w)"

lemma sm_exec_keeps:
  assumes "fresh_init e" "sm_ok x" "sm_exec e c x = Inr x'"
  shows "sm_ok x'"
proof -
  obtain s w s' w' where x: "x = (s, w)" "x' = (s', w')" by (cases x, cases x')
  have inv: "sm_inv s" "res_inv s w" using assms(2) x by (auto simp: sm_ok_def)
  show ?thesis
  proof (cases c)
    case (Create i)
    then obtain ok where "createSession e i s w = (ok, s', w')"
      using assms(3) x by (cases "createSession e i s w") auto
    then show ?thesis using create_inv [OF inv(1)] create_res [OF inv(2)] x by (simp add: sm_ok_def)
  next
    case (Kill i)
    then show ?thesis using assms(3) x kill_res [OF inv] by (auto simp: sm_ok_def bindR_Inr_iff)
  next
    case (Activate i)
    then show ?thesis
      using assms(3) x activate_res [OF inv assms(1)] by (auto simp: sm_ok_def bindR_Inr_iff)
  next
    case (Record i ts)
    then show ?thesis
      using assms(3) x record_res [OF inv] record_spec [OF inv(1), of e i ts w] by (auto simp: sm_ok_def)
  next
    case (SetHotLimit h)
    then show ?thesis using assms(3) x setHotLimit_res [OF inv] by (auto simp: sm_ok_def)
  next
    case (SetColdLimit b)
    then show ?thesis using assms(3) x setColdLimit_res [OF inv] by (auto simp: sm_ok_def)
  qed
qed

text \<open>
  The only fault a call can end in is the dangling reference of \<open>activateForInfer\<close>, and only for a
  swapped session while the HOT list is at its limit.
\<close>

lemma sm_exec_fault:
  assumes "sm_inv s" "sm_exec e c (s, w) = Inl f"
  shows "f = DanglingReference \<and> (\<exists>i m. c = Activate i \<and> mSessions s i = Some m \<and> swapped m) \<and>
    unat (mHotLimit s) \<le> length (mHotLru s)"
proof (cases c)
  case (Kill i)
  then show ?thesis using assms(2) kill_total [OF assms(1), of i w] by auto
next
  case (Activate i)
  show ?thesis
    using assms(1)
  proof (cases rule: activate_spec [where e = e and i = i and w = w])
    case (dangling m)
    then show ?thesis using assms(2) Activate by auto
  qed (use assms(2) Activate in auto)
next
  case (Record i ts)
  then show ?thesis using assms(2) record_spec [OF assms(1), of e i ts w] by auto
next
  case (SetHotLimit h)
  then show ?thesis
    using assms(2) by (auto intro: setHotLimit_spec [OF assms(1), where e = e and h = h and w = w])
next
  case (SetColdLimit b)
  then show ?thesis
    using assms(2) by (auto intro: setColdLimit_spec [OF assms(1), where b = b and w = w])
qed (use assms(2) in auto)

interpretation sm: machine "sm_exec e" sm_ok "\<lambda>_. fresh_init e" "\<lambda>f. f = DanglingReference" for e
proof unfold_locales
  show "f = DanglingReference" if "sm_ok x" "sm_exec e c x = Inl f" for x c f
    using that sm_exec_fault [of "fst x" e c "snd x" f] by (simp add: sm_ok_def split_beta)
qed (rule sm_exec_keeps)

inductive sm_reach :: "llama_env \<Rightarrow> session_manager \<times> history \<Rightarrow> bool" for e where
  start: "sm_reach e (SessionManager model params dir, [])"
| call: "sm_reach e x \<Longrightarrow> sm_exec e c x = Inr y \<Longrightarrow> sm_reach e y"

lemma sm_reach_ok: "sm_reach e x \<Longrightarrow> fresh_init e \<Longrightarrow> sm_ok x"
  by (induction rule: sm_reach.induct)
    (auto simp: sm_ok_def sm_inv_init res_init dest!: sm.keeps [rotated 2])

lemma sm_reach_run: "sm_reach e x \<Longrightarrow> runR (sm_exec e) cs x = Inr y \<Longrightarrow> sm_reach e y"
  by (induction cs arbitrary: x) (auto simp: bindR_Inr_iff intro: sm_reach.call)

subsection \<open>The abstract cache\<close>

record lru =
  l_hot :: "int list"
  l_cold :: "int list"
  l_ids :: "int set"

definition abs_lru :: "session_manager \<Rightarrow> lru" where
  "abs_lru s = \<lparr>l_hot = ids (mHotLru s), l_cold = ids (mColdLru s), l_ids = dom (mSessions s)\<rparr>"

abbreviation remove :: "int \<Rightarrow> int list \<Rightarrow> int list" where
  "remove i l \<equiv> filter (\<lambda>j. j \<noteq> i) l"

text \<open>
  One swap-out while session \<open>x\<close> is spared: the least recently used other HOT session goes to the
  back of the swapped ones, and the oldest swapped ones are forgotten, as many as the library's
  file sizes demand.
\<close>

inductive swap_step :: "int \<Rightarrow> lru \<Rightarrow> lru \<Rightarrow> bool" for x where
  "l_hot a = us @ v # vs \<Longrightarrow> set us \<subseteq> {x} \<Longrightarrow> v \<noteq> x \<Longrightarrow>
   swap_step x a \<lparr>l_hot = us @ vs, l_cold = drop j (l_cold a) @ [v],
                  l_ids = l_ids a - set (take j (l_cold a))\<rparr>"

inductive lru_step :: "sm_call \<Rightarrow> lru \<Rightarrow> lru \<Rightarrow> bool" where
  create: "lru_step (Create i) a (a\<lparr>l_ids := insert i (l_ids a)\<rparr>)"
| kill: "lru_step (Kill i) a
     \<lparr>l_hot = remove i (l_hot a), l_cold = remove i (l_cold a), l_ids = l_ids a - {i}\<rparr>"
| absent: "i \<notin> l_ids a \<Longrightarrow> lru_step (Activate i) a a"
| hit: "i \<in> set (l_hot a) \<Longrightarrow> lru_step (Activate i) a (a\<lparr>l_hot := remove i (l_hot a) @ [i]\<rparr>)"
| miss: "i \<in> l_ids a - set (l_hot a) \<Longrightarrow> (swap_step i)\<^sup>*\<^sup>* a b \<Longrightarrow> i \<in> l_ids b \<Longrightarrow>
     lru_step (Activate i) a (b\<lparr>l_hot := l_hot b @ [i], l_cold := remove i (l_cold b)\<rparr>)"
| failed: "i \<in> l_ids a - set (l_hot a) \<Longrightarrow> (swap_step i)\<^sup>*\<^sup>* a b \<Longrightarrow> lru_step (Activate i) a b"
| record_hot: "i \<in> set (l_hot a) \<Longrightarrow>
     lru_step (Record i ts) a (a\<lparr>l_hot := remove i (l_hot a) @ [i]\<rparr>)"
| record_other: "i \<notin> set (l_hot a) \<Longrightarrow> lru_step (Record i ts) a a"
| hot_limit: "(swap_step (- 1))\<^sup>*\<^sup>* a b \<Longrightarrow> lru_step (SetHotLimit h) a b"
| cold_limit: "K = set (take k (remove (- 1) (l_cold a))) \<Longrightarrow>
     lru_step (SetColdLimit n) a
       (a\<lparr>l_cold := filter (\<lambda>j. j \<notin> K) (l_cold a), l_ids := l_ids a - K\<rparr>)"

lemma filter_not_take:
  "distinct l \<Longrightarrow> filter (\<lambda>v. v \<notin> set (take j l)) l = drop j l"
proof (induction l arbitrary: j)
  case (Cons a l)
  then show ?case
    by (cases j) (auto intro: trans [OF filter_cong [OF refl]] filter_True)
qed simp

lemma remove_id: "i \<notin> set l \<Longrightarrow> remove i l = l"
  by (auto intro: filter_True)

lemma remove_hd_split:
  assumes "remove x l = v # vs"
  obtains us ws where "l = us @ v # ws" "set us \<subseteq> {x}"
  using assms
proof (induction l arbitrary: thesis)
  case (Cons a l)
  show ?case
  proof (cases "a = x")
    case True
    then obtain us ws where "l = us @ v # ws" "set us \<subseteq> {x}" using Cons by auto
    then show ?thesis using Cons.prems(1) [of "a # us" ws] True by auto
  next
    case False
    then show ?thesis using Cons.prems(1) [of "[]" l] Cons.prems(2) by auto
  qed
qed simp

lemma swapOut_sim:
  assumes inv: "sm_inv s" and v: "hot_victims x s = v # vs"
    and out: "swapOut e v s w = Inr (ok, s', w')"
  shows "sm_inv s' \<and> (swap_step x)\<^sup>*\<^sup>* (abs_lru s) (abs_lru s')"
proof -
  note vx = hot_victims_hd [OF v]
  then obtain m where m: "mSessions s v = Some m" "m_state m = HOT" using inv_hot_ids [OF inv] by blast
  show ?thesis
    using inv m
  proof (cases rule: swapOut_cases [where e = e and w = w])
    case (failed k w1)
    moreover have "dom ((mSessions s)(v \<mapsto> m')) = dom (mSessions s)" for m' using m(1) by auto
    ultimately show ?thesis using out by (simp add: abs_lru_def)
  next
    case (swapped k m2 j s1 w1)
    have s1: "s1 = s'" using swapped(1) out by simp
    obtain us ws where split: "ids (mHotLru s) = us @ v # ws" "set us \<subseteq> {x}"
      using v unfolding hot_victims_def by (rule remove_hd_split)
    have "v \<notin> set us" "v \<notin> set ws" using inv_hot_distinct [OF inv] unfolding split(1) by auto
    then have "ids (mHotLru s') = us @ ws"
      unfolding s1 [symmetric] swapped(8) ids_without split(1) by (simp add: remove_id)
    moreover have "ids (mColdLru s') = drop j (ids (mColdLru s)) @ [v]"
      using swapped(10) filter_not_take [OF inv_cold_distinct [OF inv]] s1 by simp
    moreover have "dom (mSessions s') = dom (mSessions s) - set (take j (ids (mColdLru s)))"
      unfolding s1 [symmetric] swapped(9) using m(1) by (auto simp: restrict_map_def split: if_splits)
    ultimately have "abs_lru s' = \<lparr>l_hot = us @ ws, l_cold = drop j (l_cold (abs_lru s)) @ [v],
        l_ids = l_ids (abs_lru s) - set (take j (l_cold (abs_lru s)))\<rparr>"
      by (simp add: abs_lru_def)
    moreover have "l_hot (abs_lru s) = us @ v # ws" using split(1) by (simp add: abs_lru_def)
    ultimately have "swap_step x (abs_lru s) (abs_lru s')"
      using swap_step.intros [of "abs_lru s" us v ws x j] split(2) vx by simp
    then show ?thesis using swapped(2) s1 by blast
  qed
qed

lemma evictHot_sim:
  assumes "sm_inv s" and "evictHotIfNeeded e x s w = Inr (s', w')"
  shows "(swap_step x)\<^sup>*\<^sup>* (abs_lru s) (abs_lru s')"
  using evictHot_rule [OF assms(2), where P = "\<lambda>t w. sm_inv t \<and> (swap_step x)\<^sup>*\<^sup>* (abs_lru s) (abs_lru t)"]
    assms(1) swapOut_sim by (meson rtranclp.rtrancl_refl rtranclp_trans)

lemma abs_touched:
  "mSessions s i = Some m \<Longrightarrow>
    abs_lru (touched i m t s) = (abs_lru s)\<lparr>l_hot := remove i (ids (mHotLru s)) @ [i]\<rparr>"
  by (auto simp: abs_lru_def touched_def ids_without)

lemma kill_sim:
  assumes inv: "sm_inv s" and k: "killSession i s w = Inr (ok, s', w')"
  shows "lru_step (Kill i) (abs_lru s) (abs_lru s')"
proof -
  have "abs_lru s' = \<lparr>l_hot = remove i (ids (mHotLru s)), l_cold = remove i (ids (mColdLru s)),
      l_ids = dom (mSessions s) - {i}\<rparr>"
    using inv
  proof (cases rule: kill_cases [where i = i and w = w])
    case absent
    then have "i \<notin> set (ids (mHotLru s))" "i \<notin> set (ids (mColdLru s))"
      using inv_hot_ids [OF inv, of i] inv_cold_ids [OF inv, of i] by auto
    then show ?thesis using absent k by (auto simp: abs_lru_def remove_id simp del: set_map)
  next
    case (hot m c)
    then have "i \<notin> set (ids (mColdLru s))" using inv_cold_ids [OF inv, of i] by (auto simp: swapped_def)
    then show ?thesis using hot k by (auto simp: abs_lru_def ids_without remove_id simp del: set_map)
  next
    case (cold m)
    then have "i \<notin> set (ids (mHotLru s))" using inv_hot_ids [OF inv, of i] by (auto simp: swapped_def)
    then show ?thesis using cold k by (auto simp: abs_lru_def ids_without remove_id simp del: set_map)
  next
    case (fresh m)
    then have "i \<notin> set (ids (mHotLru s))" "i \<notin> set (ids (mColdLru s))"
      using inv_hot_ids [OF inv, of i] inv_cold_ids [OF inv, of i] by (auto simp: swapped_def)
    then show ?thesis using fresh k by (auto simp: abs_lru_def remove_id simp del: set_map)
  qed
  then show ?thesis using lru_step.kill [of i "abs_lru s"] by (simp add: abs_lru_def)
qed

lemma activate_sim:
  assumes inv: "sm_inv s" and a: "activateForInfer e i s w = Inr (r, s', w')"
  shows "lru_step (Activate i) (abs_lru s) (abs_lru s')"
  using inv
proof (cases rule: activate_spec [where e = e and i = i and w = w])
  case absent
  then show ?thesis using a lru_step.absent [of i "abs_lru s"] by (auto simp: abs_lru_def)
next
  case (hot m c)
  then have "i \<in> set (l_hot (abs_lru s))" using inv_hot_ids [OF inv, of i] by (simp add: abs_lru_def)
  then show ?thesis
    using lru_step.hit [of i "abs_lru s"] abs_touched [OF hot(1)] hot(4) a by (simp add: abs_lru_def)
next
  case (dangling m)
  then show ?thesis using a by simp
next
  case (cold m k s1 w1 r1 s2 w2)
  have eq: "r1 = r" "s2 = s'" using cold a by auto
  have i: "i \<in> l_ids (abs_lru s) - set (l_hot (abs_lru s))"
    using cold(1,2) inv_hot_ids [OF inv, of i] by (auto simp: abs_lru_def simp del: set_map)
  note steps = evictHot_sim [OF inv cold(3)]
  show ?thesis
  proof (cases "r = None")
    case True
    then have "abs_lru s' = abs_lru s1" using cold(9-11) eq by (simp add: abs_lru_def)
    then show ?thesis using lru_step.failed [OF i steps] by simp
  next
    case False
    then have "i \<in> l_ids (abs_lru s1)" using cold(12) eq by (auto simp: abs_lru_def)
    moreover have "abs_lru s' = (abs_lru s1)
        \<lparr>l_hot := l_hot (abs_lru s1) @ [i], l_cold := remove i (l_cold (abs_lru s1))\<rparr>"
      using False cold(9-11) eq by (cases r) (simp_all add: abs_lru_def ids_without)
    ultimately show ?thesis using lru_step.miss [OF i steps] by simp
  qed
qed

lemma record_sim:
  assumes inv: "sm_inv s" and r: "recordTokens e i ts s w = Inr (s', w')"
  shows "lru_step (Record i ts) (abs_lru s) (abs_lru s')"
proof (cases "mSessions s i")
  case None
  then have "i \<notin> set (l_hot (abs_lru s))" using inv_hot_ids [OF inv, of i] by (simp add: abs_lru_def)
  then show ?thesis using lru_step.record_other r None by (simp add: recordTokens_def)
next
  case (Some m)
  let ?m = "m\<lparr>m_tokens := m_tokens m @ ts\<rparr>" let ?s = "put_session i ?m s"
  have inv1: "sm_inv ?s" by (rule inv_put_same [OF inv Some]) simp_all
  have abs: "abs_lru ?s = abs_lru s" using Some by (auto simp: abs_lru_def)
  have m1: "mSessions ?s i = Some ?m" by simp
  have hot: "i \<in> set (l_hot (abs_lru s)) \<longleftrightarrow> m_state m = HOT"
    using inv_hot_ids [OF inv, of i] Some by (simp add: abs_lru_def)
  show ?thesis
  proof (cases "m_state m")
    case HOT
    then have "touchHot e i ?s w = Inr (touched i ?m (env_now e w) ?s, NowMs (env_now e w) # w)"
      using touch_spec(1) [OF inv1 m1] by simp
    then have "s' = touched i ?m (env_now e w) ?s"
      using r Some HOT by (simp add: recordTokens_def)
    then show ?thesis
      using abs_touched [OF m1, of "env_now e w"] abs hot HOT lru_step.record_hot [of i "abs_lru s" ts]
      by (simp add: abs_lru_def)
  next
    case COLD
    then show ?thesis
      using r Some abs hot lru_step.record_other [of i "abs_lru s" ts] by (auto simp: recordTokens_def)
  qed
qed

lemma sm_exec_sim:
  assumes inv: "sm_inv s" and x: "sm_exec e c (s, w) = Inr (s', w')"
  shows "lru_step c (abs_lru s) (abs_lru s')"
proof (cases c)
  case (Create i)
  have "abs_lru s' = (abs_lru s)\<lparr>l_ids := insert i (l_ids (abs_lru s))\<rparr>"
    using x Create by (auto simp: createSession_def now_ms_def abs_lru_def split: if_splits)
  then show ?thesis using lru_step.create Create by simp
next
  case (Kill i)
  then show ?thesis using x kill_sim [OF inv] by (auto simp: bindR_Inr_iff)
next
  case (Activate i)
  then show ?thesis using x activate_sim [OF inv] by (auto simp: bindR_Inr_iff)
next
  case (Record i ts)
  then show ?thesis using x record_sim [OF inv] by auto
next
  case (SetHotLimit h)
  then have "evictHotIfNeeded e (- 1) (s\<lparr>mHotLimit := max 1 h\<rparr>) w = Inr (s', w')"
    using x by (simp add: setHotLimit_def)
  from evictHot_sim [OF inv_limits(2) [OF inv max_1_size_t] this]
  have "(swap_step (- 1))\<^sup>*\<^sup>* (abs_lru s) (abs_lru s')" by (simp add: abs_lru_def)
  then show ?thesis using SetHotLimit lru_step.hot_limit by simp
next
  case (SetColdLimit b)
  have r: "setColdLimit b s w = Inr (s', w')" using x SetColdLimit by simp
  obtain k where ev: "evicted (set (take k (cold_victims (- 1) s))) (s\<lparr>mColdLimitBytes := b\<rparr>) s'"
    by (rule setColdLimit_spec [OF inv, of b w]) (use r in simp)
  define K where "K = set (take k (remove (- 1) (l_cold (abs_lru s))))"
  have "evicted K (s\<lparr>mColdLimitBytes := b\<rparr>) s'" using ev by (simp add: K_def cold_victims_def abs_lru_def)
  from evictedD [OF this] have "abs_lru s' = (abs_lru s)
      \<lparr>l_cold := filter (\<lambda>j. j \<notin> K) (l_cold (abs_lru s)), l_ids := l_ids (abs_lru s) - K\<rparr>"
    by (auto simp: abs_lru_def filter_map o_def)
  then show ?thesis using lru_step.cold_limit [OF K_def] SetColdLimit by simp
qed

subsection \<open>The bound on HOT sessions\<close>

text \<open>
  At most \<open>mHotLimit\<close> sessions hold a context, provided every save succeeds and no session has the id
  \<open>-1\<close>, which \<open>evictHotIfNeeded\<close> uses for "no victim".
\<close>

definition hot_bound :: "session_manager \<Rightarrow> bool" where
  "hot_bound s \<longleftrightarrow> length (mHotLru s) \<le> unat (mHotLimit s) \<and> - 1 \<notin> dom (mSessions s)"

inductive_cases swap_stepE: "swap_step x a b"
inductive_simps lru_create_iff: "lru_step (Create i) a b"
inductive_simps lru_kill_iff: "lru_step (Kill i) a b"
inductive_cases lru_activateE: "lru_step (Activate i) a b"

lemma swap_step_ids: "(swap_step x)\<^sup>*\<^sup>* a b \<Longrightarrow> l_ids b \<subseteq> l_ids a"
  by (induction rule: rtranclp_induct) (auto elim!: swap_stepE)

lemma swap_step_hot: "(swap_step x)\<^sup>*\<^sup>* a b \<Longrightarrow> set (l_hot b) \<subseteq> set (l_hot a)"
  by (induction rule: rtranclp_induct) (auto elim!: swap_stepE)

text \<open>The abstract cache by itself: no id is in two places, and every listed id is known.\<close>

definition lru_wf :: "lru \<Rightarrow> bool" where
  "lru_wf a \<longleftrightarrow> distinct (l_hot a @ l_cold a) \<and> set (l_hot a @ l_cold a) \<subseteq> l_ids a"

lemma swap_step_wf:
  assumes "swap_step x a b" "lru_wf a" shows "lru_wf b"
proof -
  obtain us v vs j where b: "l_hot a = us @ v # vs" "b = \<lparr>l_hot = us @ vs, l_cold = drop j (l_cold a) @ [v],
      l_ids = l_ids a - set (take j (l_cold a))\<rparr>" using assms(1) by (rule swap_stepE)
  have "set (take j (l_cold a)) \<inter> set (drop j (l_cold a)) = {}"
    using assms(2) by (simp add: lru_wf_def set_take_disj_set_drop_if_distinct)
  moreover have "set (take j (l_cold a)) \<subseteq> set (l_cold a)" "set (drop j (l_cold a)) \<subseteq> set (l_cold a)"
    by (rule set_take_subset, rule set_drop_subset)
  ultimately show ?thesis using assms(2) b by (auto simp: lru_wf_def)
qed

lemma swap_steps_wf: "(swap_step x)\<^sup>*\<^sup>* a b \<Longrightarrow> lru_wf a \<Longrightarrow> lru_wf b"
  by (induction rule: rtranclp_induct) (auto intro: swap_step_wf)

lemma lru_step_wf: "lru_step c a b \<Longrightarrow> lru_wf a \<Longrightarrow> lru_wf b"
proof (induction rule: lru_step.induct)
  case (miss i a b)
  then show ?case using swap_steps_wf [OF miss(2)] swap_step_hot [OF miss(2)] by (auto simp: lru_wf_def)
next
  case (failed i a b)
  then show ?case using swap_steps_wf by blast
next
  case (hot_limit a b h)
  then show ?case using swap_steps_wf by blast
qed (auto simp: lru_wf_def disjoint_iff dest!: in_set_takeD)

lemma activated_last: "lru_step (Activate i) a b \<Longrightarrow> lru_wf a \<Longrightarrow> i \<in> set (l_hot b) \<Longrightarrow> last (l_hot b) = i"
  by (erule lru_activateE) (auto simp: lru_wf_def dest: swap_step_hot)

lemma lru_step_ids: "lru_step c a b \<Longrightarrow> l_ids b \<subseteq> l_ids a \<union> {i. c = Create i}"
  by (erule lru_step.cases) (auto dest: swap_step_ids)

lemma inv_minus_one: "sm_inv s \<Longrightarrow> - 1 \<notin> dom (mSessions s) \<Longrightarrow> - 1 \<notin> set (ids (mHotLru s))"
  using inv_hot_ids [of s "- 1"] by auto

lemma hot_bound_exec:
  assumes inv: "sm_inv s" and b: "hot_bound s" and ok: "saves_succeed e" "c \<noteq> Create (- 1)"
    and x: "sm_exec e c (s, w) = Inr (s', w')"
  shows "hot_bound s'"
proof -
  have none: "- 1 \<notin> dom (mSessions s)" using b by (simp add: hot_bound_def)
  have len: "length (mHotLru s) \<le> unat (mHotLimit s)" using b by (simp add: hot_bound_def)
  note no = inv_minus_one [OF inv none]
  have "- 1 \<notin> dom (mSessions s')"
    using lru_step_ids [OF sm_exec_sim [OF inv x]] none ok(2) by (auto simp: abs_lru_def)
  moreover have "length (mHotLru s') \<le> unat (mHotLimit s')"
  proof (cases c)
    case (Create i)
    then show ?thesis using x len by (auto simp: createSession_def now_ms_def split: if_splits)
  next
    case (Kill i)
    then have "length (mHotLru s') \<le> length (mHotLru s)"
      using x by (auto simp: bindR_Inr_iff dest: killSession_hot_shrinks)
    moreover have "mHotLimit s' = mHotLimit s"
      using x Kill by (auto simp: killSession_def bindR_Inr_iff split: option.splits if_splits)
    ultimately show ?thesis using len by simp
  next
    case (Activate i)
    have a: "\<exists>r. activateForInfer e i s w = Inr (r, s', w')" using x Activate by (auto simp: bindR_Inr_iff)
    show ?thesis
      using inv
    proof (cases rule: activate_spec [where e = e and i = i and w = w])
      case (hot m c)
      then have "length (without i (mHotLru s)) < length (mHotLru s)"
        using inv_hot_ids [OF inv, of i] by (auto intro: length_filter_less)
      then show ?thesis using a hot len by (auto simp: touched_def)
    next
      case (cold m k s1 w1 r1 s2 w2)
      have "length (ids (mHotLru s2)) \<le> Suc (length (mHotLru s1))" unfolding cold(9) by simp
      then show ?thesis using cold(5,6,8) ok(1) no a by (auto simp: same_config_def)
    qed (use a len in auto)
  next
    case (Record i ts)
    have "mHotLimit s' = mHotLimit s" and "length (mHotLru s') \<le> length (mHotLru s)"
      using x Record by (auto simp: recordTokens_def touchHot_def now_ms_def Let_def bindR_Inr_iff
          dest!: erase_shorter split: option.splits if_splits)
    then show ?thesis using len by simp
  next
    case (SetHotLimit h)
    have r: "setHotLimit e h s w = Inr (s', w')" using x SetHotLimit by simp
    obtain k where k: "mHotLimit s' = max 1 h"
      "mHotLru s' = filter (\<lambda>p. snd p \<notin> set (take k (hot_victims (- 1) s))) (mHotLru s)"
      "hot_settled (- 1) s'"
      by (rule setHotLimit_spec [OF inv, of e h w]) (use r ok(1) no in simp)
    have "- 1 \<notin> set (ids (mHotLru s'))" using no unfolding k(2) by auto
    then have "set (ids (mHotLru s')) \<subseteq> {- 1} \<Longrightarrow> mHotLru s' = []" by (cases "mHotLru s'") auto
    then show ?thesis using k(3) unfolding hot_settled_def by fastforce
  next
    case (SetColdLimit n)
    have r: "setColdLimit n s w = Inr (s', w')" using x SetColdLimit by simp
    obtain K where "evicted K (s\<lparr>mColdLimitBytes := n\<rparr>) s'"
      by (rule setColdLimit_spec [OF inv, of n w]) (use r in simp)
    from evictedD [OF this] show ?thesis using len by (simp add: same_config_def)
  qed
  ultimately show ?thesis by (simp add: hot_bound_def)
qed

lemma hot_bound_init: "hot_bound (SessionManager model params dir)"
  by (simp add: hot_bound_def SessionManager_def)

interpretation sm_bounded: machine "sm_exec e" "\<lambda>(s, w). sm_inv s \<and> res_inv s w \<and> hot_bound s"
  "\<lambda>c. fresh_init e \<and> saves_succeed e \<and> c \<noteq> Create (- 1)" "\<lambda>f. f = DanglingReference" for e
proof unfold_locales
  fix x c y
  assume "case x of (s, w) \<Rightarrow> sm_inv s \<and> res_inv s w \<and> hot_bound s"
    "fresh_init e \<and> saves_succeed e \<and> c \<noteq> Create (- 1)" "sm_exec e c x = Inr y"
  then show "case y of (s, w) \<Rightarrow> sm_inv s \<and> res_inv s w \<and> hot_bound s"
    using sm_exec_keeps [of e x c y] hot_bound_exec [of "fst x" e c "snd x" "fst y" "snd y"]
    by (auto simp: sm_ok_def)
qed (use sm_exec_fault in fastforce)

end
