(* ===== verification/Session_Swap.thy ===== *)
theory Session_Swap
  imports Session_Spec
begin

text \<open>
  A session survives the trip to its swap file: the tokens of a session that is swapped out, and
  activated again after any calls that do not name it, are the tokens it had, except the oldest ones
  when \<open>swapOut\<close> pruned them for the COLD limit.
\<close>

subsection \<open>What the other calls leave alone\<close>

definition stored :: "int \<Rightarrow> llama_token list \<Rightarrow> session_manager \<Rightarrow> history \<Rightarrow> bool" where
  \<comment> \<open>session \<open>i\<close> is in its swap file, which holds \<open>ts\<close>\<close>
  "stored i ts s w \<longleftrightarrow>
     (\<exists>m. mSessions s i = Some m \<and> swapped m \<and> saved w (swapPathFor s i) = Some ts)"

definition kept :: "int \<Rightarrow> llama_token list \<Rightarrow> session_manager \<Rightarrow> history \<Rightarrow> bool" where
  \<comment> \<open>in its swap file, or killed\<close>
  "kept i ts s w \<longleftrightarrow> mSessions s i = None \<or> stored i ts s w"

lemma path_config: "same_config s s' \<Longrightarrow> swapPathFor s' i = swapPathFor s i"
  by (simp add: swapPathFor_def same_config_def)

lemma kept_config:
  "kept i ts s w \<Longrightarrow> mSessions s' i = mSessions s i \<Longrightarrow> mSwapDir s' = mSwapDir s \<Longrightarrow>
    (mSessions s i \<noteq> None \<Longrightarrow> saved w' (swapPathFor s i) = saved w (swapPathFor s i)) \<Longrightarrow> kept i ts s' w'"
  by (auto simp: kept_def stored_def swapPathFor_def)

lemma kill_kept:
  assumes inv: "sm_inv s" and kept: "kept i ts s w" and k: "killSession v s w = Inr (ok, s', w')"
  shows "sm_inv s' \<and> kept i ts s' w'"
proof (cases "v = i")
  case True
  from inv have "mSessions s' i = None \<and> sm_inv s'"
    by (cases rule: kill_cases [where i = v and w = w]) (use True inv k in auto)
  then show ?thesis by (simp add: kept_def)
next
  case False
  then have p: "swapPathFor s v \<noteq> swapPathFor s i" by (simp add: swapPath_inj)
  from inv show ?thesis
    by (cases rule: kill_cases [where i = v and w = w])
      (use False p inv k in \<open>auto intro: kept_config [OF kept]\<close>)
qed

lemma evictCold_kept:
  "evictColdIfNeeded x s w = Inr (s', w') \<Longrightarrow> sm_inv s \<Longrightarrow> kept i ts s w \<Longrightarrow> sm_inv s' \<and> kept i ts s' w'"
  using evictCold_loop_rule [where P = "\<lambda>s w. sm_inv s \<and> kept i ts s w"] kill_kept
  unfolding evictColdIfNeeded_def by blast

text \<open>The last successful save of the loop in \<open>swapOut\<close> is of the tokens that stay.\<close>

lemma swapOut_loop_saved:
  assumes "m_ctx m = Some c" and "swapOut_loop e path u l m w = Inr (res, m', w')"
  shows "(res \<noteq> None \<longrightarrow> saved w' path = Some (m_tokens m')) \<and> (f \<noteq> path \<longrightarrow> saved w' f = saved w f)"
  using assms
proof (induction "length (m_tokens m)" arbitrary: m w rule: less_induct)
  case less
  define n where "n = env_save e w c path (m_tokens m)"
  define w1 where "w1 = SeqSave c path (m_tokens m) n # w"
  define b where "b = env_size e w1 c"
  define w2 where "w2 = SeqGetSize c b # w1"
  define k where "k = prune_amount (length (m_tokens m))"
  have eq: "swapOut_loop e path u l m w =
      (if n = 0 then Inr (None, m, w1)
       else if b + u \<le> l \<or> length (m_tokens m) \<le> kMinKeepTokens then Inr (Some b, m, w2)
       else bindR (pruneOldestTokens m k w2)
              (\<lambda>(meta', w3). swapOut_loop e path u l meta' w3))"
    using less.prems(1)
    by (simp add: swapOut_loop.simps [of e path u l m w] n_def w1_def b_def w2_def k_def Let_def)
  show ?case
  proof (cases "n = 0 \<or> b + u \<le> l \<or> length (m_tokens m) \<le> kMinKeepTokens")
    case True
    then show ?thesis
      using less.prems(2) unfolding eq by (auto simp: w2_def w1_def split: if_splits)
  next
    case False
    define m1 where "m1 = m\<lparr>m_tokens := drop k (m_tokens m)\<rparr>"
    have long: "kMinKeepTokens < length (m_tokens m)" using False by simp
    note P = prune_spec [OF less.prems(1) long, folded k_def, folded m1_def]
    have "swapOut_loop e path u l m1
        (SeqAdd c (to_int32 (int k)) (- 1) (- to_int32 (int k)) # SeqRm c 0 (to_int32 (int k)) # w2)
        = Inr (res, m', w')"
      using less.prems(2) False P(1) [of w2] unfolding eq by simp
    moreover have "length (m_tokens m1) < length (m_tokens m)" "m_ctx m1 = Some c"
      using P(2,3) long less.prems(1) by (auto simp: m1_def)
    ultimately have "(res \<noteq> None \<longrightarrow> saved w' path = Some (m_tokens m')) \<and>
        (f \<noteq> path \<longrightarrow> saved w' f = saved
          (SeqAdd c (to_int32 (int k)) (- 1) (- to_int32 (int k)) # SeqRm c 0 (to_int32 (int k)) # w2) f)"
      using less.hyps by blast
    then show ?thesis by (simp add: w2_def w1_def)
  qed
qed

lemma swapOut_kept:
  assumes inv: "sm_inv s" and v: "v \<in> set (ids (mHotLru s))" "v \<noteq> i" and kept: "kept i ts s w"
    and out: "swapOut e v s w = Inr (ok, s', w')"
  shows "sm_inv s' \<and> kept i ts s' w'"
proof -
  obtain m where m: "mSessions s v = Some m" "m_state m = HOT" using inv_hot_ids [OF inv] v(1) by blast
  have p: "swapPathFor s i \<noteq> swapPathFor s v" using v(2) by (auto simp: swapPath_inj)
  show ?thesis
    using inv m
  proof (cases rule: swapOut_mid [where e = e and w = w])
    case (mid c res k w1)
    have sv: "saved w1 (swapPathFor s i) = saved w (swapPathFor s i)"
      using swapOut_loop_saved [OF mid(1,2)] p by blast
    show ?thesis
    proof (cases res)
      case None
      have "sm_inv (put_session v (m\<lparr>m_tokens := drop k (m_tokens m)\<rparr>) s)"
        by (rule inv_put_same [OF inv m(1)]) simp_all
      then show ?thesis
        using mid(6) [OF None] out v(2) sv by (auto intro: kept_config [OF kept])
    next
      case (Some b)
      have "kept i ts (swapped_out v m k b s) (LlamaFree c # w1)"
        by (rule kept_config [OF kept]) (use v(2) sv in \<open>auto simp: swapped_out_def\<close>)
      moreover have "evictColdIfNeeded v (swapped_out v m k b s) (LlamaFree c # w1) = Inr (s', w')"
        using out unfolding mid(7) [OF Some] by (auto simp: bindR_Inr_iff)
      ultimately show ?thesis using evictCold_kept mid(8) by blast
    qed
  qed
qed

lemma kept_not_hot: "sm_inv s \<Longrightarrow> kept i ts s w \<Longrightarrow> i \<notin> set (ids (mHotLru s))"
  using inv_hot_ids [of s i] by (auto simp: kept_def stored_def swapped_def)

lemma evictHot_kept:
  assumes "evictHotIfNeeded e x s w = Inr (s', w')" "sm_inv s" "kept i ts s w"
  shows "sm_inv s' \<and> kept i ts s' w'"
proof (rule evictHot_rule [OF assms(1), where P = "\<lambda>s w. sm_inv s \<and> kept i ts s w"])
  fix v vs s w ok s' w'
  assume "sm_inv s \<and> kept i ts s w" "hot_victims x s = v # vs" "swapOut e v s w = Inr (ok, s', w')"
  then show "sm_inv s' \<and> kept i ts s' w'"
    using swapOut_kept [of s v i ts w e ok s' w'] hot_victims_hd [of x s v vs] kept_not_hot [of s i ts w]
    by blast
qed (use assms in blast)

lemma swapIn_kept:
  assumes inv: "sm_inv s" and j: "mSessions s j = Some m" "swapped m" "j \<noteq> i"
    and kept: "kept i ts s w" and sw: "swapIn e j c s w = Inr (ok, s', w')"
  shows "kept i ts s' w'"
proof -
  have p: "m_swapFilePath m \<noteq> swapPathFor s i"
    using inv_meta [OF inv j(1)] j by (simp add: meta_ok_def swapPath_inj)
  obtain ld wr k where l: "env_load e w c (m_swapFilePath m) (unat (n_ctx (mCtxParams s))) = (ld, wr, k)"
    by (metis prod_cases3)
  show ?thesis
    by (rule kept_config [OF kept])
      (use sw j p l in \<open>auto simp: swapIn_def Let_def bindR_Inr_iff split: if_splits\<close>)
qed

lemma make_hot_kept:
  "make_hot e j c s w = Inr (s', w') \<Longrightarrow> j \<noteq> i \<Longrightarrow> kept i ts s w \<Longrightarrow> kept i ts s' w'"
  by (erule kept_config)
    (auto simp: make_hot_def now_ms_def Let_def split: option.splits)

lemma activate_kept:
  assumes inv: "sm_inv s" and kept: "kept i ts s w" and j: "j \<noteq> i"
    and a: "activateForInfer e j s w = Inr (r, s', w')"
  shows "kept i ts s' w'"
proof (cases "\<exists>m. mSessions s j = Some m \<and> m_state m = COLD")
  case False
  show ?thesis
    using inv
  proof (cases rule: activate_spec [where e = e and i = j and w = w])
    case (hot m c)
    then show ?thesis using a j by (auto simp: touched_def intro: kept_config [OF kept])
  qed (use False a kept in \<open>auto simp: swapped_def\<close>)
next
  case True
  then obtain m where m: "mSessions s j = Some m" "m_state m = COLD" by blast
  then obtain s1 w1 where ev: "evictHotIfNeeded e j s w = Inr (s1, w1)"
    using a by (auto simp: activateForInfer_def bindR_Inr_iff)
  note K = evictHot_kept [OF ev inv kept]
  define w2 where "w2 = LlamaInit (mModel s1) (mCtxParams s1) (env_init e w1 (mModel s1) (mCtxParams s1)) # w1"
  have k2: "kept i ts s1 w2" using K by (auto simp: w2_def intro: kept_config)
  show ?thesis
  proof (cases "env_init e w1 (mModel s1) (mCtxParams s1)")
    case None
    then show ?thesis using a m ev k2 by (auto simp: activateForInfer_def w2_def)
  next
    case (Some c)
    obtain m1 where m1: "mSessions s1 j = Some m1"
      using a m ev Some by (auto simp: activateForInfer_def Let_def split: option.splits)
    have C: "m_state m1 = COLD"
      using evictHot_spec [OF inv, of e j w] ev m m1 by auto
    have rest: "bindR (if m_swapFilePath m1 \<noteq> [] then swapIn e j c s1 w2 else Inr (True, s1, w2))
        (\<lambda>(ok, s2, w3). if ok then bindR (make_hot e j c s2 w3) (\<lambda>(s3, w4). Inr (Some c, s3, w4))
                         else Inr (None, s2, w3)) = Inr (r, s', w')"
      using a m ev Some m1 by (simp add: activateForInfer_def w2_def Let_def cong: if_cong)
    then obtain ok s2 w3 where S: "(if m_swapFilePath m1 \<noteq> [] then swapIn e j c s1 w2 else Inr (True, s1, w2))
        = Inr (ok, s2, w3)" by (auto simp: bindR_Inr_iff)
    have "kept i ts s2 w3"
    proof (cases "m_swapFilePath m1 = []")
      case True
      then show ?thesis using S k2 by simp
    next
      case False
      then show ?thesis
        using S swapIn_kept [OF _ m1 _ j k2] K C by (auto simp: swapped_def)
    qed
    then show ?thesis using rest S j make_hot_kept by (auto simp: bindR_Inr_iff split: if_splits)
  qed
qed

fun about :: "sm_call \<Rightarrow> int option" where
  "about (Create i) = Some i"
| "about (Kill i) = Some i"
| "about (Activate i) = Some i"
| "about (Record i ts) = Some i"
| "about (SetHotLimit h) = None"
| "about (SetColdLimit b) = None"

lemma exec_kept:
  assumes inv: "sm_inv s" and kept: "kept i ts s w" and c: "about c \<noteq> Some i"
    and x: "sm_exec e c (s, w) = Inr (s', w')"
  shows "kept i ts s' w'"
proof (cases c)
  case (Create j)
  then show ?thesis
    using x c by (auto simp: createSession_def now_ms_def split: if_splits intro: kept_config [OF kept])
next
  case (Kill j)
  then show ?thesis using x kill_kept [OF inv kept] by (auto simp: bindR_Inr_iff)
next
  case (Activate j)
  then show ?thesis using x c activate_kept [OF inv kept] by (auto simp: bindR_Inr_iff)
next
  case (Record j us)
  then have "j \<noteq> i" using c by simp
  then show ?thesis
    using x Record
    by (auto simp: recordTokens_def touchHot_def now_ms_def Let_def bindR_Inr_iff
        split: option.splits if_splits intro: kept_config [OF kept])
next
  case (SetHotLimit h)
  have "kept i ts (s\<lparr>mHotLimit := max 1 h\<rparr>) w" by (rule kept_config [OF kept]) simp_all
  then show ?thesis
    using x SetHotLimit evictHot_kept [OF _ inv_limits(2) [OF inv max_1_size_t]]
    by (simp add: setHotLimit_def)
next
  case (SetColdLimit b)
  have "kept i ts (s\<lparr>mColdLimitBytes := b\<rparr>) w" by (rule kept_config [OF kept]) simp_all
  then show ?thesis
    using x SetColdLimit evictCold_kept [OF _ inv_limits(1) [OF inv]]
    by (simp add: setColdLimit_def)
qed

lemma exec_inv:
  assumes inv: "sm_inv s" and x: "sm_exec e c (s, w) = Inr (s', w')"
  shows "sm_inv s'"
proof (cases c)
  case (Create i)
  then have "createSession e i s w = (fst (createSession e i s w), s', w')"
    using x by (simp add: prod_eq_iff)
  then show ?thesis by (rule create_inv [OF inv])
next
  case (Kill i)
  then show ?thesis using x kill_total [OF inv, of i w] by auto
next
  case (Activate i)
  show ?thesis
    using inv
    by (cases rule: activate_spec [where e = e and i = i and w = w]) (use x Activate inv in auto)
next
  case (Record i ts)
  then show ?thesis using x record_spec [OF inv, of e i ts w] by auto
next
  case (SetHotLimit h)
  show ?thesis by (rule setHotLimit_spec [OF inv, of e h w]) (use x SetHotLimit in simp)
next
  case (SetColdLimit b)
  show ?thesis by (rule setColdLimit_spec [OF inv, of b w]) (use x SetColdLimit in simp)
qed

lemma run_kept:
  assumes "runR (sm_exec e) cs (s, w) = Inr (s', w')" "sm_inv s" "kept i ts s w" "Some i \<notin> about ` set cs"
  shows "sm_inv s' \<and> kept i ts s' w'"
  using assms
proof (induction cs arbitrary: s w)
  case (Cons c cs)
  from Cons.prems(1) obtain s1 w1
    where x: "sm_exec e c (s, w) = Inr (s1, w1)" and r: "runR (sm_exec e) cs (s1, w1) = Inr (s', w')"
    by (auto simp: bindR_Inr_iff)
  have c: "about c \<noteq> Some i" "Some i \<notin> about ` set cs" using Cons.prems(4) by auto
  show ?case
    by (rule Cons.IH [OF r exec_inv [OF Cons.prems(2) x] exec_kept [OF Cons.prems(2,3) c(1) x] c(2)])
qed simp

subsection \<open>The round trip\<close>

lemma swapOut_stored:
  assumes inv: "sm_inv s" and i: "mSessions s i = Some m" "m_state m = HOT"
    and out: "swapOut e i s w = Inr (True, s', w')"
  obtains k where "kept i (drop k (m_tokens m)) s' w'" "k = 0 \<or> kMinKeepTokens \<le> length (m_tokens m) - k"
  using inv i
proof (cases rule: swapOut_mid [where e = e and w = w])
  case (mid c res k w1)
  then obtain b where b: "res = Some b" using out by (cases res) auto
  let ?s = "swapped_out i m k b s"
  have "stored i (drop k (m_tokens m)) ?s (LlamaFree c # w1)"
    using swapOut_loop_saved [OF mid(1,2)] b
    by (simp add: stored_def swapped_out_def swapped_def swapPathFor_def)
  then have "kept i (drop k (m_tokens m)) ?s (LlamaFree c # w1)" by (simp add: kept_def)
  moreover have "evictColdIfNeeded i ?s (LlamaFree c # w1) = Inr (s', w')"
    using out unfolding mid(7) [OF b] by (auto simp: bindR_Inr_iff)
  ultimately have "kept i (drop k (m_tokens m)) s' w'" using evictCold_kept mid(8) by blast
  then show thesis using that mid(3) by blast
qed

lemma activate_restores:
  assumes inv: "sm_inv s" and kept: "kept i ts s w" and loads: "loads_back e"
    and a: "activateForInfer e i s w = Inr (Some c, s', w')"
  shows "\<exists>m. mSessions s' i = Some m \<and> m_state m = HOT \<and> m_ctx m = Some c \<and> m_tokens m = ts"
proof -
  have "mSessions s i \<noteq> None" using a by (auto simp: activateForInfer_def split: option.splits)
  then obtain m where m: "mSessions s i = Some m" "swapped m"
    using kept by (auto simp: kept_def stored_def)
  then have C: "m_state m = COLD" by (simp add: swapped_def)
  then obtain s1 w1 where ev: "evictHotIfNeeded e i s w = Inr (s1, w1)"
    using a m by (auto simp: activateForInfer_def bindR_Inr_iff)
  note K = evictHot_kept [OF ev inv kept]
  define w2 where "w2 = LlamaInit (mModel s1) (mCtxParams s1) (Some c) # w1"
  have ini: "env_init e w1 (mModel s1) (mCtxParams s1) = Some c" and in1: "mSessions s1 i \<noteq> None"
    using a m C ev by (auto simp: activateForInfer_def Let_def bindR_Inr_iff split: option.splits if_splits)
  then have "stored i ts s1 w1" using K by (auto simp: kept_def)
  then obtain m1 where m1: "mSessions s1 i = Some m1" "swapped m1" "saved w2 (swapPathFor s1 i) = Some ts"
    by (auto simp: stored_def w2_def)
  have path: "m_swapFilePath m1 = swapPathFor s1 i" "m_swapFilePath m1 \<noteq> []"
    using inv_meta [OF conjunct1 [OF K] m1(1)] m1(2) by (auto simp: meta_ok_def swapped_def)
  obtain s2 w3 where S: "swapIn e i c s1 w2 = Inr (True, s2, w3)" "make_hot e i c s2 w3 = Inr (s', w')"
    using a m C ev ini m1(1) path(2)
    by (auto simp: activateForInfer_def w2_def Let_def bindR_Inr_iff split: if_splits)
  define n where "n = unat (n_ctx (mCtxParams s1))"
  obtain ld wr k where l: "env_load e w2 c (m_swapFilePath m1) n = (ld, wr, k)"
    by (metis prod_cases3)
  have "ld \<noteq> 0" using S(1) m1(1) l by (auto simp: swapIn_def n_def [symmetric])
  then have fit: "length ts \<le> n" "wr = ts" "k = length ts"
    using loads l m1(3) path(1) unfolding loads_back_def by metis+
  have "resize k 0 (load_buffer n (m_tokens m1) wr) = ts"
    using fit by (simp add: load_buffer_def resize_def)
  then obtain m2 where "mSessions s2 i = Some m2" "m_tokens m2 = ts"
    using S(1) m1(1) l by (auto simp: swapIn_def n_def [symmetric] Let_def bindR_Inr_iff split: if_splits)
  then show ?thesis using S(2) by (auto simp: make_hot_def now_ms_def Let_def)
qed

lemma swap_trip:
  assumes "sm_inv s" "mSessions s i = Some m" "m_state m = HOT"
    and "swapOut e i s w = Inr (True, s1, w1)"
    and "runR (sm_exec e) cs (s1, w1) = Inr (s2, w2)" "Some i \<notin> about ` set cs"
    and "loads_back e" "activateForInfer e i s2 w2 = Inr (Some c, s3, w3)"
  shows "\<exists>m' k. mSessions s3 i = Some m' \<and> m_tokens m' = drop k (m_tokens m) \<and>
    (k = 0 \<or> kMinKeepTokens \<le> length (m_tokens m) - k)"
proof -
  obtain k where k: "kept i (drop k (m_tokens m)) s1 w1" "k = 0 \<or> kMinKeepTokens \<le> length (m_tokens m) - k"
    using assms(1-4) by (rule swapOut_stored)
  have "sm_inv s1" using assms(1-3)
    by (cases rule: swapOut_cases [where e = e and w = w]) (use assms(4) in auto)
  then have "sm_inv s2 \<and> kept i (drop k (m_tokens m)) s2 w2" using run_kept assms(5,6) k(1) by blast
  then show ?thesis using activate_restores assms(7,8) k(2) by blast
qed

end
