(* ===== verification/Session_Props.thy ===== *)
theory Session_Props
  imports Session_Swap
begin

text \<open>
  The properties of \<open>SessionManager\<close>, each with a run of the manager to which it applies.  The runs
  use the concrete library \<open>demo_env\<close>; every state file has the size given to it.
\<close>

subsection \<open>Runs\<close>

definition demo_start :: "session_manager \<times> history" where
  "demo_start = (SessionManager 0 demo_ctx_params ''/swap'', [])"

definition sm_run :: "size_t \<Rightarrow> sm_call list \<Rightarrow> (session_manager \<times> history) result" where
  "sm_run bytes cs = runR (sm_exec (demo_env bytes)) cs demo_start"

definition fill :: "sm_call list" where
  \<comment> \<open>four sessions take turns: three stay HOT, the first is swapped out\<close>
  "fill = [Create 1, Create 2, Create 3, Create 4, Activate 1, Record 1 [5, 6, 7],
           Activate 2, Activate 3, Activate 4]"

definition observe :: "(session_manager \<Rightarrow> history \<Rightarrow> bool) \<Rightarrow> (session_manager \<times> history) result \<Rightarrow> bool" where
  "observe P r = (case r of Inl f \<Rightarrow> False | Inr (s, w) \<Rightarrow> P s w)"

lemma observeE:
  assumes "observe P (sm_run b cs)"
  obtains s w where "sm_run b cs = Inr (s, w)" "P s w" "sm_reach (demo_env b) (s, w)" "sm_inv s" "res_inv s w"
proof -
  obtain s w where r: "sm_run b cs = Inr (s, w)" "P s w"
    using assms by (auto simp: observe_def split: sum.splits)
  have "sm_reach (demo_env b) (s, w)"
    using sm_reach_run [OF sm_reach.start] r(1) by (simp add: sm_run_def demo_start_def)
  then show thesis using that r sm_reach_ok [OF _ demo_fresh] by (fastforce simp: sm_ok_def)
qed

lemma sm_run_exI: "sm_run b cs = Inr (s, w) \<Longrightarrow> P s w \<Longrightarrow> \<exists>s w. sm_run b cs = Inr (s, w) \<and> P s w"
  by blast

lemma demo_fill:
  "observe (\<lambda>s w. ids (mHotLru s) = [2, 3, 4] \<and> ids (mColdLru s) = [1] \<and>
     map_option m_tokens (mSessions s 1) = Some [5, 6, 7] \<and>
     map_option m_state (mSessions s 2) = Some HOT \<and> mHotLimit s = 3) (sm_run 60 fill)"
  by code_simp

subsection \<open>Well-formedness and ownership\<close>

text \<open>
  C2: in every state a client can reach, the session map and the two LRU lists agree: the HOT list
  holds exactly the HOT sessions, the COLD list exactly the swapped ones, without repetition, every
  iterator kept in a session points to its own node, and the accounted COLD bytes are those of the
  swap files.
\<close>

theorem session_lists_agree:
  assumes "sm_reach e (s, w)" and "fresh_init e"
  shows "sm_inv s"
  using sm_reach_ok [OF assms] by (simp add: sm_ok_def)

theorem session_lists_agree_witness:
  "\<exists>s w. sm_run 60 fill = Inr (s, w) \<and> ids (mHotLru s) = [2, 3, 4] \<and> sm_inv s"
proof -
  obtain s w where r: "sm_run 60 fill = Inr (s, w)" "ids (mHotLru s) = [2, 3, 4]"
    and reach: "sm_reach (demo_env 60) (s, w)" using demo_fill by (elim observeE) simp
  show ?thesis by (rule sm_run_exI [OF r(1)]) (rule conjI [OF r(2) session_lists_agree [OF reach demo_fresh]])
qed

text \<open>
  C3: in every reachable state the live llama contexts are exactly those the HOT sessions own, each
  owned by one session; no library call ever received a freed context, none was freed twice, and the
  swap file of every swapped session exists.
\<close>

theorem contexts_owned:
  assumes "sm_reach e (s, w)" and "fresh_init e"
  shows "live w = {c. \<exists>i m. mSessions s i = Some m \<and> m_state m = HOT \<and> m_ctx m = Some c} \<and> ctx_safe w \<and>
    (\<forall>i m. mSessions s i = Some m \<and> swapped m \<longrightarrow> swapPathFor s i \<in> swap_files w)"
proof -
  have inv: "sm_inv s" and r: "res_on {} s w"
    using sm_reach_ok [OF assms] by (simp_all add: sm_ok_def res_inv_def)
  have "ctxs s = {c. \<exists>i m. mSessions s i = Some m \<and> m_state m = HOT \<and> m_ctx m = Some c}"
    using inv_meta [OF inv] by (fastforce simp: ctxs_def meta_ok_def)
  then show ?thesis
    using res_onD(1,3,5) [OF r] inv_meta [OF inv] by (fastforce simp: meta_ok_def)
qed

theorem contexts_owned_witness:
  "\<exists>s w. sm_run 60 fill = Inr (s, w) \<and> ctx_safe w \<and> swapPathFor s 1 \<in> swap_files w"
proof -
  obtain s w where r: "sm_run 60 fill = Inr (s, w)" "ids (mColdLru s) = [1]" "sm_inv s"
    and reach: "sm_reach (demo_env 60) (s, w)" using demo_fill by (elim observeE) simp
  have "1 \<in> set (ids (mColdLru s))" using r(2) by simp
  then obtain m where "mSessions s 1 = Some m" "swapped m" using inv_cold_ids [OF r(3)] by blast
  then have "ctx_safe w \<and> swapPathFor s 1 \<in> swap_files w"
    using contexts_owned [OF reach demo_fresh] by blast
  then show ?thesis by (rule sm_run_exI [OF r(1)])
qed

text \<open>
  Destroying the manager in a reachable state, in whatever order the hash map is iterated, leaves
  no live context behind and frees none twice.
\<close>

theorem destructor_frees_all:
  assumes "sm_reach e (s, w)" and "fresh_init e" and "distinct order" "set order = dom (mSessions s)"
  shows "live (SessionManager_dtor order s w) = {} \<and> ctx_safe (SessionManager_dtor order s w)"
  using sm_reach_ok [OF assms(1,2)] dtor_res [OF _ _ assms(3,4)] by (simp add: sm_ok_def)

theorem destructor_frees_all_witness:
  "\<exists>s w. sm_run 60 fill = Inr (s, w) \<and>
     (\<exists>order. live w \<noteq> {} \<and> live (SessionManager_dtor order s w) = {})"
proof -
  obtain s w where r: "sm_run 60 fill = Inr (s, w)" "ids (mHotLru s) = [2, 3, 4]" "sm_inv s" "res_inv s w"
    and reach: "sm_reach (demo_env 60) (s, w)" using demo_fill by (elim observeE) simp
  have "finite (dom (mSessions s))" using r(3) by (simp add: sm_inv_def inv_on_def)
  from finite_distinct_list [OF this] obtain order
    where o: "set order = dom (mSessions s)" "distinct order" by (elim exE conjE)
  have "2 \<in> set (ids (mHotLru s))" using r(2) by simp
  then obtain m where m: "mSessions s 2 = Some m" "m_state m = HOT" using inv_hot_ids [OF r(3)] by blast
  then obtain c where "m_ctx m = Some c" using inv_meta [OF r(3)] by (auto simp: meta_ok_def)
  then have "c \<in> live w" using m r(4) by (auto simp: res_inv_def res_on_def ctxs_def)
  then have "live w \<noteq> {}" by blast
  then have "live w \<noteq> {} \<and> live (SessionManager_dtor order s w) = {}"
    using destructor_frees_all [OF reach demo_fresh o(2,1)] by (rule conjI [OF _ conjunct1])
  then have "\<exists>order. live w \<noteq> {} \<and> live (SessionManager_dtor order s w) = {}" by (rule exI)
  then show ?thesis by (rule sm_run_exI [OF r(1)])
qed

subsection \<open>Faults\<close>

text \<open>
  C11: a call in a well-formed state ends without a fault, with one exception: \<open>activateForInfer\<close> of a
  swapped session while the HOT list is at its limit can dereference a dangling reference.  No list
  iterator is ever invalid, no null context is used, and every loop ends.
\<close>

theorem calls_do_not_fault:
  assumes "sm_inv s" and "sm_exec e c (s, w) = Inl f"
  shows "f = DanglingReference \<and> (\<exists>i m. c = Activate i \<and> mSessions s i = Some m \<and> swapped m) \<and>
    unat (mHotLimit s) \<le> length (mHotLru s)"
  using assms by (rule sm_exec_fault)

definition spill :: "sm_call list" where
  \<comment> \<open>as \<open>fill\<close>, with room for one 60-byte state file only\<close>
  "spill = SetColdLimit 100 # fill"

lemma demo_spill:
  "observe (\<lambda>s w. fault_of (sm_exec (demo_env 60) (Activate 1) (s, w)) = Some DanglingReference \<and>
     ids (mHotLru s) = [2, 3, 4]) (sm_run 60 spill)"
  by code_simp

theorem calls_do_not_fault_witness:
  "\<exists>s w. sm_run 60 spill = Inr (s, w) \<and>
     (\<exists>m. mSessions s 1 = Some m \<and> swapped m \<and> 3 \<le> length (mHotLru s))"
proof -
  obtain s w where r: "sm_run 60 spill = Inr (s, w)" "sm_inv s"
    "sm_exec (demo_env 60) (Activate 1) (s, w) = Inl DanglingReference" "ids (mHotLru s) = [2, 3, 4]"
    using demo_spill by (elim observeE) (simp add: fault_of_Some)
  have "length (ids (mHotLru s)) = length [2, 3, 4 :: int]" unfolding r(4) ..
  then have l: "3 \<le> length (mHotLru s)" by simp
  obtain m where "mSessions s 1 = Some m" "swapped m" using calls_do_not_fault [OF r(2,3)] by auto
  with l have "\<exists>m. mSessions s 1 = Some m \<and> swapped m \<and> 3 \<le> length (mHotLru s)" by blast
  then show ?thesis by (rule sm_run_exI [OF r(1)])
qed



text \<open>With the HOT list below its limit, activation of any session succeeds or reports failure.\<close>

theorem activation_below_limit:
  assumes "sm_inv s" and "length (mHotLru s) < unat (mHotLimit s)"
  shows "\<exists>r s' w'. activateForInfer e i s w = Inr (r, s', w') \<and> sm_inv s' \<and>
    set (ids (mHotLru s')) \<subseteq> insert i (set (ids (mHotLru s)))"
  using assms(1)
proof (cases rule: activate_spec [where e = e and i = i and w = w])
  case (hot m c)
  then show ?thesis by (auto simp: touched_def)
next
  case (cold m k s1 w1 r s' w')
  have "set (ids (mHotLru s')) \<subseteq> insert i (set (ids (mHotLru s)))"
    unfolding cold(9,4) by (auto split: if_splits)
  then show ?thesis using cold by blast
qed (use assms in auto)

lemma demo_below: "observe (\<lambda>s w. length (mHotLru s) < unat (mHotLimit s))
    (sm_run 60 [Create 1, Create 2, Activate 1])"
  by code_simp

theorem activation_below_limit_witness:
  "\<exists>s w. sm_run 60 [Create 1, Create 2, Activate 1] = Inr (s, w) \<and>
     (\<exists>r s' w'. activateForInfer (demo_env 60) 2 s w = Inr (r, s', w') \<and> sm_inv s')"
proof -
  obtain s w where r: "sm_run 60 [Create 1, Create 2, Activate 1] = Inr (s, w)" "sm_inv s"
    "length (mHotLru s) < unat (mHotLimit s)" using demo_below by (elim observeE) simp
  have "\<exists>r s' w'. activateForInfer (demo_env 60) 2 s w = Inr (r, s', w') \<and> sm_inv s'"
    using activation_below_limit [OF r(2,3), of "demo_env 60" 2 w] by metis
  then show ?thesis by (rule sm_run_exI [OF r(1)])
qed

subsection \<open>The cache\<close>

text \<open>
  C4: every call refines a step of the abstract LRU cache: a hit moves the id to the back of the HOT
  order, a miss swaps out least recently used sessions only, swapping out forgets the oldest
  swapped sessions only, and no other call moves or drops a session.
\<close>

theorem calls_refine_lru:
  assumes "sm_inv s" and "sm_exec e c (s, w) = Inr (s', w')"
  shows "lru_step c (abs_lru s) (abs_lru s')"
  using assms by (rule sm_exec_sim)

lemma demo_hit:
  "observe (\<lambda>s w. observe (\<lambda>s' w'. ids (mHotLru s') = [3, 4, 2]) (sm_exec (demo_env 60) (Activate 2) (s, w)))
     (sm_run 60 fill)"
  by code_simp

theorem calls_refine_lru_witness:
  "\<exists>s w. sm_run 60 fill = Inr (s, w) \<and>
     (\<exists>s'. lru_step (Activate 2) (abs_lru s) (abs_lru s') \<and> ids (mHotLru s') = [3, 4, 2])"
proof -
  obtain s w where r: "sm_run 60 fill = Inr (s, w)" "sm_inv s"
    and "observe (\<lambda>s' w'. ids (mHotLru s') = [3, 4, 2]) (sm_exec (demo_env 60) (Activate 2) (s, w))"
    using demo_hit by (elim observeE)
  then obtain s' w' where x: "sm_exec (demo_env 60) (Activate 2) (s, w) = Inr (s', w')"
    "ids (mHotLru s') = [3, 4, 2]"
    by (auto simp only: observe_def split: sum.splits prod.splits)
  have "\<exists>s'. lru_step (Activate 2) (abs_lru s) (abs_lru s') \<and> ids (mHotLru s') = [3, 4, 2]"
    using calls_refine_lru [OF r(2) x(1)] x(2) by (intro exI conjI)
  then show ?thesis by (rule sm_run_exI [OF r(1)])
qed

text \<open>
  C21: starting from a new manager, at most \<open>mHotLimit\<close> sessions hold a llama context after any
  calls, provided saving a state succeeds and no session is created with the id \<open>-1\<close>.
\<close>

theorem hot_sessions_bounded:
  assumes "runR (sm_exec e) cs (SessionManager model params dir, []) = Inr (s, w)"
    and "fresh_init e" "saves_succeed e" and "Create (- 1) \<notin> set cs"
  shows "length (mHotLru s) \<le> unat (mHotLimit s)"
proof -
  have "list_all (\<lambda>c. fresh_init e \<and> saves_succeed e \<and> c \<noteq> Create (- 1)) cs"
    using assms(2-4) by (auto simp: list_all_iff)
  from sm_bounded.run_keeps [OF _ this assms(1)] show ?thesis
    by (simp add: sm_inv_init res_init hot_bound_init) (simp add: hot_bound_def)
qed

theorem hot_sessions_bounded_witness:
  "\<exists>s w. sm_run 60 fill = Inr (s, w) \<and> length (mHotLru s) \<le> unat (mHotLimit s)"
proof -
  obtain s w where r: "sm_run 60 fill = Inr (s, w)" using demo_fill by (elim observeE)
  have "Create (- 1) \<notin> set fill" by (simp add: fill_def)
  from hot_sessions_bounded [OF r [unfolded sm_run_def demo_start_def] demo_fresh demo_saves this]
  show ?thesis by (rule sm_run_exI [OF r])
qed

text \<open>
  C39: the proviso on \<open>-1\<close> is needed: the eviction loop reads the id \<open>-1\<close> as "no victim", so while the
  session \<open>-1\<close> is the least recently used one, activating a COLD session evicts nothing, and each
  activation that succeeds makes the HOT list one longer, whatever its limit.
\<close>

theorem minus_one_blocks_eviction:
  assumes "sm_inv s" and "mHotLru s \<noteq> []" "snd (hd (mHotLru s)) = - 1"
    and "mSessions s i = Some m" "m_state m = COLD"
  shows "evictHotIfNeeded e i s w = Inr (s, w) \<and>
    (\<exists>r s' w'. activateForInfer e i s w = Inr (r, s', w') \<and> mHotLimit s' = mHotLimit s \<and>
       ids (mHotLru s') = ids (mHotLru s) @ (if r = None then [] else [i]))"
proof -
  obtain p l where l: "mHotLru s = p # l" "snd p = - 1" using assms(2,3) by (cases "mHotLru s") auto
  then have "i \<noteq> - 1" using inv_hot_ids [OF assms(1), of i] assms(4,5) by auto
  then have ev: "evictHotIfNeeded e i s w = Inr (s, w)"
    using l by (simp add: evictHotIfNeeded.simps [of e i s w] Let_def pick_victim_def)
  from activate_no_evict [OF assms(1,4,5) ev] show ?thesis using ev by (auto simp: same_config_def)
qed

theorem minus_one_blocks_eviction_witness:
  "\<exists>s w. sm_run 60 [Create (- 1), Create 1, Create 2, Create 3, Activate (- 1), Activate 1, Activate 2] = Inr (s, w) \<and>
     mHotLimit s = 3 \<and> length (mHotLru s) = 3 \<and> evictHotIfNeeded (demo_env 60) 3 s w = Inr (s, w)"
proof -
  let ?cs = "[Create (- 1), Create 1, Create 2, Create 3, Activate (- 1), Activate 1, Activate 2]"
  have "observe (\<lambda>s w. ids (mHotLru s) = [- 1, 1, 2] \<and> mHotLimit s = 3 \<and>
      map_option m_state (mSessions s 3) = Some COLD) (sm_run 60 ?cs)" by code_simp
  then obtain s w where r: "sm_run 60 ?cs = Inr (s, w)" "sm_inv s" "ids (mHotLru s) = [- 1, 1, 2]" "mHotLimit s = 3"
    "map_option m_state (mSessions s 3) = Some COLD" by (elim observeE) simp
  obtain m where m: "mSessions s 3 = Some m" "m_state m = COLD" using r(5) by auto
  have l: "mHotLru s \<noteq> []" "snd (hd (mHotLru s)) = - 1" using r(3) by auto
  have "length (ids (mHotLru s)) = 3" unfolding r(3) by simp
  then show ?thesis
    using minus_one_blocks_eviction [OF r(2) l m, of "demo_env 60" w] r(1,4) by auto
qed

text \<open>
  Setting the HOT limit to \<open>h\<close> evicts down to strictly fewer than \<open>h\<close> HOT sessions (the loop
  runs while \<open>size() >= limit\<close>), least recently used first; a limit of zero counts as one, and one
  leaves no HOT session.
\<close>

theorem hot_limit_strict:
  assumes "sm_inv s" and "saves_succeed e" and "- 1 \<notin> dom (mSessions s)"
  shows "\<exists>s' w' k. setHotLimit e h s w = Inr (s', w') \<and> sm_inv s' \<and> mHotLimit s' = max 1 h \<and>
    ids (mHotLru s') = drop k (ids (mHotLru s)) \<and> length (mHotLru s') < unat (max 1 h)"
proof -
  note no = inv_minus_one [OF assms(1,3)]
  obtain k s' w' where k: "setHotLimit e h s w = Inr (s', w')" "sm_inv s'" "mHotLimit s' = max 1 h"
    "mHotLru s' = filter (\<lambda>p. snd p \<notin> set (take k (hot_victims (- 1) s))) (mHotLru s)"
    "hot_settled (- 1) s'"
    by (rule setHotLimit_spec [OF assms(1), of e h w]) (use assms(2) no in simp)
  have "hot_victims (- 1) s = ids (mHotLru s)"
    unfolding hot_victims_def using no by (rule remove_id)
  then have d: "ids (mHotLru s') = drop k (ids (mHotLru s))"
    using filter_not_take [OF inv_hot_distinct [OF assms(1)], of k]
    unfolding k(4) by (simp add: filter_map o_def)
  then have "- 1 \<notin> set (ids (mHotLru s'))" using no by (auto simp del: set_map dest: in_set_dropD)
  then have "set (ids (mHotLru s')) \<subseteq> {- 1} \<Longrightarrow> mHotLru s' = []" by (cases "mHotLru s'") auto
  moreover have "0 < unat (max 1 h)"
    using max_1_size_t [of h] by (metis unat_gt_0 unat_0 word_le_nat_alt unat_1 not_one_le_zero)
  ultimately have "length (mHotLru s') < unat (max 1 h)"
    using k(3,5) unfolding hot_settled_def by fastforce
  then show ?thesis using k(1-3) d by blast
qed

lemma demo_fill_dom:
  "observe (\<lambda>s w. Option.is_none (mSessions s (- 1)) \<and> length (mHotLru s) = 3) (sm_run 60 fill)"
  by code_simp

theorem hot_limit_strict_witness:
  "\<exists>s w. sm_run 60 fill = Inr (s, w) \<and> length (mHotLru s) = 3 \<and>
     (\<exists>s' w'. setHotLimit (demo_env 60) 2 s w = Inr (s', w') \<and> length (mHotLru s') < 2)"
proof -
  obtain s w where r: "sm_run 60 fill = Inr (s, w)" "sm_inv s" "length (mHotLru s) = 3"
    "Option.is_none (mSessions s (- 1))" using demo_fill_dom by (elim observeE) simp
  then have "- 1 \<notin> dom (mSessions s)" by (simp add: Option.is_none_def domIff)
  from hot_limit_strict [OF r(2) demo_saves [of 60] this, of 2 w]
  have "\<exists>s' w'. setHotLimit (demo_env 60) 2 s w = Inr (s', w') \<and> length (mHotLru s') < 2"
    by (elim exE conjE) simp
  then show ?thesis by (intro sm_run_exI [OF r(1)] conjI r(3))
qed

text \<open>
  C26: setting the COLD limit kills swapped sessions, oldest first, the least number after which the
  accounted bytes fit the limit (all of them if they never do); it touches no HOT session and no
  session without a state.  Proviso: no session has the id \<open>-1\<close>, which the loop is told to exclude.
\<close>

theorem cold_limit_enforced:
  assumes "sm_inv s" and "- 1 \<notin> dom (mSessions s)"
  shows "\<exists>s' w' k. setColdLimit b s w = Inr (s', w') \<and> sm_inv s' \<and> mColdLimitBytes s' = b \<and>
    k \<le> length (mColdLru s) \<and> ids (mColdLru s') = drop k (ids (mColdLru s)) \<and> mHotLru s' = mHotLru s \<and>
    mSessions s' = mSessions s |` (- set (take k (ids (mColdLru s)))) \<and>
    mColdUsedBytes s' = mColdUsedBytes s - sum_list (map (bytes_of s) (take k (ids (mColdLru s)))) \<and>
    (mColdUsedBytes s' \<le> b \<or> mColdLru s' = []) \<and>
    (\<forall>j<k. b < mColdUsedBytes s - sum_list (map (bytes_of s) (take j (ids (mColdLru s)))))"
proof -
  have no: "- 1 \<notin> set (ids (mColdLru s))" using inv_cold_ids [OF assms(1), of "- 1"] assms(2) by auto
  obtain k s' w' where k: "setColdLimit b s w = Inr (s', w')" "sm_inv s'" "mColdLimitBytes s' = b"
    "cold_settled (- 1) s'" "evicted (set (take k (cold_victims (- 1) s))) (s\<lparr>mColdLimitBytes := b\<rparr>) s'"
    "first_fit (- 1) (s\<lparr>mColdLimitBytes := b\<rparr>) k s'"
    by (rule setColdLimit_spec [OF assms(1), of b w])
  have v: "cold_victims (- 1) s = ids (mColdLru s)"
    unfolding cold_victims_def using no by (rule remove_id)
  note E = evictedD [OF k(5) [unfolded v]]
  have d: "ids (mColdLru s') = drop k (ids (mColdLru s))"
    unfolding E(2) using filter_not_take [OF inv_cold_distinct [OF assms(1)], of k]
    by (simp add: filter_map o_def)
  then have "- 1 \<notin> set (ids (mColdLru s'))" using no by (auto simp del: set_map dest: in_set_dropD)
  then have "mColdUsedBytes s' \<le> b \<or> mColdLru s' = []"
    using k(3,4) by (auto simp: cold_settled_def)
  moreover have "cold_victims (- 1) (s\<lparr>mColdLimitBytes := b\<rparr>) = ids (mColdLru s)"
    "bytes_of (s\<lparr>mColdLimitBytes := b\<rparr>) = bytes_of s" using v by (auto simp: cold_victims_def bytes_of_def)
  then have "k \<le> length (mColdLru s)"
    "mColdUsedBytes s' = mColdUsedBytes s - sum_list (map (bytes_of s) (take k (ids (mColdLru s))))"
    "\<forall>j<k. b < mColdUsedBytes s - sum_list (map (bytes_of s) (take j (ids (mColdLru s))))"
    using k(6) by (simp_all add: first_fit_def cold_left_def)
  moreover have "mHotLru s' = mHotLru s" "mSessions s' = mSessions s |` (- set (take k (ids (mColdLru s))))"
    using E(1,3) by simp_all
  ultimately show ?thesis using k(1-3) d by blast
qed

theorem cold_limit_enforced_witness:
  "\<exists>s w. sm_run 60 fill = Inr (s, w) \<and> ids (mColdLru s) = [1] \<and>
     (\<exists>s' w'. setColdLimit 100 s w = Inr (s', w') \<and> (mColdUsedBytes s' \<le> 100 \<or> mColdLru s' = []))"
proof -
  have "observe (\<lambda>s w. Option.is_none (mSessions s (- 1)) \<and> ids (mColdLru s) = [1]) (sm_run 60 fill)"
    by code_simp
  then obtain s w where r: "sm_run 60 fill = Inr (s, w)" "sm_inv s" "ids (mColdLru s) = [1]"
    "Option.is_none (mSessions s (- 1))" by (elim observeE) simp
  then have "- 1 \<notin> dom (mSessions s)" by (simp add: Option.is_none_def domIff)
  from cold_limit_enforced [OF r(2) this, of 100 w]
  have "\<exists>s' w'. setColdLimit 100 s w = Inr (s', w') \<and> (mColdUsedBytes s' \<le> 100 \<or> mColdLru s' = [])"
    by (elim exE conjE) (intro exI conjI)
  then show ?thesis by (intro sm_run_exI [OF r(1)] conjI r(3))
qed

subsection \<open>Swapping\<close>

text \<open>
  C27: swapping a HOT session out ends; when it succeeds the session is the newest swapped one, has no
  context, and has lost a prefix of its tokens only, never going below 64 tokens that way; its file
  fits the COLD limit, or at most 64 tokens were left to prune.
\<close>

theorem swap_out_prunes:
  assumes "sm_inv s" and "mSessions s i = Some m" "m_state m = HOT"
  shows "\<exists>ok s' w'. swapOut e i s w = Inr (ok, s', w') \<and> sm_inv s' \<and> (saves_succeed e \<longrightarrow> ok) \<and>
    (\<exists>m' k. mSessions s' i = Some m' \<and> m_tokens m' = drop k (m_tokens m) \<and>
       (k = 0 \<or> kMinKeepTokens \<le> length (m_tokens m')) \<and>
       (ok \<longrightarrow> swapped m' \<and> last (ids (mColdLru s')) = i \<and> mHotLru s' = without i (mHotLru s) \<and>
          (m_swapFileBytes m' + mColdUsedBytes s \<le> mColdLimitBytes s
             \<or> length (m_tokens m') \<le> kMinKeepTokens)))"
  using assms
proof (cases rule: swapOut_cases [where e = e and w = w])
  case (failed k w')
  then show ?thesis by (intro exI conjI) (rule failed(1), auto)
next
  case (swapped k m2 j s' w')
  have "i \<notin> set (ids (mColdLru s))"
    using inv_cold_ids [OF assms(1), of i] assms(2,3) by (auto simp: swapped_def)
  then have "mSessions s' i = Some m2" unfolding swapped(9) by (auto simp: restrict_map_def dest: in_set_takeD)
  moreover have "last (ids (mColdLru s')) = i" unfolding swapped(10) by simp
  ultimately show ?thesis using swapped
    by (intro exI [of _ True] exI [of _ s'] exI [of _ w'] conjI exI [of _ m2] exI [of _ k]) auto
qed

definition long_run :: "sm_call list" where
  "long_run = [Create 1, Activate 1, Record 1 (replicate 100 7)]"

lemma demo_long:
  "observe (\<lambda>s w. map_option m_state (mSessions s 1) = Some HOT \<and>
     map_option (length \<circ> m_tokens) (mSessions s 1) = Some 100) (sm_run 60 long_run)"
  by code_simp

theorem swap_out_prunes_witness:
  "\<exists>s w. sm_run 60 long_run = Inr (s, w) \<and>
     (\<exists>s' w' m'. swapOut (demo_env 60) 1 s w = Inr (True, s', w') \<and> mSessions s' 1 = Some m' \<and> swapped m')"
proof -
  obtain s w m where r: "sm_run 60 long_run = Inr (s, w)" "sm_inv s"
    and m: "mSessions s 1 = Some m" "m_state m = HOT" using demo_long by (elim observeE) auto
  have "\<exists>s' w' m'. swapOut (demo_env 60) 1 s w = Inr (True, s', w') \<and> mSessions s' 1 = Some m' \<and> swapped m'"
    using swap_out_prunes [OF r(2) m, of "demo_env 60" w] demo_saves [of 60] by auto
  then show ?thesis by (rule sm_run_exI [OF r(1)])
qed

text \<open>
  C13: a session that was swapped out and is activated again, after any calls that do not name it,
  has the tokens it had when it was swapped out, less a pruned prefix that leaves at least 64.
\<close>

theorem swap_round_trip:
  assumes "sm_inv s" "mSessions s i = Some m" "m_state m = HOT"
    and "swapOut e i s w = Inr (True, s1, w1)"
    and "runR (sm_exec e) cs (s1, w1) = Inr (s2, w2)" "Some i \<notin> about ` set cs"
    and "loads_back e" "activateForInfer e i s2 w2 = Inr (Some c, s3, w3)"
  shows "\<exists>m' k. mSessions s3 i = Some m' \<and> m_tokens m' = drop k (m_tokens m) \<and>
    (k = 0 \<or> kMinKeepTokens \<le> length (m_tokens m) - k)"
  using assms by (rule swap_trip)

definition short_run :: "sm_call list" where
  "short_run = [Create 1, Activate 1, Record 1 [5, 6, 7]]"

definition trip :: "session_manager \<Rightarrow> history \<Rightarrow> (bool \<times> bool) result" where
  \<comment> \<open>session 1 to its swap file and back, session 2 activated in between\<close>
  "trip s w =
     bindR (swapOut (demo_env 60) 1 s w) (\<lambda>(ok, x).
     bindR (runR (sm_exec (demo_env 60)) [Create 2, Activate 2] x) (\<lambda>(s2, w2).
     bindR (activateForInfer (demo_env 60) 1 s2 w2) (\<lambda>(r, x3). Inr (ok, \<not> Option.is_none r))))"

lemma demo_trip:
  "observe (\<lambda>s w. map_option m_state (mSessions s 1) = Some HOT \<and>
     value_of (trip s w) = Some (True, True)) (sm_run 60 short_run)"
  by code_simp

theorem swap_round_trip_witness:
  "\<exists>s w. sm_run 60 short_run = Inr (s, w) \<and>
     (\<exists>(s3 :: session_manager) m m' k. mSessions s 1 = Some m \<and> mSessions s3 1 = Some m' \<and> m_tokens m' = drop k (m_tokens m))"
proof -
  obtain s w where r: "sm_run 60 short_run = Inr (s, w)" "sm_inv s"
    and h: "map_option m_state (mSessions s 1) = Some HOT" "trip s w = Inr (True, True)"
    using demo_trip by (elim observeE) (simp add: value_of_Some)
  obtain m where m: "mSessions s 1 = Some m" "m_state m = HOT" using h by auto
  from h(2) obtain s1 w1 s2 w2 c s3 w3 where x: "swapOut (demo_env 60) 1 s w = Inr (True, s1, w1)"
    "runR (sm_exec (demo_env 60)) [Create 2, Activate 2] (s1, w1) = Inr (s2, w2)"
    "activateForInfer (demo_env 60) 1 s2 w2 = Inr (Some c, s3, w3)"
    unfolding trip_def
    by (auto simp: bindR_Inr_iff Option.is_none_def simp del: runR.simps)
  have no: "Some 1 \<notin> about ` set [Create 2, Activate 2]" by simp
  have "\<exists>m' k. mSessions s3 1 = Some m' \<and> m_tokens m' = drop k (m_tokens m) \<and>
      (k = 0 \<or> kMinKeepTokens \<le> length (m_tokens m) - k)"
    by (rule swap_round_trip [OF r(2) m x(1,2) no demo_loads x(3)])
  then have "\<exists>(s3 :: session_manager) m m' k. mSessions s 1 = Some m \<and> mSessions s3 1 = Some m' \<and> m_tokens m' = drop k (m_tokens m)"
    using m(1) by (elim exE conjE) (rule exI [of _ s3], intro exI conjI)
  then show ?thesis by (rule sm_run_exI [OF r(1)])
qed

text \<open>
  C33: killing a session removes it from the map and from whichever list it is on, frees its context
  if it is HOT, removes its swap file and gives its bytes back if it is swapped, and leaves every
  other session as it is; killing an unknown id returns \<open>false\<close> and changes nothing.
\<close>

theorem kill_releases:
  assumes "sm_inv s" and "res_inv s w"
  shows "\<exists>s' w'. killSession i s w = Inr (mSessions s i \<noteq> None, s', w') \<and> sm_inv s' \<and> res_inv s' w' \<and>
    mSessions s' = (mSessions s)(i := None) \<and> mHotLru s' = without i (mHotLru s) \<and>
    mColdLru s' = without i (mColdLru s) \<and>
    (\<forall>m. mSessions s i = Some m \<longrightarrow>
       live w' = live w - set_option (m_ctx m) \<and>
       (swapped m \<longrightarrow> swapPathFor s i \<notin> swap_files w' \<and> mColdUsedBytes s' = mColdUsedBytes s - m_swapFileBytes m))"
proof -
  have hot: "i \<notin> set (ids (mHotLru s)) \<Longrightarrow> without i (mHotLru s) = mHotLru s"
    and cold: "i \<notin> set (ids (mColdLru s)) \<Longrightarrow> without i (mColdLru s) = mColdLru s"
    by (auto intro!: filter_True)
  obtain ok s' w' where k: "killSession i s w = Inr (ok, s', w')" using kill_total [OF assms(1)] by metis
  note R = kill_res [OF assms k]
  from assms(1) show ?thesis
  proof (cases rule: kill_cases [where i = i and w = w])
    case absent
    have "(mSessions s)(i := None) = mSessions s" using absent(1) by (rule fun_upd_idem)
    then show ?thesis
      using absent assms hot cold inv_hot_ids [OF assms(1), of i] inv_cold_ids [OF assms(1), of i] by simp
  next
    case (hot m c)
    then have "i \<notin> set (ids (mColdLru s))" using inv_cold_ids [OF assms(1), of i] by (auto simp: swapped_def)
    then show ?thesis using hot cold R k by (simp add: swapped_def)
  next
    case (cold m)
    then have "i \<notin> set (ids (mHotLru s))" using inv_hot_ids [OF assms(1), of i] by (auto simp: swapped_def)
    then show ?thesis using cold hot R k by simp
  next
    case (fresh m)
    then have "i \<notin> set (ids (mHotLru s))" "i \<notin> set (ids (mColdLru s))"
      using inv_hot_ids [OF assms(1), of i] inv_cold_ids [OF assms(1), of i] by (auto simp: swapped_def)
    then show ?thesis using fresh hot cold R k by (simp add: swapped_def)
  qed
qed

theorem kill_releases_witness:
  "\<exists>s w. sm_run 60 fill = Inr (s, w) \<and>
     (\<exists>s' w'. killSession 2 s w = Inr (True, s', w') \<and> mSessions s' 2 = None \<and> mSessions s' 3 = mSessions s 3)"
proof -
  have "observe (\<lambda>s w. \<not> Option.is_none (mSessions s 2)) (sm_run 60 fill)" by code_simp
  then obtain s w where r: "sm_run 60 fill = Inr (s, w)" "sm_inv s" "res_inv s w"
    and "mSessions s 2 \<noteq> None" by (elim observeE) (auto simp: Option.is_none_def)
  with kill_releases [OF r(2,3), of 2]
  have "\<exists>s' w'. killSession 2 s w = Inr (True, s', w') \<and> mSessions s' 2 = None \<and> mSessions s' 3 = mSessions s 3"
    by auto
  then show ?thesis by (rule sm_run_exI [OF r(1)])
qed

end
