(* ===== verification/LLM_Engine.thy ===== *)
theory LLM_Engine
  imports Session_Swap
begin

text \<open>
  \<open>LLMEngine\<close> of \<open>daemon/include/llm_engine.h\<close> and \<open>daemon/src/llm_engine.cpp\<close>: loading, the
  destructor, and \<open>infer\<close>, the prefill of a prompt followed by the token-by-token decode loop.  The
  callback is a function on an output state.  \<open>infer\<close> is written over the two operations of the
  session manager it calls, so that what it promises follows from their contract alone.
\<close>

subsection \<open>State\<close>

record llm_engine =
  le_model :: "nat option"
  le_ctxParams :: ctx_params
  le_sessions :: "session_manager option" \<comment> \<open>\<open>mSessionManager\<close>\<close>
  le_modelPath :: string
  le_sampler :: bool \<comment> \<open>\<open>mSampler\<close> is not null\<close>

definition LLMEngine :: "ctx_params \<Rightarrow> llm_engine" where
  \<comment> \<open>the argument is the value-initialised \<open>mCtxParams{}\<close>\<close>
  "LLMEngine zero =
     \<lparr>le_model = None, le_ctxParams = zero, le_sessions = None, le_modelPath = [], le_sampler = False\<rparr>"

definition engine_isReady :: "llm_engine \<Rightarrow> bool" where
  "engine_isReady g \<longleftrightarrow> le_model g \<noteq> None"

definition getModelInfo :: "llm_engine \<Rightarrow> string" where
  "getModelInfo g = (if le_model g = None then ''not loaded'' else le_modelPath g)"

definition load ::
    "llama_env \<Rightarrow> int list \<Rightarrow> string \<Rightarrow> int \<Rightarrow> int \<Rightarrow> llm_engine \<Rightarrow> history
       \<Rightarrow> (bool \<times> llm_engine \<times> history) result" where
  \<comment> \<open>assigning to \<open>mSessionManager\<close> destroys the manager it held, in some order of its map\<close>
  "load e order path nCtx nThreads g w =
     (let w1 = BackendInit # w; mparams = env_model_params e;
         model = env_model e w1 path mparams; w2 = ModelLoad path mparams model # w1 in
      case model of
        None \<Rightarrow> Inr (False, g\<lparr>le_model := None\<rparr>, w2)
      | Some m \<Rightarrow>
          let params = (env_ctx_params e)\<lparr>n_ctx := word_of_int nCtx, n_threads := nThreads\<rparr>;
              sm = SessionManager m params ''/data/vendor/miniv_ai/sessions'';
              w2' = (case le_sessions g of None \<Rightarrow> w2 | Some old \<Rightarrow> SessionManager_dtor order old w2) in
          bindR (setHotLimit e kDefaultHotLimit sm w2') (\<lambda>(sm1, w3).
          bindR (setColdLimit kDefaultColdLimitBytes sm1 w3) (\<lambda>(sm2, w4).
            Inr (True,
                 g\<lparr>le_model := Some m, le_modelPath := path, le_ctxParams := params,
                   le_sessions := Some sm2, le_sampler := True\<rparr>, SamplerInit sampler_chain # w4))))"

definition LLMEngine_dtor :: "int list \<Rightarrow> llm_engine \<Rightarrow> history \<Rightarrow> history" where
  \<comment> \<open>the body of the destructor, then the members: the sessions' contexts go last\<close>
  "LLMEngine_dtor order g w =
     (let w1 = (if le_sampler g then SamplerFree # w else w);
          w2 = (case le_model g of None \<Rightarrow> w1 | Some m \<Rightarrow> ModelFree m # w1);
          w3 = BackendFree # w2 in
      case le_sessions g of None \<Rightarrow> w3 | Some sm \<Rightarrow> SessionManager_dtor order sm w3)"

subsection \<open>The decode loop\<close>

type_synonym 'o gen_state = "llama_token list \<times> history \<times> 'o"

definition infer_iter ::
    "llama_env \<Rightarrow> nat \<Rightarrow> ctx \<Rightarrow> bool option \<Rightarrow> (string \<Rightarrow> 'o \<Rightarrow> 'o) \<Rightarrow> 'o gen_state
       \<Rightarrow> (bool \<times> 'o gen_state) result" where
  \<comment> \<open>one turn of the loop; \<open>False\<close> is a \<open>break\<close>.  The cancel flag is \<open>None\<close> for a null pointer,
    else the value it has when it is read.\<close>
  "infer_iter e m c cancel onToken st =
     (case st of (gen, w, out) \<Rightarrow>
        let w0 = (case cancel of None \<Rightarrow> w | Some v \<Rightarrow> CancelLoad v # w) in
        if cancel = Some True then Inr (False, gen, w0, out)
        else
          let tok = env_sample e w0 c; w1 = Accept tok # Sample c tok # w0 in
          if env_is_eog e m tok then Inr (False, gen, w1, out)
          else
            let (n, buf) = env_piece e m tok in
            if n < 0 then Inl LengthError
            else
              let out' = onToken (take (nat n) buf) out;
                  r = env_decode e w1 c [tok];
                  w2 = Decode c [tok] r # w1 in
              Inr (r = 0, gen @ [tok], w2, out'))"

primrec infer_loop ::
    "llama_env \<Rightarrow> nat \<Rightarrow> ctx \<Rightarrow> bool \<Rightarrow> (string \<Rightarrow> 'o \<Rightarrow> 'o) \<Rightarrow> nat \<Rightarrow> 'o gen_state
       \<Rightarrow> 'o gen_state result" where
  "infer_loop e m c flag onToken 0 st = Inr st"
| "infer_loop e m c flag onToken (Suc k) st =
     bindR (infer_iter e m c (if flag then Some (env_cancel e (fst (snd st))) else None) onToken st)
       (\<lambda>(go, st'). if go then infer_loop e m c flag onToken k st' else Inr st')"

definition prefill ::
    "(int \<Rightarrow> 's \<Rightarrow> history \<Rightarrow> (ctx option \<times> 's \<times> history) result) \<Rightarrow>
     (int \<Rightarrow> llama_token list \<Rightarrow> 's \<Rightarrow> history \<Rightarrow> ('s \<times> history) result) \<Rightarrow>
     llama_env \<Rightarrow> nat \<Rightarrow> int \<Rightarrow> string \<Rightarrow> 's \<Rightarrow> history \<Rightarrow> (ctx option \<times> 's \<times> history) result" where
  \<comment> \<open>\<open>None\<close>: \<open>infer\<close> returns \<open>false\<close>\<close>
  "prefill activate rec e m i prompt s w =
     bindR (activate i s w) (\<lambda>(ctx, s1, w1).
       case ctx of
         None \<Rightarrow> Inr (None, s1, w1)
       | Some c \<Rightarrow>
           let promptTokens = env_tokenize e m prompt;
               r = env_decode e w1 c promptTokens;
               w2 = Decode c promptTokens r # w1 in
           if r \<noteq> 0 then Inr (None, s1, w2)
           else bindR (rec i promptTokens s1 w2) (\<lambda>(s2, w3). Inr (Some c, s2, w3)))"

definition infer_on ::
    "(int \<Rightarrow> 's \<Rightarrow> history \<Rightarrow> (ctx option \<times> 's \<times> history) result) \<Rightarrow>
     (int \<Rightarrow> llama_token list \<Rightarrow> 's \<Rightarrow> history \<Rightarrow> ('s \<times> history) result) \<Rightarrow>
     llama_env \<Rightarrow> nat \<Rightarrow> int \<Rightarrow> string \<Rightarrow> int \<Rightarrow> bool \<Rightarrow> (string \<Rightarrow> 'o \<Rightarrow> 'o) \<Rightarrow>
     's \<Rightarrow> history \<Rightarrow> 'o \<Rightarrow> (bool \<times> 's \<times> history \<times> 'o) result" where
  \<comment> \<open>\<open>reserve\<close> throws \<open>length_error\<close> on a negative \<open>maxTokens\<close>, converted to \<open>size_t\<close>\<close>
  "infer_on activate rec e m i prompt maxTokens flag onToken s w out =
     bindR (prefill activate rec e m i prompt s w) (\<lambda>(ctx, s1, w1).
       case ctx of
         None \<Rightarrow> Inr (False, s1, w1, out)
       | Some c \<Rightarrow>
           if maxTokens < 0 then Inl LengthError
           else
             bindR (infer_loop e m c flag onToken (nat maxTokens) ([], w1, out)) (\<lambda>(gen, w2, out').
             bindR (rec i gen s1 w2) (\<lambda>(s2, w3). Inr (True, s2, w3, out'))))"

definition infer ::
    "llama_env \<Rightarrow> int \<Rightarrow> string \<Rightarrow> int \<Rightarrow> bool \<Rightarrow> (string \<Rightarrow> 'o \<Rightarrow> 'o) \<Rightarrow> llm_engine \<Rightarrow> history \<Rightarrow> 'o
       \<Rightarrow> (bool \<times> llm_engine \<times> history \<times> 'o) result" where
  "infer e i prompt maxTokens flag onToken g w out =
     (case (le_sessions g, le_model g) of
        (Some s, Some m) \<Rightarrow>
          bindR (infer_on (activateForInfer e) (recordTokens e) e m i prompt maxTokens flag onToken s w out)
            (\<lambda>(ok, s', w', out'). Inr (ok, g\<lparr>le_sessions := Some s'\<rparr>, w', out'))
      | _ \<Rightarrow> Inl NullDereference)"

subsection \<open>What the decode loop does\<close>

lemma infer_iter_cases:
  assumes "infer_iter e m c cancel f (gen, w, out) = Inr (go, gen', w', out')"
  obtains "\<not> go" "gen' = gen" "out' = out"
  | t where "gen' = gen @ [t]" "out' = f (piece_text e m t) out" "\<not> env_is_eog e m t" "cancel \<noteq> Some True"
  using assms
  by (auto simp: infer_iter_def piece_text_def Let_def split: if_splits prod.splits)

lemma infer_loop_output:
  assumes "infer_loop e m c flag f k (gen, w, out) = Inr (gen', w', out')"
  shows "\<exists>new. gen' = gen @ new \<and> length new \<le> k \<and> out' = emit e m f new out \<and>
    (\<forall>t \<in> set new. \<not> env_is_eog e m t)"
  using assms
proof (induction k arbitrary: gen w out)
  case (Suc k)
  from Suc.prems obtain go gen1 w1 out1
    where it: "infer_iter e m c (if flag then Some (env_cancel e w) else None) f (gen, w, out)
        = Inr (go, gen1, w1, out1)"
      and rest: "if go then infer_loop e m c flag f k (gen1, w1, out1) = Inr (gen', w', out')
        else (gen', w', out') = (gen1, w1, out1)"
    by (auto simp: bindR_Inr_iff split: if_splits)
  from it show ?case
  proof (cases rule: infer_iter_cases)
    case 1
    then show ?thesis using rest by (intro exI [of _ "[]"]) simp
  next
    case (2 t)
    show ?thesis
    proof (cases go)
      case True
      then obtain new where "gen' = gen1 @ new" "length new \<le> k" "out' = emit e m f new out1"
        "\<forall>t \<in> set new. \<not> env_is_eog e m t" using rest Suc.IH by fastforce
      then show ?thesis using 2 by (intro exI [of _ "t # new"]) (simp add: emit_def)
    next
      case False
      then show ?thesis using rest 2 by (intro exI [of _ "[t]"]) simp
    qed
  qed
qed simp

lemma infer_iter_total:
  assumes "piece_fits e" shows "\<exists>go st'. infer_iter e m c cancel f st = Inr (go, st')"
proof -
  have "\<not> fst (env_piece e m t) < 0" for t using assms by (simp add: piece_fits_def not_less)
  then show ?thesis by (cases st) (auto simp: infer_iter_def Let_def split_beta)
qed

lemma infer_loop_total:
  assumes "piece_fits e" shows "\<exists>st'. infer_loop e m c flag f k st = Inr st'"
proof (induction k arbitrary: st)
  case (Suc k)
  obtain go st1 where "infer_iter e m c (if flag then Some (env_cancel e (fst (snd st))) else None) f st
      = Inr (go, st1)" using infer_iter_total [OF assms] by blast
  then show ?case using Suc.IH [of st1] by (cases go; cases st1) auto
qed (simp del: split_paired_Ex)

text \<open>A fault in the loop can only be the conversion of a negative piece length.\<close>

lemma infer_loop_fault: "infer_loop e m c flag f k st = Inl x \<Longrightarrow> x = LengthError"
  by (induction k arbitrary: st)
    (auto simp: bindR_Inl_iff infer_iter_def Let_def split: prod.splits if_splits)

text \<open>A flag that is set when the loop first reads it stops it before a token is sampled.\<close>

lemma infer_loop_cancelled:
  assumes "env_cancel e w"
  shows "\<exists>w'. infer_loop e m c True f k (gen, w, out) = Inr (gen, w', out)"
  using assms by (cases k) (auto simp: infer_iter_def)

subsection \<open>The contract with the session manager\<close>

definition quiet :: "event \<Rightarrow> history \<Rightarrow> bool" where
  \<comment> \<open>a call that creates and destroys nothing, on a live context\<close>
  "quiet ev w \<longleftrightarrow> live (ev # w) = live w \<and> swap_files (ev # w) = swap_files w \<and>
     (\<forall>c. used_ctx ev = Some c \<longrightarrow> c \<in> live w)"

lemma quiet_simps [simp]:
  "quiet (CancelLoad v) w" "quiet (Accept t) w" "quiet (NowMs t) w"
  "quiet (Sample c t) w \<longleftrightarrow> c \<in> live w" "quiet (Decode c ts r) w \<longleftrightarrow> c \<in> live w"
  by (auto simp: quiet_def)

locale session_keeper =
  fixes activate :: "int \<Rightarrow> 's \<Rightarrow> history \<Rightarrow> (ctx option \<times> 's \<times> history) result"
    and rec :: "int \<Rightarrow> llama_token list \<Rightarrow> 's \<Rightarrow> history \<Rightarrow> ('s \<times> history) result"
    and keep :: "'s \<Rightarrow> bool"
    and bad :: fault
  assumes activate_keeps: "keep s \<Longrightarrow> activate i s w = Inr (r, s', w') \<Longrightarrow> keep s'"
    and activate_fault: "keep s \<Longrightarrow> activate i s w = Inl f \<Longrightarrow> f = bad"
    and record_keeps: "keep s \<Longrightarrow> \<exists>s' w'. rec i ts s w = Inr (s', w') \<and> keep s'"
begin

lemma prefill_keeps:
  assumes "keep s" "prefill activate rec e m i prompt s w = Inr (r, s', w')"
  shows "keep s'"
proof -
  obtain ctx s1 w1 where a: "activate i s w = Inr (ctx, s1, w1)"
    using assms(2) by (auto simp: prefill_def bindR_Inr_iff)
  note k = activate_keeps [OF assms(1) a]
  show ?thesis
  proof (cases ctx)
    case None
    then show ?thesis using assms(2) a k by (simp add: prefill_def)
  next
    case (Some c)
    let ?ts = "env_tokenize e m prompt"
    obtain s2 w3 where "rec i ?ts s1 (Decode c ?ts 0 # w1) = Inr (s2, w3)" "keep s2"
      using record_keeps [OF k] by blast
    then show ?thesis using assms(2) a k Some by (auto simp: prefill_def Let_def split: if_splits)
  qed
qed

lemma prefill_fault:
  assumes "keep s" "prefill activate rec e m i prompt s w = Inl y"
  shows "y = bad"
proof (cases "activate i s w")
  case (Inl z)
  then show ?thesis using activate_fault [OF assms(1) Inl] assms(2) by (simp add: prefill_def)
next
  case (Inr a)
  obtain ctx s1 w1 where a: "activate i s w = Inr (ctx, s1, w1)" using Inr by (cases a) auto
  then obtain c where c: "ctx = Some c" using assms(2) by (cases ctx) (auto simp: prefill_def)
  show ?thesis
    using record_keeps [OF activate_keeps [OF assms(1) a], of i "env_tokenize e m prompt"
        "Decode c (env_tokenize e m prompt) 0 # w1"] a c assms(2)
    by (fastforce simp: prefill_def Let_def split: if_splits)
qed

end

locale session_provider = session_keeper activate rec keep bad
  for activate :: "int \<Rightarrow> 's \<Rightarrow> history \<Rightarrow> (ctx option \<times> 's \<times> history) result"
    and rec :: "int \<Rightarrow> llama_token list \<Rightarrow> 's \<Rightarrow> history \<Rightarrow> ('s \<times> history) result"
    and keep bad +
  fixes inv :: "'s \<Rightarrow> history \<Rightarrow> bool"
    and tokens :: "'s \<Rightarrow> int \<Rightarrow> llama_token list option"
  assumes inv_keep: "inv s w \<Longrightarrow> keep s"
    and activate_inv: "inv s w \<Longrightarrow> activate i s w = Inr (r, s', w') \<Longrightarrow> inv s' w'"
    and activate_live: "inv s w \<Longrightarrow> activate i s w = Inr (Some c, s', w') \<Longrightarrow>
      c \<in> live w' \<and> tokens s' i \<noteq> None"
    and record_law: "inv s w \<Longrightarrow> \<exists>s' w'. rec i ts s w = Inr (s', w') \<and> inv s' w' \<and>
      live w' = live w \<and> tokens s' i = map_option (\<lambda>us. us @ ts) (tokens s i)"
    and quiet_inv: "inv s w \<Longrightarrow> quiet ev w \<Longrightarrow> inv s (ev # w)"
begin

lemma iter_inv:
  assumes "inv s w" "c \<in> live w" "infer_iter e m c cancel f (gen, w, out) = Inr (go, gen', w', out')"
  shows "inv s w' \<and> live w' = live w"
proof -
  define w0 where "w0 = (case cancel of None \<Rightarrow> w | Some v \<Rightarrow> CancelLoad v # w)"
  have w0: "inv s w0" "live w0 = live w"
    using assms(1) quiet_inv by (auto simp: w0_def split: option.splits)
  define t where "t = env_sample e w0 c"
  have w1: "inv s (Accept t # Sample c t # w0)" using w0 assms(2) by (intro quiet_inv) simp_all
  have w2: "inv s (Decode c [t] r # Accept t # Sample c t # w0)" for r
    using w1 w0 assms(2) by (intro quiet_inv) simp_all
  show ?thesis
    using assms(3) w0 w1 w2
    unfolding infer_iter_def prod.case w0_def [symmetric] Let_def t_def [symmetric]
    by (auto split: if_splits prod.splits)
qed

lemma loop_inv:
  "inv s w \<Longrightarrow> c \<in> live w \<Longrightarrow> infer_loop e m c flag f k (gen, w, out) = Inr (gen', w', out') \<Longrightarrow>
    inv s w' \<and> live w' = live w"
proof (induction k arbitrary: gen w out)
  case (Suc k)
  from Suc.prems(3) obtain go gen1 w1 out1
    where it: "infer_iter e m c (if flag then Some (env_cancel e w) else None) f (gen, w, out)
        = Inr (go, gen1, w1, out1)"
      and rest: "if go then infer_loop e m c flag f k (gen1, w1, out1) = Inr (gen', w', out')
        else (gen', w', out') = (gen1, w1, out1)"
    by (auto simp: bindR_Inr_iff split: if_splits)
  have w1: "inv s w1 \<and> live w1 = live w" using iter_inv [OF Suc.prems(1,2) it] .
  show ?case
  proof (cases go)
    case True
    then show ?thesis using Suc.IH [of w1 gen1 out1] w1 Suc.prems(2) rest by simp
  qed (use w1 rest in simp)
qed simp

lemma prefill_inv:
  assumes "inv s w" "prefill activate rec e m i prompt s w = Inr (r, s', w')"
  shows "inv s' w'"
    and "r = Some c \<Longrightarrow> c \<in> live w' \<and>
      (\<exists>s1 w1 us. activate i s w = Inr (Some c, s1, w1) \<and> tokens s1 i = Some us \<and>
         tokens s' i = Some (us @ env_tokenize e m prompt))"
proof -
  obtain ctx s1 w1 where a: "activate i s w = Inr (ctx, s1, w1)"
    using assms(2) by (auto simp: prefill_def bindR_Inr_iff)
  note inv1 = activate_inv [OF assms(1) a]
  have "inv s' w' \<and> (r = Some c \<longrightarrow> c \<in> live w' \<and>
      (\<exists>s1 w1 us. activate i s w = Inr (Some c, s1, w1) \<and> tokens s1 i = Some us \<and>
         tokens s' i = Some (us @ env_tokenize e m prompt)))" for c
  proof (cases ctx)
    case None
    then show ?thesis using assms(2) a inv1 by (simp add: prefill_def)
  next
    case (Some d)
    note L = activate_live [OF assms(1) a [unfolded Some]]
    define ts where "ts = env_tokenize e m prompt"
    define w2 where "w2 = Decode d ts (env_decode e w1 d ts) # w1"
    have inv2: "inv s1 w2" unfolding w2_def using inv1 L by (intro quiet_inv) simp_all
    obtain s2 w3 where R: "rec i ts s1 w2 = Inr (s2, w3)" "inv s2 w3" "live w3 = live w2"
      "tokens s2 i = map_option (\<lambda>us. us @ ts) (tokens s1 i)" using record_law [OF inv2] by blast
    have "prefill activate rec e m i prompt s w = (if env_decode e w1 d ts \<noteq> 0 then Inr (None, s1, w2)
        else Inr (Some d, s2, w3))"
      by (cases "env_decode e w1 d ts = 0")
        (use R(1) in \<open>simp_all add: prefill_def a Some ts_def w2_def Let_def\<close>)
    moreover have "live w2 = live w1" by (simp add: w2_def)
    ultimately show ?thesis
      using assms(2) a Some L inv2 R(2-4) by (auto simp: ts_def [symmetric] split: if_splits)
  qed
  then show "inv s' w'" and "r = Some c \<Longrightarrow> c \<in> live w' \<and>
      (\<exists>s1 w1 us. activate i s w = Inr (Some c, s1, w1) \<and> tokens s1 i = Some us \<and>
         tokens s' i = Some (us @ env_tokenize e m prompt))" by blast+
qed

lemma infer_on_inv:
  assumes "inv s w" "infer_on activate rec e m i prompt n flag f s w out = Inr (ok, s', w', out')"
  shows "inv s' w'"
proof -
  obtain r s1 w1 where p: "prefill activate rec e m i prompt s w = Inr (r, s1, w1)"
    using assms(2) by (auto simp: infer_on_def bindR_Inr_iff)
  note P = prefill_inv [OF assms(1) p]
  show ?thesis
  proof (cases r)
    case None
    then show ?thesis using assms(2) p P(1) by (simp add: infer_on_def)
  next
    case (Some c)
    then obtain gen w2 out2 where L: "infer_loop e m c flag f (nat n) ([], w1, out) = Inr (gen, w2, out2)"
      and R: "rec i gen s1 w2 = Inr (s', w')"
      using assms(2) p by (auto simp: infer_on_def bindR_Inr_iff split: if_splits)
    have "inv s1 w2" using loop_inv [OF P(1) _ L] P(2) [OF Some] by blast
    then show ?thesis using record_law [of s1 w2 i gen] R by auto
  qed
qed

text \<open>
  A successful inference has appended to the session, after the tokens it had on activation, the
  prompt and then exactly the tokens whose text was handed to the callback.
\<close>

lemma infer_on_records:
  assumes "inv s w" "infer_on activate rec e m i prompt n flag f s w out = Inr (True, s', w', out')"
  shows "\<exists>c s1 w1 us gen. activate i s w = Inr (Some c, s1, w1) \<and> tokens s1 i = Some us \<and>
    tokens s' i = Some (us @ env_tokenize e m prompt @ gen) \<and> out' = emit e m f gen out \<and>
    int (length gen) \<le> n \<and> (\<forall>t \<in> set gen. \<not> env_is_eog e m t)"
proof -
  obtain r s1 w1 where p: "prefill activate rec e m i prompt s w = Inr (r, s1, w1)"
    using assms(2) by (auto simp: infer_on_def bindR_Inr_iff)
  then obtain c where r: "r = Some c" using assms(2) by (cases r) (auto simp: infer_on_def)
  note P = prefill_inv [OF assms(1) p]
  from assms(2) p r obtain gen w2 where n: "0 \<le> n"
    and L: "infer_loop e m c flag f (nat n) ([], w1, out) = Inr (gen, w2, out')"
    and R: "rec i gen s1 w2 = Inr (s', w')"
    by (auto simp: infer_on_def bindR_Inr_iff split: if_splits)
  obtain s0 w0 us where A: "activate i s w = Inr (Some c, s0, w0)" "tokens s0 i = Some us"
    "tokens s1 i = Some (us @ env_tokenize e m prompt)" using P(2) [OF r] by blast
  have "inv s1 w2" using loop_inv [OF P(1) _ L] P(2) [OF r] by blast
  then have "tokens s' i = Some (us @ env_tokenize e m prompt @ gen)"
    using record_law [of s1 w2 i gen] R A(3) by auto
  moreover have "length gen \<le> nat n \<and> out' = emit e m f gen out \<and> (\<forall>t \<in> set gen. \<not> env_is_eog e m t)"
    using infer_loop_output [OF L] by auto
  ultimately show ?thesis using A n by (intro exI [of _ c] exI [of _ s0] exI [of _ w0] exI [of _ us] exI [of _ gen]) auto
qed

lemma infer_on_fault:
  assumes "inv s w" "infer_on activate rec e m i prompt n flag f s w out = Inl x"
  shows "x = bad \<or> x = LengthError \<and> (n < 0 \<or> \<not> piece_fits e)"
proof (cases "prefill activate rec e m i prompt s w")
  case (Inl y)
  then have "x = y" using assms(2) by (simp add: infer_on_def)
  moreover have "y = bad" using inv_keep [OF assms(1)] Inl by (rule prefill_fault)
  ultimately show ?thesis by simp
next
  case (Inr a)
  obtain r s1 w1 where p: "prefill activate rec e m i prompt s w = Inr (r, s1, w1)"
    using Inr by (cases a) auto
  then obtain c where r: "r = Some c" using assms(2) by (cases r) (auto simp: infer_on_def)
  note P = prefill_inv [OF assms(1) p]
  show ?thesis
  proof (cases "n < 0")
    case True
    then show ?thesis using assms(2) p r by (simp add: infer_on_def)
  next
    case False
    show ?thesis
    proof (cases "infer_loop e m c flag f (nat n) ([], w1, out)")
      case (Inl y)
      then show ?thesis
        using assms(2) p r False infer_loop_fault [OF Inl] infer_loop_total [of e m c flag f "nat n" "([], w1, out)"]
        by (auto simp: infer_on_def)
    next
      case (Inr b)
      then obtain gen w2 out2 where L: "infer_loop e m c flag f (nat n) ([], w1, out) = Inr (gen, w2, out2)"
        by (cases b) auto
      have "inv s1 w2" using loop_inv [OF P(1) _ L] P(2) [OF r] by blast
      then show ?thesis using record_law [of s1 w2 i gen] assms(2) p r L False
        by (auto simp: infer_on_def)
    qed
  qed
qed

end

subsection \<open>The session manager fulfils it\<close>

definition sm_tokens :: "session_manager \<Rightarrow> int \<Rightarrow> llama_token list option" where
  "sm_tokens s i = map_option m_tokens (mSessions s i)"

lemma activate_owner:
  assumes inv: "sm_inv s" and a: "activateForInfer e i s w = Inr (Some c, s', w')"
  shows "\<exists>m. mSessions s' i = Some m \<and> m_state m = HOT \<and> m_ctx m = Some c"
  using inv
proof (cases rule: activate_spec [where e = e and i = i and w = w])
  case (hot m c')
  then show ?thesis using a by (auto simp: touched_def)
next
  case (cold m k s1 w1 r s2 w2)
  then obtain ok s3 w3 where "make_hot e i c s3 w3 = Inr (s', w')"
    using a by (auto simp: activateForInfer_def Let_def bindR_Inr_iff split: option.splits if_splits)
  then show ?thesis by (auto simp: make_hot_def now_ms_def Let_def split: option.splits)
qed (use a in auto)

lemma record_frame:
  assumes inv: "sm_inv s" and r: "recordTokens e i ts s w = Inr (s', w')"
  shows "live w' = live w" and "sm_tokens s' i = map_option (\<lambda>us. us @ ts) (sm_tokens s i)"
proof -
  have "live w' = live w \<and> sm_tokens s' i = map_option (\<lambda>us. us @ ts) (sm_tokens s i)"
    using r by (auto simp: recordTokens_def touchHot_def now_ms_def Let_def bindR_Inr_iff sm_tokens_def
        split: option.splits if_splits)
  then show "live w' = live w" and "sm_tokens s' i = map_option (\<lambda>us. us @ ts) (sm_tokens s i)" by auto
qed

definition sm_good :: "llama_env \<Rightarrow> session_manager \<Rightarrow> history \<Rightarrow> bool" where
  "sm_good e s w \<longleftrightarrow> fresh_init e \<and> sm_inv s \<and> res_inv s w"

interpretation smk: session_keeper "activateForInfer e" "recordTokens e" sm_inv DanglingReference for e
proof unfold_locales
  show "sm_inv s'" if "sm_inv s" "activateForInfer e i s w = Inr (r, s', w')" for s w i r s' w'
    using that(1)
    by (cases rule: activate_spec [where e = e and i = i and w = w]) (use that in auto)
  show "f = DanglingReference" if "sm_inv s" "activateForInfer e i s w = Inl f" for s w i f
    using that sm_exec_fault [of s e "Activate i" w f] by simp
qed (rule record_spec)

interpretation smp: session_provider "activateForInfer e" "recordTokens e" sm_inv DanglingReference
  "sm_good e" sm_tokens for e
proof unfold_locales
  show "sm_good e s' w'" if "sm_good e s w" "activateForInfer e i s w = Inr (r, s', w')" for s w i r s' w'
    using that activate_res [of s w e i r s' w'] by (simp add: sm_good_def)
  show "c \<in> live w' \<and> sm_tokens s' i \<noteq> None"
    if g: "sm_good e s w" and a: "activateForInfer e i s w = Inr (Some c, s', w')" for s w i c s' w'
  proof -
    have "res_on {} s' w'" using activate_res [of s w e i "Some c" s' w'] g a
      by (simp add: sm_good_def res_inv_def)
    then have l: "live w' = ctxs s'" by (simp add: res_on_def)
    obtain m where m: "mSessions s' i = Some m" "m_ctx m = Some c"
      using activate_owner [OF _ a] g by (auto simp: sm_good_def)
    then have "c \<in> ctxs s'" unfolding ctxs_def by blast
    then show ?thesis using l m(1) by (simp add: sm_tokens_def)
  qed
  show "\<exists>s' w'. recordTokens e i ts s w = Inr (s', w') \<and> sm_good e s' w' \<and> live w' = live w \<and>
      sm_tokens s' i = map_option (\<lambda>us. us @ ts) (sm_tokens s i)" if "sm_good e s w" for s w i ts
  proof -
    have inv: "sm_inv s" "res_inv s w" "fresh_init e" using that by (simp_all add: sm_good_def)
    obtain s' w' where r: "recordTokens e i ts s w = Inr (s', w')" "sm_inv s'"
      using record_spec [OF inv(1)] by blast
    show ?thesis
      using r record_frame [OF inv(1) r(1)] record_res [OF inv(1,2) r(1)] inv(3)
      by (auto simp: sm_good_def)
  qed
  show "sm_good e s (ev # w)" if "sm_good e s w" "quiet ev w" for s w ev
    using that res_event [of "{}" s w ev] by (auto simp: sm_good_def res_inv_def quiet_def)
qed (simp add: sm_good_def)

subsection \<open>The engine\<close>

definition engine_ok :: "llama_env \<Rightarrow> llm_engine \<Rightarrow> history \<Rightarrow> bool" where
  "engine_ok e g w \<longleftrightarrow>
     (case le_sessions g of
        None \<Rightarrow> le_model g = None
      | Some s \<Rightarrow> le_model g \<noteq> None \<and> sm_good e s w)"

definition engine_tokens :: "llm_engine \<Rightarrow> int \<Rightarrow> llama_token list option" where
  "engine_tokens g i = (case le_sessions g of None \<Rightarrow> None | Some s \<Rightarrow> sm_tokens s i)"

lemma engine_ready_sessions:
  assumes "engine_ok e g w" "engine_isReady g"
  obtains s m where "le_sessions g = Some s" "le_model g = Some m" "sm_good e s w"
  using assms by (auto simp: engine_ok_def engine_isReady_def split: option.splits)

lemma res_fresh_manager:
  assumes "live w = {}" "ctx_safe w" shows "res_inv (SessionManager m p d) w"
  using assms by (simp add: res_inv_def res_on_def SessionManager_def ctxs_def)

lemma load_spec:
  assumes "fresh_init e" and g: "le_model g = None" "le_sessions g = None" and w: "live w = {}" "ctx_safe w"
  shows "\<exists>ok g' w'. load e order path nCtx nThreads g w = Inr (ok, g', w') \<and> engine_ok e g' w' \<and>
    engine_isReady g' = ok \<and> (ok \<longrightarrow> getModelInfo g' = path) \<and>
    (ok \<longrightarrow> (\<exists>s. le_sessions g' = Some s \<and> mHotLimit s = kDefaultHotLimit \<and>
       mColdLimitBytes s = kDefaultColdLimitBytes \<and> mSessions s = Map.empty))"
proof -
  define w2 where "w2 = ModelLoad path (env_model_params e)
    (env_model e (BackendInit # w) path (env_model_params e)) # BackendInit # w"
  show ?thesis
  proof (cases "env_model e (BackendInit # w) path (env_model_params e)")
    case None
    then show ?thesis
      using g by (auto simp: load_def engine_ok_def engine_isReady_def)
  next
    case (Some m)
    define p where "p = (env_ctx_params e)\<lparr>n_ctx := word_of_int nCtx, n_threads := nThreads\<rparr>"
    define sm where "sm = SessionManager m p ''/data/vendor/miniv_ai/sessions''"
    have inv: "sm_inv sm" "res_inv sm w2"
      using w by (auto simp: sm_def sm_inv_init w2_def intro!: res_fresh_manager)
    have empty: "mHotLru sm = []" "mColdLru sm = []" "mSessions sm = Map.empty" "max 1 kDefaultHotLimit = kDefaultHotLimit"
      by (simp_all add: sm_def SessionManager_def kDefaultHotLimit_def max_def)
    have 1: "setHotLimit e kDefaultHotLimit sm w2 = Inr (sm\<lparr>mHotLimit := kDefaultHotLimit\<rparr>, w2)" (is "_ = Inr (?s1, _)")
      using empty by (simp add: setHotLimit_def evictHotIfNeeded.simps [of e "- 1" "sm\<lparr>mHotLimit := kDefaultHotLimit\<rparr>"])
    note R1 = setHotLimit_res [OF inv 1]
    have 2: "setColdLimit kDefaultColdLimitBytes ?s1 w2 = Inr (?s1\<lparr>mColdLimitBytes := kDefaultColdLimitBytes\<rparr>, w2)"
      using empty by (simp add: setColdLimit_def evictColdIfNeeded_def)
    note R2 = setColdLimit_res [OF conjunct1 [OF R1] conjunct2 [OF R1] 2]
    have "res_inv (?s1\<lparr>mColdLimitBytes := kDefaultColdLimitBytes\<rparr>) (SamplerInit sampler_chain # w2)"
      using res_event [of "{}" _ w2 "SamplerInit sampler_chain"] R2 by (simp add: res_inv_def)
    then have good: "sm_good e (?s1\<lparr>mColdLimitBytes := kDefaultColdLimitBytes\<rparr>) (SamplerInit sampler_chain # w2)"
      using assms(1) R2 by (simp add: sm_good_def)
    have w2: "w2 = ModelLoad path (env_model_params e) (Some m) # BackendInit # w"
      by (simp add: w2_def Some)
    have L: "load e order path nCtx nThreads g w = Inr (True, g\<lparr>le_model := Some m, le_modelPath := path,
        le_ctxParams := p, le_sessions := Some (?s1\<lparr>mColdLimitBytes := kDefaultColdLimitBytes\<rparr>),
        le_sampler := True\<rparr>, SamplerInit sampler_chain # w2)"
      using 1 2 unfolding w2 sm_def p_def by (simp add: load_def Some Let_def g)
    show ?thesis
      unfolding L using good empty(3)
      by (auto simp: engine_ok_def engine_isReady_def getModelInfo_def)
  qed
qed

lemma infer_ok:
  assumes ok: "engine_ok e g w" and x: "infer e i prompt n flag f g w out = Inr (r, g', w', out')"
  shows "engine_ok e g' w'" and "engine_isReady g' = engine_isReady g"
proof -
  obtain s m where s: "le_sessions g = Some s" "le_model g = Some m"
    using x by (auto simp: infer_def split: option.splits)
  then obtain s' where x': "infer_on (activateForInfer e) (recordTokens e) e m i prompt n flag f s w out
      = Inr (r, s', w', out')" and g': "g' = g\<lparr>le_sessions := Some s'\<rparr>"
    using x by (auto simp: infer_def bindR_Inr_iff)
  have "sm_good e s w" using ok s by (simp add: engine_ok_def)
  from smp.infer_on_inv [OF this x'] show "engine_ok e g' w'" "engine_isReady g' = engine_isReady g"
    using s g' by (simp_all add: engine_ok_def engine_isReady_def)
qed

end
