(* ===== verification/Infer_Steps.thy ===== *)
theory Infer_Steps
  imports LLM_Engine
begin

text \<open>
  \<open>LLMEngine::infer\<close> one step at a time, for the threads that run it at once on the same engine.  A turn
  of the decode loop is four steps: the cancel flag is read; the next token is sampled and its text
  looked up; \<open>onToken\<close> is called; the token is stored and decoded.  Another thread, or a binder call,
  may come between any two of them.  Without other threads the steps are \<open>infer\<close>.
\<close>

subsection \<open>Phases and steps\<close>

datatype infer_phase =
    Start
  | Activated ctx \<comment> \<open>the prompt is to be decoded\<close>
  | Prefilled ctx \<comment> \<open>the tokens of the prompt are to be recorded\<close>
  | Decoding ctx nat "llama_token list" \<comment> \<open>at the head of the loop: turns left, tokens generated\<close>
  | Checked ctx nat "llama_token list" \<comment> \<open>the cancel flag has been read and was not set\<close>
  | Sampled ctx nat "llama_token list" llama_token string \<comment> \<open>the token and its text\<close>
  | Emitted ctx nat "llama_token list" llama_token \<comment> \<open>\<open>onToken\<close> has returned\<close>
  | Returned bool

definition infer_turn_on ::
    "(int \<Rightarrow> 's \<Rightarrow> history \<Rightarrow> (ctx option \<times> 's \<times> history) result) \<Rightarrow>
     (int \<Rightarrow> llama_token list \<Rightarrow> 's \<Rightarrow> history \<Rightarrow> ('s \<times> history) result) \<Rightarrow>
     llama_env \<Rightarrow> nat \<Rightarrow> int \<Rightarrow> string \<Rightarrow> int \<Rightarrow> bool option \<Rightarrow> (string \<Rightarrow> 'o \<Rightarrow> 'o) \<Rightarrow>
     infer_phase \<Rightarrow> 's \<Rightarrow> history \<Rightarrow> 'o \<Rightarrow> (infer_phase \<times> 's \<times> history \<times> 'o) result" where
  \<comment> \<open>the cancel flag is \<open>None\<close> for a null pointer, else its value\<close>
  "infer_turn_on activate rec e m i prompt maxTokens cancel onToken ph s w out =
     (case ph of
        Start \<Rightarrow>
          bindR (activate i s w) (\<lambda>(ctx, s', w').
            Inr (case ctx of None \<Rightarrow> Returned False | Some c \<Rightarrow> Activated c, s', w', out))
      | Activated c \<Rightarrow>
          let promptTokens = env_tokenize e m prompt; r = env_decode e w c promptTokens in
          Inr (if r \<noteq> 0 then Returned False else Prefilled c, s, Decode c promptTokens r # w, out)
      | Prefilled c \<Rightarrow>
          bindR (rec i (env_tokenize e m prompt) s w) (\<lambda>(s', w').
            if maxTokens < 0 then Inl LengthError
            else Inr (Decoding c (nat maxTokens) [], s', w', out))
      | Decoding c (Suc k) gen \<Rightarrow>
          Inr (if cancel = Some True then Decoding c 0 gen else Checked c k gen, s,
            (case cancel of None \<Rightarrow> w | Some v \<Rightarrow> CancelLoad v # w), out)
      | Checked c k gen \<Rightarrow>
          let tok = env_sample e w c; w' = Accept tok # Sample c tok # w in
          if env_is_eog e m tok then Inr (Decoding c 0 gen, s, w', out)
          else
            let (n, buf) = env_piece e m tok in
            if n < 0 then Inl LengthError
            else Inr (Sampled c k gen tok (take (nat n) buf), s, w', out)
      | Sampled c k gen tok text \<Rightarrow> Inr (Emitted c k gen tok, s, w, onToken text out)
      | Emitted c k gen tok \<Rightarrow>
          let r = env_decode e w c [tok] in
          Inr (Decoding c (if r \<noteq> 0 then 0 else k) (gen @ [tok]), s, Decode c [tok] r # w, out)
      | Decoding c 0 gen \<Rightarrow>
          bindR (rec i gen s w) (\<lambda>(s', w'). Inr (Returned True, s', w', out))
      | Returned ok \<Rightarrow> Inr (Returned ok, s, w, out))"

lemma infer_turn_on_simps [simp]:
  "infer_turn_on activate rec e m i prompt n cancel f Start s w out =
     bindR (activate i s w) (\<lambda>(ctx, s', w').
       Inr (case ctx of None \<Rightarrow> Returned False | Some c \<Rightarrow> Activated c, s', w', out))"
  "infer_turn_on activate rec e m i prompt n cancel f (Activated c) s w out =
     Inr (if env_decode e w c (env_tokenize e m prompt) \<noteq> 0 then Returned False else Prefilled c, s,
       Decode c (env_tokenize e m prompt) (env_decode e w c (env_tokenize e m prompt)) # w, out)"
  "infer_turn_on activate rec e m i prompt n cancel f (Prefilled c) s w out =
     bindR (rec i (env_tokenize e m prompt) s w) (\<lambda>(s', w').
       if n < 0 then Inl LengthError else Inr (Decoding c (nat n) [], s', w', out))"
  "infer_turn_on activate rec e m i prompt n cancel f (Decoding c (Suc k) gen) s w out =
     Inr (if cancel = Some True then Decoding c 0 gen else Checked c k gen, s,
       (case cancel of None \<Rightarrow> w | Some v \<Rightarrow> CancelLoad v # w), out)"
  "infer_turn_on activate rec e m i prompt n cancel f (Checked c k gen) s w out =
     (if env_is_eog e m (env_sample e w c)
      then Inr (Decoding c 0 gen, s, Accept (env_sample e w c) # Sample c (env_sample e w c) # w, out)
      else if fst (env_piece e m (env_sample e w c)) < 0 then Inl LengthError
      else Inr (Sampled c k gen (env_sample e w c) (piece_text e m (env_sample e w c)), s,
        Accept (env_sample e w c) # Sample c (env_sample e w c) # w, out))"
  "infer_turn_on activate rec e m i prompt n cancel f (Sampled c k gen tok text) s w out =
     Inr (Emitted c k gen tok, s, w, f text out)"
  "infer_turn_on activate rec e m i prompt n cancel f (Emitted c k gen tok) s w out =
     Inr (Decoding c (if env_decode e w c [tok] \<noteq> 0 then 0 else k) (gen @ [tok]), s,
       Decode c [tok] (env_decode e w c [tok]) # w, out)"
  "infer_turn_on activate rec e m i prompt n cancel f (Decoding c 0 gen) s w out =
     bindR (rec i gen s w) (\<lambda>(s', w'). Inr (Returned True, s', w', out))"
  "infer_turn_on activate rec e m i prompt n cancel f (Returned ok) s w out = Inr (Returned ok, s, w, out)"
  by (simp_all add: infer_turn_on_def Let_def piece_text_def split_beta)

lemma infer_phase_cases:
  obtains (start) "ph = Start" | (activated) c where "ph = Activated c" | (prefilled) c where "ph = Prefilled c"
  | (head) c k gen where "ph = Decoding c (Suc k) gen" | (checked) c k gen where "ph = Checked c k gen"
  | (sampled) c k gen tok piece where "ph = Sampled c k gen tok piece" | (emitted) c k gen tok where "ph = Emitted c k gen tok"
  | (recording) c gen where "ph = Decoding c 0 gen" | (returned) ok where "ph = Returned ok"
  by (metis infer_phase.exhaust not0_implies_Suc)

definition infer_turn ::
    "llama_env \<Rightarrow> int \<Rightarrow> string \<Rightarrow> int \<Rightarrow> bool option \<Rightarrow> (string \<Rightarrow> 'o \<Rightarrow> 'o) \<Rightarrow>
     infer_phase \<Rightarrow> llm_engine \<Rightarrow> history \<Rightarrow> 'o \<Rightarrow> (infer_phase \<times> llm_engine \<times> history \<times> 'o) result" where
  "infer_turn e i prompt maxTokens cancel onToken ph g w out =
     (case (le_sessions g, le_model g) of
        (Some s, Some m) \<Rightarrow>
          bindR (infer_turn_on (activateForInfer e) (recordTokens e) e m i prompt maxTokens cancel onToken ph s w out)
            (\<lambda>(ph', s', w', out'). Inr (ph', g\<lparr>le_sessions := Some s'\<rparr>, w', out'))
      | _ \<Rightarrow> Inl NullDereference)"

fun phase_ctx :: "infer_phase \<Rightarrow> ctx option" where
  \<comment> \<open>the context the inference is using\<close>
  "phase_ctx Start = None"
| "phase_ctx (Activated c) = Some c"
| "phase_ctx (Prefilled c) = Some c"
| "phase_ctx (Decoding c k gen) = Some c"
| "phase_ctx (Checked c k gen) = Some c"
| "phase_ctx (Sampled c k gen tok text) = Some c"
| "phase_ctx (Emitted c k gen tok) = Some c"
| "phase_ctx (Returned ok) = None"

fun infer_left :: "int \<Rightarrow> infer_phase \<Rightarrow> nat" where
  \<comment> \<open>at most so many steps are left\<close>
  "infer_left n Start = 4 * nat n + 4"
| "infer_left n (Activated c) = 4 * nat n + 3"
| "infer_left n (Prefilled c) = 4 * nat n + 2"
| "infer_left n (Decoding c k gen) = 4 * k + 1"
| "infer_left n (Checked c k gen) = 4 * k + 4"
| "infer_left n (Sampled c k gen tok text) = 4 * k + 3"
| "infer_left n (Emitted c k gen tok) = 4 * k + 2"
| "infer_left n (Returned ok) = 0"

fun phase_out :: "int \<Rightarrow> infer_phase \<Rightarrow> nat \<Rightarrow> bool" where
  \<comment> \<open>how many tokens can have been passed to the callback\<close>
  "phase_out n Start k = (k = 0)"
| "phase_out n (Activated c) k = (k = 0)"
| "phase_out n (Prefilled c) k = (k = 0)"
| "phase_out n (Decoding c j gen) k = (k = length gen \<and> int (length gen + j) \<le> n)"
| "phase_out n (Checked c j gen) k = (k = length gen \<and> int (length gen + j) < n)"
| "phase_out n (Sampled c j gen tok text) k = (k = length gen \<and> int (length gen + j) < n)"
| "phase_out n (Emitted c j gen tok) k = (k = Suc (length gen) \<and> int (length gen + j) < n)"
| "phase_out n (Returned ok) k = (int k \<le> max 0 n)"

fun past_check :: "infer_phase \<Rightarrow> bool" where
  \<comment> \<open>the flag has been read in this turn of the loop and the token not yet passed on\<close>
  "past_check (Checked c k gen) = True"
| "past_check (Sampled c k gen tok text) = True"
| "past_check ph = False"

lemma turn_left:
  "infer_turn_on activate rec e m i prompt n cancel f ph s w out = Inr (ph', s', w', out') \<Longrightarrow>
    infer_left n ph' \<le> infer_left n ph - 1"
  by (cases rule: infer_phase_cases [of ph]) (auto simp: bindR_Inr_iff split: option.splits if_splits)

lemma left_0: "infer_left n ph = 0 \<longleftrightarrow> (\<exists>ok. ph = Returned ok)"
  by (cases ph) auto

lemma turn_out:
  \<comment> \<open>a step passes at most one token to the callback, and keeps count\<close>
  assumes "infer_turn_on activate rec e m i prompt n cancel f ph s w out = Inr (ph', s', w', out')" "phase_out n ph k"
  shows "out' = out \<and> phase_out n ph' k \<or> (\<exists>t. out' = f t out \<and> phase_out n ph' (Suc k))"
  using assms
  by (cases rule: infer_phase_cases [of ph]) (auto simp: bindR_Inr_iff split: option.splits if_splits)

lemma turn_emits:
  \<comment> \<open>only a step past the check passes a token to the callback\<close>
  assumes "infer_turn_on activate rec e m i prompt n cancel f ph s w out = Inr (ph', s', w', out')"
  shows "out' = out \<or> past_check ph \<and> \<not> past_check ph' \<and> (\<exists>t. out' = f t out)"
  using assms by (cases rule: infer_phase_cases [of ph]) (auto simp: bindR_Inr_iff split: if_splits)

lemma turn_checks:
  \<comment> \<open>a set flag stops the loop before the next token\<close>
  assumes "infer_turn_on activate rec e m i prompt n (Some True) f ph s w out = Inr (ph', s', w', out')" "past_check ph'"
  shows "past_check ph \<and> out' = out"
  using assms by (cases rule: infer_phase_cases [of ph]) (auto simp: bindR_Inr_iff split: option.splits if_splits)

text \<open>A step on an engine, which has a session manager and a model or neither.\<close>

lemma infer_turnE:
  assumes "infer_turn e i prompt n cancel f ph g w out = Inr (ph', g', w', out')"
  obtains s m s' where "le_sessions g = Some s" "le_model g = Some m" "g' = g\<lparr>le_sessions := Some s'\<rparr>"
    "infer_turn_on (activateForInfer e) (recordTokens e) e m i prompt n cancel f ph s w out = Inr (ph', s', w', out')"
  using assms by (auto simp: infer_turn_def bindR_Inr_iff split: option.splits)

subsection \<open>What a step keeps\<close>

context session_keeper
begin

lemma turn_keeps:
  assumes "keep s" "infer_turn_on activate rec e m i prompt n cancel f ph s w out = Inr (ph', s', w', out')"
  shows "keep s'"
proof -
  have "keep s'" if "rec i ts s w = Inr (s', w')" for ts w using record_keeps [OF assms(1), of i ts w] that by auto
  then show ?thesis
    using assms activate_keeps [OF assms(1)]
    by (cases rule: infer_phase_cases [of ph]) (auto simp: bindR_Inr_iff split: if_splits)
qed

lemma turn_fault:
  \<comment> \<open>\<open>length_error\<close>: of a negative number of tokens, or of a text that does not fit its buffer\<close>
  assumes "keep s" "infer_turn_on activate rec e m i prompt n cancel f ph s w out = Inl x"
  shows "x = bad \<or> x = LengthError \<and> (n < 0 \<or> \<not> piece_fits e)"
proof -
  have "rec i ts s w \<noteq> Inl x" for ts w using record_keeps [OF assms(1), of i ts w] by auto
  then show ?thesis
    using assms activate_fault [OF assms(1)]
    by (cases rule: infer_phase_cases [of ph])
      (auto simp: bindR_Inl_iff piece_fits_def not_le split: if_splits intro: exI)
qed

end

context session_provider
begin

lemma turn_inv:
  assumes inv: "inv s w" and live: "\<And>c. phase_ctx ph = Some c \<Longrightarrow> c \<in> live w"
    and x: "infer_turn_on activate rec e m i prompt n cancel f ph s w out = Inr (ph', s', w', out')"
  shows "inv s' w'"
proof -
  have r: "inv s' w'" if "rec i ts s w = Inr (s', w')" for ts using record_law [OF inv, of i ts] that by auto
  show ?thesis
  proof (cases rule: infer_phase_cases [of ph])
    case start
    then show ?thesis using x activate_inv [OF inv] by (auto simp: bindR_Inr_iff)
  next
    case (activated c)
    then show ?thesis using x live quiet_inv [OF inv] by auto
  next
    case (prefilled c)
    then show ?thesis using x r by (auto simp: bindR_Inr_iff split: if_splits)
  next
    case (head c k gen)
    then show ?thesis using x inv quiet_inv [OF inv] by (auto split: option.splits)
  next
    case (checked c k gen)
    then have c: "c \<in> live w" using live by simp
    let ?t = "env_sample e w c"
    have "inv s (Sample c ?t # w)" using c by (intro quiet_inv [OF inv]) simp
    then have "inv s (Accept ?t # Sample c ?t # w)" by (rule quiet_inv) simp
    then show ?thesis using x checked by (auto split: if_splits)
  next
    case (emitted c k gen tok)
    then show ?thesis using x live quiet_inv [OF inv] by auto
  qed (use x r inv in \<open>auto simp: bindR_Inr_iff\<close>)
qed

end

subsection \<open>The steps together\<close>

primrec infer_steps ::
    "(infer_phase \<Rightarrow> 's \<Rightarrow> history \<Rightarrow> 'o \<Rightarrow> (infer_phase \<times> 's \<times> history \<times> 'o) result) \<Rightarrow>
     nat \<Rightarrow> infer_phase \<times> 's \<times> history \<times> 'o \<Rightarrow> (infer_phase \<times> 's \<times> history \<times> 'o) result" where
  "infer_steps turn 0 st = Inr st"
| "infer_steps turn (Suc k) st =
     (case st of (ph, s, w, out) \<Rightarrow> bindR (turn ph s w out) (infer_steps turn k))"

lemma steps_returned:
  "infer_steps (infer_turn_on activate rec e m i prompt n cancel f) k (Returned ok, s, w, out) = Inr (Returned ok, s, w, out)"
  by (induction k) simp_all

lemma steps_recorded:
  "infer_steps (infer_turn_on activate rec e m i prompt n cancel f) (Suc k) (Decoding c 0 gen, s, w, out) =
     bindR (rec i gen s w) (\<lambda>(s', w'). Inr (Returned True, s', w', out))"
  by (cases "rec i gen s w") (auto simp: steps_returned)

lemma steps_iter:
  \<comment> \<open>the four steps of a turn of the loop, or the fewer of its last\<close>
  obtains d where "d \<le> 4" and "\<And>k. infer_steps (infer_turn_on activate rec e m i prompt n None f) (d + k)
      (Decoding c (Suc j) gen, s, w, out) =
     bindR (infer_iter e m c None f (gen, w, out)) (\<lambda>(go, gen', w', out').
       infer_steps (infer_turn_on activate rec e m i prompt n None f) k (Decoding c (if go then j else 0) gen', s, w', out'))"
proof -
  let ?t = "env_sample e w c"
  consider "env_is_eog e m ?t" | "\<not> env_is_eog e m ?t" "fst (env_piece e m ?t) < 0"
    | "\<not> env_is_eog e m ?t" "\<not> fst (env_piece e m ?t) < 0" by blast
  then show thesis
  proof cases
    case 1
    then show ?thesis by (intro that [of 2]) (simp_all add: infer_iter_def Let_def eval_nat_numeral)
  next
    case 2
    then show ?thesis by (intro that [of 2]) (simp_all add: infer_iter_def Let_def eval_nat_numeral split_beta)
  next
    case 3
    then show ?thesis
      by (intro that [of 4]) (simp_all add: infer_iter_def Let_def eval_nat_numeral split_beta piece_text_def)
  qed
qed

lemma steps_decoding:
  assumes "4 * j < k"
  shows "infer_steps (infer_turn_on activate rec e m i prompt n None f) k (Decoding c j gen, s, w, out) =
    bindR (infer_loop e m c False f j (gen, w, out)) (\<lambda>(gen', w', out').
      bindR (rec i gen' s w') (\<lambda>(s', w''). Inr (Returned True, s', w'', out')))"
  using assms
proof (induction j arbitrary: k gen w out)
  case 0
  then obtain k' where k: "k = Suc k'" by (cases k) auto
  show ?case unfolding k steps_recorded by simp
next
  case (Suc j)
  obtain d where d: "d \<le> 4" and it: "\<And>k. infer_steps (infer_turn_on activate rec e m i prompt n None f) (d + k)
      (Decoding c (Suc j) gen, s, w, out) =
     bindR (infer_iter e m c None f (gen, w, out)) (\<lambda>(go, gen', w', out').
       infer_steps (infer_turn_on activate rec e m i prompt n None f) k (Decoding c (if go then j else 0) gen', s, w', out'))"
    by (rule steps_iter) blast
  obtain k' where k: "k = d + Suc k'" "4 * j < Suc k'"
    using d Suc.prems by (intro that [of "k - Suc d"]) auto
  show ?case
  proof (cases "infer_iter e m c None f (gen, w, out)")
    case (Inl x)
    then show ?thesis unfolding k(1) it by simp
  next
    case (Inr r)
    obtain go gen' w' out' where r: "r = (go, gen', w', out')" by (metis prod_cases4)
    show ?thesis
      unfolding k(1) it using Inr Suc.IH [OF k(2)] steps_recorded by (cases go) (auto simp: r simp del: infer_steps.simps)
  qed
qed

lemma steps_infer_on:
  assumes "4 * nat n + 4 \<le> k"
  shows "infer_steps (infer_turn_on activate rec e m i prompt n None f) k (Start, s, w, out) =
    bindR (infer_on activate rec e m i prompt n False f s w out)
      (\<lambda>(ok, s', w', out'). Inr (Returned ok, s', w', out'))"
proof -
  obtain j where k: "k = Suc (Suc (Suc j))" and j: "4 * nat n < j"
    using assms by (intro that [of "k - 3"]) auto
  let ?steps = "infer_steps (infer_turn_on activate rec e m i prompt n None f)"
  let ?ts = "env_tokenize e m prompt"
  show ?thesis
  proof (cases "activate i s w")
    case (Inl x)
    then show ?thesis by (simp add: k infer_on_def prefill_def)
  next
    case (Inr a)
    obtain ctx s1 w1 where a: "a = (ctx, s1, w1)" by (cases a) auto
    show ?thesis
    proof (cases ctx)
      case None
      then show ?thesis using Inr a by (simp add: k infer_on_def prefill_def steps_returned)
    next
      case (Some c)
      show ?thesis
      proof (cases "env_decode e w1 c ?ts = 0")
        case False
        then show ?thesis using Inr a Some by (simp add: k infer_on_def prefill_def Let_def steps_returned)
      next
        case True
        show ?thesis
        proof (cases "rec i ?ts s1 (Decode c ?ts 0 # w1)")
          case (Inl x)
          then show ?thesis using Inr a Some True by (simp add: k infer_on_def prefill_def Let_def)
        next
          case rec: (Inr b)
          obtain s2 w2 where b: "b = (s2, w2)" by (cases b)
          show ?thesis
            using Inr a Some True rec b steps_decoding [OF j, of activate rec e m i prompt n f c "[]" s2 w2 out]
            by (cases "infer_loop e m c False f (nat n) ([], w2, out)")
              (auto simp: k infer_on_def prefill_def Let_def bindR_def split: sum.splits)
        qed
      qed
    qed
  qed
qed

end
