(* ===== verification/Miniv_Log.thy ===== *)
theory Miniv_Log
  imports C_Stdio
begin

text \<open>
  \<open>daemon/include/miniv_log.h\<close>: request ids and the lines of the debug log.  The ids are a global
  counter read and incremented at once; a thread keeps the id it works for.
\<close>

definition miniv_next_req_id :: "int \<Rightarrow> int \<times> int" where
  \<comment> \<open>\<open>fetch_add(1) + 1\<close> on an \<open>atomic<int>\<close>: the id and the new value of the counter\<close>
  "miniv_next_req_id counter = (to_int32 (counter + 1), to_int32 (counter + 1))"

definition pad3 :: "int \<Rightarrow> string" where
  \<comment> \<open>\<open>%03ld\<close> of a number that is not negative\<close>
  "pad3 n = replicate (3 - length (show_int n)) (CHR ''0'') @ show_int n"

definition log_line :: "int \<Rightarrow> int \<Rightarrow> int \<Rightarrow> string \<Rightarrow> string \<Rightarrow> string" where
  \<comment> \<open>the line \<open>miniv_file_log\<close> appends, for the clock \<open>(sec, nsec)\<close> and the thread's request id\<close>
  "log_line sec nsec req level msg =
     ''['' @ show_int sec @ ''.'' @ pad3 (nsec div 1000000) @ '']'' @
     (if 0 < req then ''[req='' @ show_int req @ '']'' else []) @
     ''['' @ level @ ''] '' @ msg @ [newline]"

definition log_message :: "string \<Rightarrow> string" where
  \<comment> \<open>\<open>snprintf\<close> into \<open>miniv_logbuf[1024]\<close>\<close>
  "log_message formatted = take 1023 (c_str formatted)"

definition LOGI :: "int \<Rightarrow> int \<Rightarrow> int \<Rightarrow> string \<Rightarrow> string" where
  "LOGI sec nsec req formatted = log_line sec nsec req ''I'' (log_message formatted)"

definition LOGE :: "int \<Rightarrow> int \<Rightarrow> int \<Rightarrow> string \<Rightarrow> string" where
  "LOGE sec nsec req formatted = log_line sec nsec req ''E'' (log_message formatted)"

lemma next_req_id_range: "- (2 ^ 31) \<le> fst (miniv_next_req_id n) \<and> fst (miniv_next_req_id n) < 2 ^ 31"
  using to_int32_bounds [of "n + 1"] by (simp add: miniv_next_req_id_def)

lemma next_req_id_small: "0 \<le> n \<Longrightarrow> n < 2 ^ 31 - 1 \<Longrightarrow> miniv_next_req_id n = (n + 1, n + 1)"
  by (simp add: miniv_next_req_id_def to_int32_id)

end
