(* ===== verification/Hal_Service.thy ===== *)
theory Hal_Service
  imports Infer_Steps Miniv_Log
begin

text \<open>
  \<open>MiniVAiHalService\<close> of \<open>daemon/include/hal_service.h\<close> and \<open>daemon/src/hal_service.cpp\<close>: the binder calls, the
  table of cancel flags, and the detached thread each accepted \<open>inferStream\<close> starts.  The threads
  share the engine; a step of the service is one binder call or one turn of one thread, in any order:
  each step of the inference (\<open>Infer_Steps\<close>: the calls of the session manager and of the library, the
  reading of the cancel flag, \<open>onToken\<close>), the removal of the cancel flag, and the last callback are the
  turns of a thread.  Two steps that are executed at the same time on unlocked state are the subject of
  \<open>Races\<close>.
\<close>

subsection \<open>Codes of the interface\<close>

definition CREATE_SESSION_ERR_ENGINE_NOT_READY :: int where "CREATE_SESSION_ERR_ENGINE_NOT_READY = - 401"
definition CREATE_SESSION_ERR_ALREADY_EXISTS :: int where "CREATE_SESSION_ERR_ALREADY_EXISTS = - 402"
definition DESTROY_SESSION_ERR_NOT_FOUND :: int where "DESTROY_SESSION_ERR_NOT_FOUND = - 403"
definition INFER_ERR_ENGINE_NOT_READY :: int where "INFER_ERR_ENGINE_NOT_READY = - 404"
definition ERROR_SESSION_NOT_FOUND :: int where "ERROR_SESSION_NOT_FOUND = - 501"

lemmas hal_codes =
  CREATE_SESSION_ERR_ENGINE_NOT_READY_def CREATE_SESSION_ERR_ALREADY_EXISTS_def
  DESTROY_SESSION_ERR_NOT_FOUND_def INFER_ERR_ENGINE_NOT_READY_def ERROR_SESSION_NOT_FOUND_def

subsection \<open>State\<close>

datatype callback =
    onToken int string
  | onComplete int
  | onError int int string

datatype phase =
    Inferring infer_phase \<comment> \<open>in \<open>infer\<close>, or back from it\<close>
  | Erased bool \<comment> \<open>the cancel flag is out of the table\<close>
  | Exited

record hal_thread =
  th_session :: int
  th_prompt :: string
  th_maxTokens :: int
  th_flag :: nat
  th_reqId :: int
  th_phase :: phase
  th_calls :: "callback list" \<comment> \<open>what its callback object has received, oldest first\<close>

datatype reply = RBool bool | RInt int | RString string | RVoid

record hal =
  h_engine :: llm_engine
  h_hist :: history
  h_flags :: "int \<rightharpoonup> nat" \<comment> \<open>\<open>gCancelFlags\<close>\<close>
  h_cells :: "bool list" \<comment> \<open>the \<open>atomic<bool>\<close> objects, by number\<close>
  h_threads :: "hal_thread list"
  h_reqCounter :: int
  h_replies :: "reply list" \<comment> \<open>newest first\<close>

definition hal_start :: "llm_engine \<Rightarrow> history \<Rightarrow> hal" where
  "hal_start g w =
     \<lparr>h_engine = g, h_hist = w, h_flags = Map.empty, h_cells = [], h_threads = [], h_reqCounter = 0,
      h_replies = []\<rparr>"

abbreviation reply_with :: "reply \<Rightarrow> hal \<Rightarrow> hal" where
  "reply_with r h \<equiv> h\<lparr>h_replies := r # h_replies h\<rparr>"

subsection \<open>Binder calls\<close>

definition hal_isReady :: "hal \<Rightarrow> hal" where
  "hal_isReady h = reply_with (RBool (engine_isReady (h_engine h))) h"

definition hal_getModelInfo :: "hal \<Rightarrow> hal" where
  "hal_getModelInfo h = reply_with (RString (getModelInfo (h_engine h))) h"

definition hal_createSession :: "llama_env \<Rightarrow> int \<Rightarrow> hal \<Rightarrow> hal result" where
  "hal_createSession e i h =
     (if \<not> engine_isReady (h_engine h)
      then Inr (reply_with (RInt CREATE_SESSION_ERR_ENGINE_NOT_READY) h)
      else case le_sessions (h_engine h) of
        None \<Rightarrow> Inl NullDereference
      | Some s \<Rightarrow>
          let (ok, s', w') = createSession e i s (h_hist h) in
          Inr (reply_with (RInt (if ok then 0 else CREATE_SESSION_ERR_ALREADY_EXISTS))
                 (h\<lparr>h_engine := (h_engine h)\<lparr>le_sessions := Some s'\<rparr>, h_hist := w'\<rparr>)))"

definition hal_destroySession :: "int \<Rightarrow> hal \<Rightarrow> hal result" where
  "hal_destroySession i h =
     (if \<not> engine_isReady (h_engine h)
      then Inr (reply_with (RInt DESTROY_SESSION_ERR_NOT_FOUND) h)
      else case le_sessions (h_engine h) of
        None \<Rightarrow> Inl NullDereference
      | Some s \<Rightarrow>
          bindR (killSession i s (h_hist h)) (\<lambda>(ok, s', w').
            Inr (reply_with (RInt (if ok then 0 else DESTROY_SESSION_ERR_NOT_FOUND))
                   (h\<lparr>h_engine := (h_engine h)\<lparr>le_sessions := Some s'\<rparr>, h_hist := w'\<rparr>))))"

definition hal_inferStream :: "int \<Rightarrow> string \<Rightarrow> int \<Rightarrow> hal \<Rightarrow> hal" where
  "hal_inferStream i prompt maxTokens h =
     (let (reqId, counter) = miniv_next_req_id (h_reqCounter h);
          h1 = h\<lparr>h_reqCounter := counter\<rparr> in
      if \<not> engine_isReady (h_engine h1) then reply_with (RInt INFER_ERR_ENGINE_NOT_READY) h1
      else
        let flag = length (h_cells h1);
            t = \<lparr>th_session = i, th_prompt = prompt, th_maxTokens = maxTokens, th_flag = flag,
                 th_reqId = reqId, th_phase = Inferring Start, th_calls = []\<rparr>
        in reply_with (RInt 0)
             (h1\<lparr>h_cells := h_cells h1 @ [False], h_flags := (h_flags h1)(i \<mapsto> flag),
                 h_threads := h_threads h1 @ [t]\<rparr>))"

definition hal_cancel :: "int \<Rightarrow> hal \<Rightarrow> hal" where
  "hal_cancel i h =
     reply_with RVoid
       (case h_flags h i of None \<Rightarrow> h | Some f \<Rightarrow> h\<lparr>h_cells := (h_cells h)[f := True]\<rparr>)"

subsection \<open>The detached thread\<close>

definition thread_callback :: "int \<Rightarrow> string \<Rightarrow> callback list \<Rightarrow> callback list" where
  "thread_callback i tok calls = calls @ [onToken i tok]"

definition thread_turn :: "llama_env \<Rightarrow> nat \<Rightarrow> hal \<Rightarrow> hal result" where
  \<comment> \<open>a turn of thread number \<open>k\<close>; a thread that has exited, or never started, does nothing\<close>
  "thread_turn e k h =
     (if length (h_threads h) \<le> k then Inr h
      else
        let t = h_threads h ! k; i = th_session t;
            put = (\<lambda>t' h'. h'\<lparr>h_threads := (h_threads h')[k := t']\<rparr>) in
        case th_phase t of
          Inferring (Returned ok) \<Rightarrow>
            Inr (put (t\<lparr>th_phase := Erased ok\<rparr>) (h\<lparr>h_flags := (h_flags h)(i := None)\<rparr>))
        | Inferring ph \<Rightarrow>
            bindR (infer_turn e i (th_prompt t) (th_maxTokens t) (Some (h_cells h ! th_flag t)) (thread_callback i)
                     ph (h_engine h) (h_hist h) (th_calls t))
              (\<lambda>(ph', g', w', calls).
                 Inr (put (t\<lparr>th_phase := Inferring ph', th_calls := calls\<rparr>) (h\<lparr>h_engine := g', h_hist := w'\<rparr>)))
        | Erased ok \<Rightarrow>
            Inr (put (t\<lparr>th_phase := Exited,
                        th_calls := th_calls t @
                          [if ok then onComplete i
                           else onError i ERROR_SESSION_NOT_FOUND ''SESSION_NOT_FOUND'']\<rparr>) h)
        | Exited \<Rightarrow> Inr h)"

lemma inferring_turn:
  assumes "k < length (h_threads h)" "th_phase (h_threads h ! k) = Inferring ph" "\<And>ok. ph \<noteq> Returned ok"
  shows "thread_turn e k h =
    (let t = h_threads h ! k in
     bindR (infer_turn e (th_session t) (th_prompt t) (th_maxTokens t) (Some (h_cells h ! th_flag t))
              (thread_callback (th_session t)) ph (h_engine h) (h_hist h) (th_calls t))
       (\<lambda>(ph', g', w', calls).
          Inr (h\<lparr>h_engine := g', h_hist := w',
            h_threads := (h_threads h)[k := t\<lparr>th_phase := Inferring ph', th_calls := calls\<rparr>]\<rparr>)))"
proof (cases ph)
  case (Returned ok)
  then show ?thesis using assms(3) by blast
qed (use assms(1,2) in \<open>simp_all add: thread_turn_def Let_def\<close>)

lemma inferring_turnE:
  assumes "k < length (h_threads h)" "th_phase (h_threads h ! k) = Inferring ph" "\<And>ok. ph \<noteq> Returned ok"
    and "thread_turn e k h = Inr h'" and t: "t = h_threads h ! k"
  obtains s m ph' s' w' calls where "le_sessions (h_engine h) = Some s" "le_model (h_engine h) = Some m"
    "infer_turn_on (activateForInfer e) (recordTokens e) e m (th_session t) (th_prompt t) (th_maxTokens t)
       (Some (h_cells h ! th_flag t)) (thread_callback (th_session t)) ph s (h_hist h) (th_calls t)
     = Inr (ph', s', w', calls)"
    "h' = h\<lparr>h_engine := (h_engine h)\<lparr>le_sessions := Some s'\<rparr>, h_hist := w',
       h_threads := (h_threads h)[k := t\<lparr>th_phase := Inferring ph', th_calls := calls\<rparr>]\<rparr>"
  using assms(4) inferring_turn [OF assms(1-3), of e]
  by (auto simp: Let_def t bindR_Inr_iff infer_turn_def split: option.splits)

lemma thread_turn_cases:
  obtains (none) "length (h_threads h) \<le> k" | (exited) "k < length (h_threads h)" "th_phase (h_threads h ! k) = Exited"
  | (inferring) ph where "k < length (h_threads h)" "th_phase (h_threads h ! k) = Inferring ph" "\<And>ok. ph \<noteq> Returned ok"
  | (returned) ok where "k < length (h_threads h)" "th_phase (h_threads h ! k) = Inferring (Returned ok)"
  | (erased) ok where "k < length (h_threads h)" "th_phase (h_threads h ! k) = Erased ok"
  by (metis not_le phase.exhaust)

subsection \<open>The service\<close>

datatype hal_call =
    CallIsReady
  | CallGetModelInfo
  | CallCreateSession int
  | CallDestroySession int
  | CallInferStream int string int
  | CallCancel int
  | Turn nat

fun hal_step :: "llama_env \<Rightarrow> hal_call \<Rightarrow> hal \<Rightarrow> hal result" where
  "hal_step e CallIsReady h = Inr (hal_isReady h)"
| "hal_step e CallGetModelInfo h = Inr (hal_getModelInfo h)"
| "hal_step e (CallCreateSession i) h = hal_createSession e i h"
| "hal_step e (CallDestroySession i) h = hal_destroySession i h"
| "hal_step e (CallInferStream i p n) h = Inr (hal_inferStream i p n h)"
| "hal_step e (CallCancel i) h = Inr (hal_cancel i h)"
| "hal_step e (Turn k) h = thread_turn e k h"

end
