(* ===== verification/LLM_Props.thy ===== *)
theory LLM_Props
  imports LLM_Engine Session_Props
begin

text \<open>The properties of \<open>LLMEngine\<close>, with an engine on which they are tried.\<close>

definition demo_engine :: "(llm_engine \<times> history) result" where
  \<comment> \<open>a loaded engine with the sessions 1, which is HOT and has tokens, and 2\<close>
  "demo_engine =
     bindR (load (demo_env 60) [] ''model.gguf'' 16 4 (LLMEngine demo_ctx_params) []) (\<lambda>(ok, g, w).
       case le_sessions g of
         None \<Rightarrow> Inl NullDereference
       | Some s \<Rightarrow>
           bindR (runR (sm_exec (demo_env 60)) [Create 1, Create 2, Activate 1, Record 1 [7]] (s, w))
             (\<lambda>(s', w'). Inr (g\<lparr>le_sessions := Some s'\<rparr>, w')))"

definition collect :: "string \<Rightarrow> string list \<Rightarrow> string list" where
  "collect t out = out @ [t]"

lemma demo_engine_ok:
  assumes "demo_engine = Inr (g, w)"
  shows "engine_ok (demo_env 60) g w" "engine_isReady g"
proof -
  let ?e = "demo_env 60"
  have z: "le_model (LLMEngine demo_ctx_params) = None" "le_sessions (LLMEngine demo_ctx_params) = None"
    "live [] = {}" "ctx_safe []" by (simp_all add: LLMEngine_def)
  from load_spec [OF demo_fresh [of 60] z, of "[]" "''model.gguf''" 16 4] obtain ok g1 w1
    where L: "load ?e [] ''model.gguf'' 16 4 (LLMEngine demo_ctx_params) [] = Inr (ok, g1, w1)"
      "engine_ok ?e g1 w1" "engine_isReady g1 = ok" by blast
  from assms L(1) obtain s s' where s: "le_sessions g1 = Some s" "g = g1\<lparr>le_sessions := Some s'\<rparr>"
    and r: "runR (sm_exec ?e) [Create 1, Create 2, Activate 1, Record 1 [7]] (s, w1) = Inr (s', w)"
    by (auto simp: demo_engine_def bindR_Inr_iff simp del: runR.simps split: option.splits)
  have ok: "sm_ok (s, w1)" "le_model g1 \<noteq> None" using L(2) s(1) by (simp_all add: engine_ok_def sm_good_def sm_ok_def)
  have "list_all (\<lambda>_. fresh_init ?e) [Create 1, Create 2, Activate 1, Record 1 [7]]"
    by (simp add: demo_fresh)
  from sm.run_keeps [OF ok(1) this r] show "engine_ok ?e g w" "engine_isReady g"
    using s(2) ok(2) by (simp_all add: engine_ok_def sm_ok_def sm_good_def engine_isReady_def demo_fresh)
qed

definition with_engine :: "(llm_engine \<Rightarrow> history \<Rightarrow> bool) \<Rightarrow> bool" where
  "with_engine P = (case demo_engine of Inl f \<Rightarrow> False | Inr (g, w) \<Rightarrow> P g w)"

lemma with_engineE:
  assumes "with_engine P"
  obtains g w s m where "demo_engine = Inr (g, w)" "P g w" "engine_ok (demo_env 60) g w" "engine_isReady g"
    "le_sessions g = Some s" "le_model g = Some m" "sm_good (demo_env 60) s w"
proof -
  obtain g w where d: "demo_engine = Inr (g, w)" "P g w"
    using assms by (auto simp: with_engine_def split: sum.splits)
  note ok = demo_engine_ok [OF d(1)]
  from engine_ready_sessions [OF ok] obtain s m
    where "le_sessions g = Some s" "le_model g = Some m" "sm_good (demo_env 60) s w" .
  then show thesis using that d ok by blast
qed

text \<open>
  C34: \<open>load\<close> returns without a fault on a new engine; it returns \<open>true\<close> exactly when the engine is
  ready afterwards, and then the engine is consistent, has no session, has the default limits, and
  reports the path it was loaded from.
\<close>

theorem load_makes_ready:
  assumes "fresh_init e"
  shows "\<exists>ok g w. load e order path nCtx nThreads (LLMEngine zero) [] = Inr (ok, g, w) \<and> engine_ok e g w \<and>
    engine_isReady g = ok \<and> (ok \<longrightarrow> getModelInfo g = path) \<and>
    (ok \<longrightarrow> (\<exists>s. le_sessions g = Some s \<and> mHotLimit s = kDefaultHotLimit \<and>
       mColdLimitBytes s = kDefaultColdLimitBytes \<and> mSessions s = Map.empty))"
  using load_spec [OF assms, of "LLMEngine zero" "[]" order] by (simp add: LLMEngine_def)

theorem load_makes_ready_witness:
  "\<exists>ok g w. load (demo_env 60) [] ''m'' 2048 4 (LLMEngine demo_ctx_params) [] = Inr (ok, g, w) \<and>
     engine_isReady g = ok"
  using load_makes_ready [OF demo_fresh [of 60], of "[]" "''m''" 2048 4 demo_ctx_params] by blast

text \<open>
  C10: a successful \<open>infer\<close> hands to the callback, in order, the text of the tokens it generated, at
  most \<open>maxTokens\<close> of them and none an end-of-generation token, and appends to the session, after the
  tokens it had when activated, the prompt and exactly those tokens.
\<close>

theorem infer_streams_and_records:
  assumes "engine_ok e g w" and "le_sessions g = Some s" "le_model g = Some m"
    and "infer e i prompt n flag f g w out = Inr (True, g', w', out')"
  shows "\<exists>c s1 w1 us gen. activateForInfer e i s w = Inr (Some c, s1, w1) \<and> sm_tokens s1 i = Some us \<and>
    engine_tokens g' i = Some (us @ env_tokenize e m prompt @ gen) \<and> out' = emit e m f gen out \<and>
    int (length gen) \<le> n \<and> (\<forall>t \<in> set gen. \<not> env_is_eog e m t)"
proof -
  obtain s' where x: "infer_on (activateForInfer e) (recordTokens e) e m i prompt n flag f s w out
      = Inr (True, s', w', out')" and g': "g' = g\<lparr>le_sessions := Some s'\<rparr>"
    using assms(2-4) by (auto simp: infer_def bindR_Inr_iff)
  have "sm_good e s w" using assms(1,2) by (simp add: engine_ok_def)
  from smp.infer_on_records [OF this x] show ?thesis by (simp add: g' engine_tokens_def)
qed

lemma demo_infer:
  "with_engine (\<lambda>g w. le_model g = Some 0 \<and> (case infer (demo_env 60) 1 ''hi'' 3 False collect g w [] of
     Inl f \<Rightarrow> False | Inr (ok, g', w', out) \<Rightarrow> ok \<and> length out = 3))"
  by code_simp

theorem infer_streams_and_records_witness:
  "\<exists>g w g' out. demo_engine = Inr (g, w) \<and> length out = 3 \<and>
     (\<exists>us gen. engine_tokens g' 1 = Some (us @ [104, 105] @ gen) \<and> out = emit (demo_env 60) 0 collect gen [])"
  (is "\<exists>g w g' out. ?R g w g' out")
proof -
  obtain g w s m where d: "demo_engine = Inr (g, w)" "engine_ok (demo_env 60) g w" "le_sessions g = Some s"
    "le_model g = Some m"
    and r0: "le_model g = Some 0 \<and> (case infer (demo_env 60) 1 ''hi'' 3 False collect g w [] of
     Inl f \<Rightarrow> False | Inr (ok, g', w', out) \<Rightarrow> ok \<and> length out = 3)"
    using demo_infer by (rule with_engineE)
  note r = conjunct2 [OF r0]
  obtain ok g' w' out where x: "infer (demo_env 60) 1 ''hi'' 3 False collect g w [] = Inr (ok, g', w', out)"
    by (cases "infer (demo_env 60) 1 ''hi'' 3 False collect g w []") (use r in auto)
  have o: "ok" "length out = 3" using r unfolding x by auto
  have m: "m = 0" using d(4) r0 by simp
  have t: "env_tokenize (demo_env 60) 0 ''hi'' = [104, 105]" by code_simp
  have "?R g w g' out"
    using infer_streams_and_records [OF d(2-4) x [unfolded eqTrueI [OF o(1)]]] d(1) o(2)
    unfolding m t by blast
  then show ?thesis by blast
qed

text \<open>
  Inference keeps the engine consistent: afterwards the live contexts are still those of the HOT
  sessions, and no library call was given a context that had been freed.
\<close>

theorem infer_keeps_engine:
  assumes "engine_ok e g w" and "infer e i prompt n flag f g w out = Inr (r, g', w', out')"
  shows "engine_ok e g' w' \<and> engine_isReady g' = engine_isReady g \<and> ctx_safe w'"
proof -
  obtain s' where "le_sessions g' = Some s'"
    using assms(2) by (auto simp: infer_def bindR_Inr_iff split: option.splits)
  then show ?thesis
    using infer_ok [OF assms] by (auto simp: engine_ok_def sm_good_def res_inv_def dest: res_onD(3))
qed

theorem infer_keeps_engine_witness:
  "\<exists>g w g' w'. demo_engine = Inr (g, w) \<and> engine_ok (demo_env 60) g' w' \<and> length w < length w'"
proof -
  have "with_engine (\<lambda>g w. case infer (demo_env 60) 1 ''hi'' 3 False collect g w [] of
     Inl f \<Rightarrow> False | Inr (ok, g', w', out) \<Rightarrow> length w < length w')" by code_simp
  then obtain g w where d: "demo_engine = Inr (g, w)" "engine_ok (demo_env 60) g w"
    and r: "case infer (demo_env 60) 1 ''hi'' 3 False collect g w [] of
     Inl f \<Rightarrow> False | Inr (ok, g', w', out) \<Rightarrow> length w < length w'"
    by (rule with_engineE)
  obtain ok g' w' out where x: "infer (demo_env 60) 1 ''hi'' 3 False collect g w [] = Inr (ok, g', w', out)"
    by (cases "infer (demo_env 60) 1 ''hi'' 3 False collect g w []") (use r in auto)
  have "length w < length w'" using r unfolding x by simp
  then show ?thesis using d(1) infer_keeps_engine [OF d(2) x] by blast
qed

text \<open>
  On a ready, consistent engine \<open>infer\<close> can fault in two ways only: the dangling reference of
  \<open>activateForInfer\<close>, or a \<open>length_error\<close>, and the latter only for a negative \<open>maxTokens\<close> (\<open>reserve\<close>) or
  a token whose text does not fit the 256-byte buffer (\<open>std::string(buf, n)\<close> with negative \<open>n\<close>).
\<close>

theorem infer_faults:
  assumes "engine_ok e g w" "engine_isReady g" and "infer e i prompt n flag f g w out = Inl x"
  shows "x = DanglingReference \<or> x = LengthError \<and> (n < 0 \<or> \<not> piece_fits e)"
proof -
  obtain s m where s: "le_sessions g = Some s" "le_model g = Some m" "sm_good e s w"
    using engine_ready_sessions [OF assms(1,2)] .
  then have "infer_on (activateForInfer e) (recordTokens e) e m i prompt n flag f s w out = Inl x"
    using assms(3) by (auto simp: infer_def bindR_Inl_iff)
  then show ?thesis by (rule smp.infer_on_fault [OF s(3)])
qed

lemma demo_negative:
  "with_engine (\<lambda>g w. fault_of (infer (demo_env 60) 1 ''hi'' (- 1) False collect g w []) = Some LengthError)"
  by code_simp

theorem infer_faults_witness:
  "\<exists>g w. demo_engine = Inr (g, w) \<and>
     infer (demo_env 60) 1 ''hi'' (- 1) False collect g w [] = Inl LengthError \<and>
     (LengthError = DanglingReference \<or> (- 1 :: int) < 0 \<or> \<not> piece_fits (demo_env 60))"
proof -
  obtain g w where d: "demo_engine = Inr (g, w)" "engine_ok (demo_env 60) g w" "engine_isReady g"
    and "fault_of (infer (demo_env 60) 1 ''hi'' (- 1) False collect g w []) = Some LengthError"
    using demo_negative by (rule with_engineE)
  then have x: "infer (demo_env 60) 1 ''hi'' (- 1) False collect g w [] = Inl LengthError"
    by (simp add: fault_of_Some)
  show ?thesis using d(1) x infer_faults [OF d(2,3) x] by blast
qed

text \<open>
  A negative \<open>maxTokens\<close> ends the daemon by an uncaught \<open>length_error\<close>, after the prompt has been
  decoded: \<open>infer\<close> never returns \<open>true\<close>, and on an existing session whose prefill succeeds it throws.
\<close>

theorem negative_max_tokens:
  assumes "n < 0" and "prefill (activateForInfer e) (recordTokens e) e m i prompt s w = Inr (Some c, s1, w1)"
    and "le_sessions g = Some s" "le_model g = Some m"
  shows "infer e i prompt n flag f g w out = Inl LengthError"
  using assms by (simp add: infer_def infer_on_def)

theorem negative_max_tokens_witness:
  "\<exists>g w. demo_engine = Inr (g, w) \<and> infer (demo_env 60) 2 ''hi'' (- 5) False collect g w [] = Inl LengthError"
proof -
  have "with_engine (\<lambda>g w. le_model g = Some 0 \<and> (case le_sessions g of None \<Rightarrow> False | Some s \<Rightarrow>
      (case prefill (activateForInfer (demo_env 60)) (recordTokens (demo_env 60)) (demo_env 60) 0 2 ''hi'' s w of
         Inr (Some c, s1, w1) \<Rightarrow> True | _ \<Rightarrow> False)))" by code_simp
  then obtain g w s m where d: "demo_engine = Inr (g, w)" "le_sessions g = Some s" "le_model g = Some 0"
    and "case prefill (activateForInfer (demo_env 60)) (recordTokens (demo_env 60)) (demo_env 60) 0 2 ''hi'' s w of
         Inr (Some c, s1, w1) \<Rightarrow> True | _ \<Rightarrow> False" by (rule with_engineE) auto
  then obtain c s1 w1 where p: "prefill (activateForInfer (demo_env 60)) (recordTokens (demo_env 60))
      (demo_env 60) 0 2 ''hi'' s w = Inr (Some c, s1, w1)"
    by (auto split: sum.splits prod.splits option.splits)
  have neg: "(- 5 :: int) < 0" by simp
  have "infer (demo_env 60) 2 ''hi'' (- 5) False collect g w [] = Inl LengthError"
    by (rule negative_max_tokens [OF neg p d(2,3)])
  then show ?thesis using d(1) by blast
qed

text \<open>
  A cancel flag that is set whenever it is read stops generation at once: \<open>infer\<close> does not call
  the callback and returns \<open>true\<close>, and the session keeps the prompt.
\<close>

theorem cancelled_infer_is_silent:
  assumes "engine_ok e g w" and "\<And>w. env_cancel e w"
    and "infer e i prompt n True f g w out = Inr (r, g', w', out')"
  shows "out' = out"
proof -
  obtain s m where "le_sessions g = Some s" "le_model g = Some m"
    using assms(3) by (auto simp: infer_def split: option.splits)
  moreover have "infer_loop e m c True f k (gen, w, out) = Inr (gen', w', out') \<Longrightarrow> out' = out"
    for c k gen w gen' w' and out out' :: 'a
    using infer_loop_cancelled [of e w m c f k gen out] assms(2) by auto
  ultimately show ?thesis
    using assms(3) by (auto simp: infer_def infer_on_def bindR_Inr_iff split: option.splits if_splits)
qed

definition cancelled_env :: llama_env where
  "cancelled_env = (demo_env 60)\<lparr>env_cancel := \<lambda>w. True\<rparr>"

theorem cancelled_infer_is_silent_witness:
  "\<exists>g w g' w'. demo_engine = Inr (g, w) \<and>
     infer cancelled_env 1 ''hi'' 3 True collect g w [] = Inr (True, g', w', [])"
proof -
  have "with_engine (\<lambda>g w. case infer cancelled_env 1 ''hi'' 3 True collect g w [] of
     Inl f \<Rightarrow> False | Inr (ok, g', w', out) \<Rightarrow> ok)" by code_simp
  then obtain g w where d: "demo_engine = Inr (g, w)" "engine_ok (demo_env 60) g w"
    and r: "case infer cancelled_env 1 ''hi'' 3 True collect g w [] of
     Inl f \<Rightarrow> False | Inr (ok, g', w', out) \<Rightarrow> ok" by (rule with_engineE)
  obtain ok g' w' out where x: "infer cancelled_env 1 ''hi'' 3 True collect g w [] = Inr (ok, g', w', out)"
    by (cases "infer cancelled_env 1 ''hi'' 3 True collect g w []") (use r in auto)
  have "fresh_init cancelled_env = fresh_init (demo_env 60)"
    by (simp add: fresh_init_def cancelled_env_def)
  then have "engine_ok cancelled_env g w" using d(2) by (auto simp: engine_ok_def sm_good_def split: option.splits)
  from cancelled_infer_is_silent [OF this _ x] have "out = []" by (simp add: cancelled_env_def)
  then show ?thesis using d(1) x r by auto
qed

text \<open>
  C36: \<open>~LLMEngine\<close> frees the model and shuts the backend down before any session's context: the body
  of the destructor runs before the members are destroyed.  All contexts are freed, none twice.
\<close>

theorem engine_destructor_order:
  assumes "engine_ok e g w" "le_sessions g = Some s" "le_model g = Some m" "le_sampler g"
    and "distinct order" "set order = dom (mSessions s)"
  shows "\<exists>frees. LLMEngine_dtor order g w = frees @ [BackendFree, ModelFree m, SamplerFree] @ w \<and>
    LlamaFree ` live w = set frees \<and> live (LLMEngine_dtor order g w) = {} \<and>
    ctx_safe (LLMEngine_dtor order g w)"
proof -
  let ?w = "[BackendFree, ModelFree m, SamplerFree] @ w"
  have g: "sm_inv s" "res_inv s w" using assms(1,2) by (simp_all add: engine_ok_def sm_good_def)
  have r: "res_inv s ?w" using g(2) by (simp add: res_inv_def res_on_def)
  have d: "LLMEngine_dtor order g w = SessionManager_dtor order s ?w"
    using assms(2-4) by (simp add: LLMEngine_dtor_def Let_def)
  note R = dtor_res [OF g(1) r assms(5,6)]
  have "\<exists>frees. SessionManager_dtor l s v = frees @ v \<and>
      set frees = {LlamaFree c | c. \<exists>i \<in> set l. \<exists>mi. mSessions s i = Some mi \<and> m_ctx mi = Some c}" for l v
  proof (induction l rule: rev_induct)
    case (snoc i l)
    then obtain frees where F: "SessionManager_dtor l s v = frees @ v"
      "set frees = {LlamaFree c | c. \<exists>i \<in> set l. \<exists>mi. mSessions s i = Some mi \<and> m_ctx mi = Some c}" by blast
    show ?case
    proof (cases "\<exists>mi c. mSessions s i = Some mi \<and> m_ctx mi = Some c")
      case True
      then obtain mi c where m: "mSessions s i = Some mi" "m_ctx mi = Some c" by blast
      have "m_state mi = HOT" using inv_meta [OF g(1) m(1)] m(2) by (auto simp: meta_ok_def)
      then have "SessionManager_dtor (l @ [i]) s v = (LlamaFree c # frees) @ v"
        using F(1) m by (simp add: SessionManager_dtor_def)
      then show ?thesis using F(2) m by (intro exI [of _ "LlamaFree c # frees"]) auto
    next
      case False
      then have "SessionManager_dtor (l @ [i]) s v = frees @ v"
        using F(1) by (auto simp: SessionManager_dtor_def split: option.splits)
      then show ?thesis using F(2) False by (intro exI [of _ frees]) auto
    qed
  qed (simp add: SessionManager_dtor_def)
  then obtain frees where F: "SessionManager_dtor order s ?w = frees @ ?w"
    "set frees = {LlamaFree c | c. \<exists>i \<in> set order. \<exists>mi. mSessions s i = Some mi \<and> m_ctx mi = Some c}" by blast
  have "live w = ctxs s" using g(2) by (simp add: res_inv_def res_on_def)
  then have "LlamaFree ` live w = set frees" unfolding F(2) assms(6) ctxs_def by blast
  then show ?thesis using F(1) R unfolding d by blast
qed

theorem engine_destructor_order_witness:
  "\<exists>g w. demo_engine = Inr (g, w) \<and> (\<exists>order frees. LLMEngine_dtor order g w =
     frees @ [BackendFree, ModelFree 0, SamplerFree] @ w \<and> frees \<noteq> [])"
proof -
  have "with_engine (\<lambda>g w. le_model g = Some 0 \<and> le_sampler g \<and>
      (case le_sessions g of None \<Rightarrow> False | Some s \<Rightarrow> map_option m_state (mSessions s 1) = Some HOT))" by code_simp
  then obtain g w s where d: "demo_engine = Inr (g, w)" "engine_ok (demo_env 60) g w" "le_sessions g = Some s"
    "le_model g = Some 0" "le_sampler g" "sm_good (demo_env 60) s w" and h: "map_option m_state (mSessions s 1) = Some HOT"
    by (rule with_engineE) auto
  have "finite (dom (mSessions s))" using d(6) by (simp add: sm_good_def sm_inv_def inv_on_def)
  from finite_distinct_list [OF this] obtain order
    where o: "set order = dom (mSessions s)" "distinct order" by (elim exE conjE)
  obtain m c where m: "mSessions s 1 = Some m" "m_ctx m = Some c"
    using h inv_meta [of s 1] d(6) by (auto simp: sm_good_def meta_ok_def)
  then have "c \<in> live w" using d(6) by (auto simp: sm_good_def res_inv_def res_on_def ctxs_def)
  then have "live w \<noteq> {}" by blast
  then have "LlamaFree ` live w \<noteq> {}" by simp
  moreover obtain frees where D: "LLMEngine_dtor order g w = frees @ [BackendFree, ModelFree 0, SamplerFree] @ w"
    "LlamaFree ` live w = set frees"
    using engine_destructor_order [OF d(2-5) o(2,1)] by (elim exE conjE)
  ultimately have "frees \<noteq> []" by (metis list.set(1))
  with D have "\<exists>order frees. LLMEngine_dtor order g w =
     frees @ [BackendFree, ModelFree 0, SamplerFree] @ w \<and> frees \<noteq> []" by blast
  then show ?thesis using d(1) by blast
qed

end
