(* ===== verification/Hal_Props.thy ===== *)
theory Hal_Props
  imports Hal_Service LLM_Props
begin

text \<open>
  What the service promises to its binder clients, for every interleaving of calls and threads: the
  protocol of the stream callbacks, the effect of \<open>cancel\<close>, the return codes; and where overlapping
  requests break it.
\<close>

subsection \<open>The invariant\<close>

definition stream_end :: "int \<Rightarrow> callback set" where
  "stream_end i = {onComplete i, onError i ERROR_SESSION_NOT_FOUND ''SESSION_NOT_FOUND''}"

definition stream_ok :: "hal_thread \<Rightarrow> bool" where
  \<comment> \<open>tokens first, at most \<open>maxTokens\<close> of them, then one last call, made as the thread ends\<close>
  "stream_ok t \<longleftrightarrow>
     (\<exists>toks.
        (case th_phase t of
           Inferring ph \<Rightarrow> th_calls t = map (onToken (th_session t)) toks \<and> phase_out (th_maxTokens t) ph (length toks)
         | Erased ok \<Rightarrow>
             th_calls t = map (onToken (th_session t)) toks \<and> int (length toks) \<le> max 0 (th_maxTokens t)
         | Exited \<Rightarrow>
             (\<exists>z \<in> stream_end (th_session t). th_calls t = map (onToken (th_session t)) toks @ [z]) \<and>
             int (length toks) \<le> max 0 (th_maxTokens t)))"

lemma phase_out_bound: "phase_out n ph k \<Longrightarrow> int k \<le> max 0 n"
  by (cases ph) auto

lemma stream_calls:
  assumes "stream_ok t"
  shows "\<exists>toks last. th_calls t = map (onToken (th_session t)) toks @ last \<and> int (length toks) \<le> max 0 (th_maxTokens t) \<and>
    (if th_phase t = Exited then \<exists>z \<in> stream_end (th_session t). last = [z] else last = [])"
proof (cases "th_phase t")
  case (Inferring ph)
  then obtain toks where "th_calls t = map (onToken (th_session t)) toks" "phase_out (th_maxTokens t) ph (length toks)"
    using assms by (auto simp: stream_ok_def)
  then show ?thesis using Inferring phase_out_bound by (intro exI [of _ toks] exI [of _ "[]"]) simp
next
  case (Erased ok)
  then obtain toks where "th_calls t = map (onToken (th_session t)) toks" "int (length toks) \<le> max 0 (th_maxTokens t)"
    using assms by (auto simp: stream_ok_def)
  then show ?thesis using Erased by (intro exI [of _ toks] exI [of _ "[]"]) simp
next
  case Exited
  then obtain toks z where "z \<in> stream_end (th_session t)" "th_calls t = map (onToken (th_session t)) toks @ [z]"
    "int (length toks) \<le> max 0 (th_maxTokens t)"
    using assms by (auto simp: stream_ok_def)
  then show ?thesis using Exited by (intro exI [of _ toks] exI [of _ "[z]"]) auto
qed

definition engine_shape :: "llm_engine \<Rightarrow> bool" where
  "engine_shape g \<longleftrightarrow>
     (case le_sessions g of None \<Rightarrow> le_model g = None | Some s \<Rightarrow> le_model g \<noteq> None \<and> sm_inv s)"

definition hal_inv :: "hal \<Rightarrow> bool" where
  "hal_inv h \<longleftrightarrow>
     engine_shape (h_engine h) \<and>
     (\<forall>i f. h_flags h i = Some f \<longrightarrow> f < length (h_cells h)) \<and>
     (\<forall>t \<in> set (h_threads h). stream_ok t \<and> th_flag t < length (h_cells h) \<and>
        (th_phase t \<noteq> Exited \<longrightarrow> engine_isReady (h_engine h)))"

lemma engine_shape_cases:
  assumes "engine_shape g"
  obtains (unloaded) "le_sessions g = None" "le_model g = None"
  | (loaded) s m where "le_sessions g = Some s" "le_model g = Some m" "sm_inv s"
  using assms by (auto simp: engine_shape_def split: option.splits)

lemma hal_inv_start: "engine_ok e g w \<Longrightarrow> hal_inv (hal_start g w)"
  by (auto simp: hal_inv_def hal_start_def engine_ok_def engine_shape_def sm_good_def split: option.splits)

lemma hal_inv_engine:
  \<comment> \<open>replacing the sessions of a loaded engine\<close>
  assumes "hal_inv h" "le_sessions (h_engine h) = Some s" "sm_inv s'"
  shows "hal_inv (h\<lparr>h_engine := (h_engine h)\<lparr>le_sessions := Some s'\<rparr>, h_hist := w'\<rparr>)"
  using assms by (auto simp: hal_inv_def engine_shape_def engine_isReady_def)

lemma hal_inv_reply: "hal_inv (h\<lparr>h_replies := rs\<rparr>) = hal_inv h"
  by (simp add: hal_inv_def)

lemma hal_inv_thread:
  assumes "hal_inv h" "k < length (h_threads h)" "stream_ok t" "th_flag t = th_flag (h_threads h ! k)"
    "th_phase t \<noteq> Exited \<Longrightarrow> th_phase (h_threads h ! k) \<noteq> Exited"
  shows "hal_inv (h\<lparr>h_threads := (h_threads h)[k := t]\<rparr>)"
proof -
  have "h_threads h ! k \<in> set (h_threads h)" using assms(2) by simp
  then have "th_flag t < length (h_cells h)" "th_phase t \<noteq> Exited \<longrightarrow> engine_isReady (h_engine h)"
    using assms(1,4,5) by (auto simp: hal_inv_def)
  then show ?thesis
    using assms(1,3) by (auto simp: hal_inv_def dest!: set_update_subset_insert [THEN subsetD])
qed

subsection \<open>Binder calls keep it\<close>

lemma create_hal:
  assumes "hal_inv h" "hal_createSession e i h = Inr h'" shows "hal_inv h'"
proof (cases "engine_isReady (h_engine h)")
  case True
  then obtain s where s: "le_sessions (h_engine h) = Some s"
    using assms(2) by (auto simp: hal_createSession_def split: option.splits)
  obtain ok s' w' where c: "createSession e i s (h_hist h) = (ok, s', w')" by (metis prod_cases3)
  have "sm_inv s" using assms(1) s by (auto simp: hal_inv_def engine_shape_def)
  from hal_inv_engine [OF assms(1) s create_inv [OF this c], of w'] show ?thesis
    using assms(2) True s c by (auto simp: hal_createSession_def hal_inv_reply)
qed (use assms in \<open>auto simp: hal_createSession_def hal_inv_reply\<close>)

lemma destroy_hal:
  assumes "hal_inv h"
  shows "\<exists>h'. hal_destroySession i h = Inr h' \<and> hal_inv h'"
proof (cases "engine_isReady (h_engine h)")
  case True
  have "engine_shape (h_engine h)" using assms by (simp add: hal_inv_def)
  then obtain s where s: "le_sessions (h_engine h) = Some s" "sm_inv s"
    using True by (cases rule: engine_shape_cases) (auto simp: engine_isReady_def)
  obtain ok s' w' where k: "killSession i s (h_hist h) = Inr (ok, s', w')" "sm_inv s'"
    using kill_total [OF s(2)] by blast
  from hal_inv_engine [OF assms s(1) k(2), of w'] show ?thesis
    using True s k by (simp add: hal_destroySession_def hal_inv_reply)
qed (use assms in \<open>auto simp: hal_destroySession_def hal_inv_reply\<close>)

lemma infer_hal: "hal_inv h \<Longrightarrow> hal_inv (hal_inferStream i p n h)"
  by (auto simp: hal_inferStream_def miniv_next_req_id_def Let_def hal_inv_def stream_ok_def less_SucI
      split: if_splits intro: exI [of _ "[]"])

lemma cancel_hal: "hal_inv h \<Longrightarrow> hal_inv (hal_cancel i h)"
  by (auto simp: hal_cancel_def hal_inv_def split: option.splits)

subsection \<open>Thread turns keep it\<close>

lemma inferring_stream:
  assumes "stream_ok t" "th_phase t = Inferring ph"
    and "infer_turn_on activate rec e m i prompt (th_maxTokens t) cancel (thread_callback (th_session t)) ph s w (th_calls t)
      = Inr (ph', s', w', calls)"
  shows "stream_ok (t\<lparr>th_phase := Inferring ph', th_calls := calls\<rparr>)"
proof -
  obtain toks where T: "th_calls t = map (onToken (th_session t)) toks" "phase_out (th_maxTokens t) ph (length toks)"
    using assms(1,2) by (auto simp: stream_ok_def)
  from turn_out [OF assms(3) T(2)] show ?thesis
  proof
    assume "calls = th_calls t \<and> phase_out (th_maxTokens t) ph' (length toks)"
    then show ?thesis using T(1) by (auto simp: stream_ok_def)
  next
    assume "\<exists>u. calls = thread_callback (th_session t) u (th_calls t) \<and> phase_out (th_maxTokens t) ph' (Suc (length toks))"
    then obtain u where "calls = th_calls t @ [onToken (th_session t) u]" "phase_out (th_maxTokens t) ph' (Suc (length toks))"
      by (auto simp: thread_callback_def)
    then show ?thesis using T(1) by (auto simp: stream_ok_def intro!: exI [of _ "toks @ [u]"])
  qed
qed

lemma thread_turn_spec:
  assumes inv: "hal_inv h"
  shows "case thread_turn e k h of Inl f \<Rightarrow> f = DanglingReference \<or> f = LengthError | Inr h' \<Rightarrow> hal_inv h'"
proof (cases rule: thread_turn_cases [of h k])
  case (inferring ph)
  define t where "t = h_threads h ! k"
  have "t \<in> set (h_threads h)" using inferring(1) by (simp add: t_def)
  then have ok: "stream_ok t" and "engine_isReady (h_engine h)"
    using inv inferring(2) by (auto simp: hal_inv_def t_def)
  then obtain s m where g: "le_sessions (h_engine h) = Some s" "le_model (h_engine h) = Some m" "sm_inv s"
    using inv by (auto simp: hal_inv_def engine_isReady_def elim: engine_shape_cases)
  let ?turn = "infer_turn_on (activateForInfer e) (recordTokens e) e m (th_session t) (th_prompt t) (th_maxTokens t)
      (Some (h_cells h ! th_flag t)) (thread_callback (th_session t)) ph s (h_hist h) (th_calls t)"
  note T = inferring_turn [OF inferring, of e, folded t_def]
  show ?thesis
  proof (cases ?turn)
    case (Inl f)
    then show ?thesis using smk.turn_fault [OF g(3) Inl] T g by (auto simp: infer_turn_def)
  next
    case (Inr r)
    obtain ph' s' w' calls where r: "?turn = Inr (ph', s', w', calls)" using Inr by (metis prod_cases4)
    let ?h = "h\<lparr>h_engine := (h_engine h)\<lparr>le_sessions := Some s'\<rparr>, h_hist := w'\<rparr>"
    have "hal_inv ?h" by (rule hal_inv_engine [OF inv g(1) smk.turn_keeps [OF g(3) r]])
    moreover have "stream_ok (t\<lparr>th_phase := Inferring ph', th_calls := calls\<rparr>)"
      by (rule inferring_stream [OF ok _ r]) (simp add: t_def inferring(2))
    ultimately show ?thesis
      using T r g hal_inv_thread [of ?h k "t\<lparr>th_phase := Inferring ph', th_calls := calls\<rparr>"] inferring(1,2)
      by (simp add: infer_turn_def t_def)
  qed
next
  case (returned ok)
  have h1: "hal_inv (h\<lparr>h_flags := (h_flags h)(th_session (h_threads h ! k) := None)\<rparr>)"
    using inv by (auto simp: hal_inv_def)
  have "h_threads h ! k \<in> set (h_threads h)" using returned(1) by simp
  then have "stream_ok (h_threads h ! k)" using inv by (simp add: hal_inv_def)
  then have "stream_ok ((h_threads h ! k)\<lparr>th_phase := Erased ok\<rparr>)"
    using returned(2) by (auto simp: stream_ok_def)
  then show ?thesis
    using hal_inv_thread [OF h1, of k "(h_threads h ! k)\<lparr>th_phase := Erased ok\<rparr>"] returned
    by (simp add: thread_turn_def Let_def)
next
  case (erased ok)
  let ?t = "h_threads h ! k"
  let ?u = "?t\<lparr>th_phase := Exited, th_calls := th_calls ?t @
      [if ok then onComplete (th_session ?t)
       else onError (th_session ?t) ERROR_SESSION_NOT_FOUND ''SESSION_NOT_FOUND'']\<rparr>"
  have "?t \<in> set (h_threads h)" using erased(1) by simp
  then have "stream_ok ?t" using inv by (simp add: hal_inv_def)
  then have "stream_ok ?u" using erased(2) by (auto simp: stream_ok_def stream_end_def)
  then show ?thesis
    using hal_inv_thread [OF inv erased(1), of ?u] erased by (simp add: thread_turn_def Let_def)
qed (use inv in \<open>simp_all add: thread_turn_def Let_def\<close>)

interpretation hal: machine "hal_step e" hal_inv "\<lambda>_. True" "\<lambda>f. f = DanglingReference \<or> f = LengthError" for e
proof unfold_locales
  fix h c h'
  assume inv: "hal_inv h" and s: "hal_step e c h = Inr h'"
  show "hal_inv h'"
  proof (cases c)
    case (CallDestroySession i)
    then show ?thesis using s destroy_hal [OF inv, of i] by auto
  next
    case (Turn k)
    then show ?thesis using s thread_turn_spec [OF inv, of e k] by auto
  qed (use s inv create_hal infer_hal cancel_hal in
      \<open>auto simp: hal_isReady_def hal_getModelInfo_def hal_inv_reply\<close>)
next
  fix h c f
  assume inv: "hal_inv h" and s: "hal_step e c h = Inl f"
  show "f = DanglingReference \<or> f = LengthError"
  proof (cases c)
    case (CallCreateSession i)
    have "engine_shape (h_engine h)" using inv by (simp add: hal_inv_def)
    then show ?thesis
      using s CallCreateSession
      by (cases rule: engine_shape_cases)
        (auto simp: hal_createSession_def engine_isReady_def split: if_splits prod.splits)
  next
    case (CallDestroySession i)
    then show ?thesis using s destroy_hal [OF inv, of i] by auto
  next
    case (Turn k)
    then show ?thesis using s thread_turn_spec [OF inv, of e k] by auto
  qed (use s in auto)
qed

subsection \<open>Cancelling\<close>

lemma same_update: "\<exists>t. xs = xs[k := t]" "\<exists>t. xs[k := u] = xs[k := t]"
  by (metis list_update_id) blast

lemma turn_shape:
  assumes "thread_turn e k h = Inr h'"
  shows "(\<exists>t. h_threads h' = (h_threads h)[k := t]) \<and> h_cells h' = h_cells h"
proof (cases rule: thread_turn_cases [of h k])
  case (inferring ph)
  then show ?thesis using assms by (auto simp: inferring_turn Let_def bindR_Inr_iff)
qed (use assms in \<open>auto simp: thread_turn_def Let_def same_update\<close>)

lemma step_cells:
  assumes "hal_step e c h = Inr h'" "f < length (h_cells h)" "h_cells h ! f"
  shows "f < length (h_cells h') \<and> h_cells h' ! f"
proof (cases c)
  case (CallCancel i)
  then show ?thesis
    using assms by (auto simp: hal_cancel_def split: option.splits) (metis nth_list_update_eq nth_list_update_neq)
next
  case (Turn k)
  then have "h_cells h' = h_cells h" using assms(1) turn_shape by simp
  then show ?thesis using assms by simp
qed (use assms in \<open>auto simp: hal_isReady_def hal_getModelInfo_def hal_createSession_def hal_destroySession_def
      hal_inferStream_def Let_def nth_append bindR_Inr_iff split: if_splits prod.splits option.splits\<close>)

lemma step_other_threads:
  assumes "hal_step e c h = Inr h'" "k < length (h_threads h)" "c \<noteq> Turn k"
  shows "k < length (h_threads h') \<and> h_threads h' ! k = h_threads h ! k"
proof (cases c)
  case (CallCancel i)
  then show ?thesis using assms by (auto simp: hal_cancel_def split: option.splits)
next
  case (Turn j)
  then obtain t' where "h_threads h' = (h_threads h)[j := t']"
    using assms(1) turn_shape [of e j h h'] by auto
  then show ?thesis using assms(2,3) Turn by (auto simp: nth_list_update)
qed (use assms in \<open>auto simp: hal_isReady_def hal_getModelInfo_def hal_createSession_def hal_destroySession_def
      hal_inferStream_def Let_def nth_append bindR_Inr_iff split: if_splits prod.splits option.splits\<close>)

definition past :: "hal_thread \<Rightarrow> bool" where
  \<comment> \<open>between the check of the cancel flag and the call of \<open>onToken\<close>\<close>
  "past t = (case th_phase t of Inferring ph \<Rightarrow> past_check ph | _ \<Rightarrow> False)"

definition received :: "nat \<Rightarrow> callback list \<Rightarrow> hal_thread \<Rightarrow> bool" where
  \<comment> \<open>the object has received \<open>calls\<close>, then at most \<open>b\<close> tokens, with the one the thread is about to pass
    on, then, as the thread ends, the last call\<close>
  "received b calls t \<longleftrightarrow>
     (\<exists>toks last. th_calls t = calls @ map (onToken (th_session t)) toks @ last \<and>
        length toks + of_bool (past t) \<le> b \<and>
        (if th_phase t = Exited then \<exists>z \<in> stream_end (th_session t). last = [z] else last = []))"

definition cancelled :: "nat \<Rightarrow> nat \<Rightarrow> nat \<Rightarrow> callback list \<Rightarrow> hal \<Rightarrow> bool" where
  \<comment> \<open>thread \<open>k\<close>, whose flag is set, has received \<open>calls\<close>, at most \<open>b\<close> tokens and its last call since\<close>
  "cancelled k f b calls h \<longleftrightarrow>
     k < length (h_threads h) \<and> f < length (h_cells h) \<and> h_cells h ! f \<and>
     (let t = h_threads h ! k in th_flag t = f \<and> received b calls t)"

lemma receivedI:
  assumes "th_calls t = calls @ map (onToken (th_session t)) toks @ zs" "length toks + of_bool (past t) \<le> b"
    and "if th_phase t = Exited then \<exists>z \<in> stream_end (th_session t). zs = [z] else zs = []"
  shows "received b calls t"
  unfolding received_def using assms by blast

lemma receivedE:
  assumes "received b calls t" "th_phase t \<noteq> Exited"
  obtains toks where "th_calls t = calls @ map (onToken (th_session t)) toks" "length toks + of_bool (past t) \<le> b"
  using assms by (auto simp: received_def)

lemma turn_cancelled:
  assumes "thread_turn e k h = Inr h'" "cancelled k f b calls h"
  shows "\<exists>t'. h_threads h' ! k = t' \<and> th_flag t' = f \<and> k < length (h_threads h') \<and> received b calls t'"
proof -
  let ?t = "h_threads h ! k"
  have k: "k < length (h_threads h)" "th_flag ?t = f" "h_cells h ! f" "received b calls ?t"
    using assms(2) by (auto simp: cancelled_def Let_def)
  show ?thesis
  proof (cases rule: thread_turn_cases [of h k])
    case (inferring ph)
    obtain toks where T: "th_calls ?t = calls @ map (onToken (th_session ?t)) toks" "length toks + of_bool (past ?t) \<le> b"
      using k(4) inferring(2) by (elim receivedE) auto
    show ?thesis
    proof (rule inferring_turnE [OF inferring assms(1) refl], goal_cases)
      case (1 s m ph' s' w' calls')
      let ?u = "?t\<lparr>th_phase := Inferring ph', th_calls := calls'\<rparr>"
      have set: "h_cells h ! th_flag ?t" using k(2,3) by simp
      note turn = 1(3) [unfolded eqTrueI [OF set]]
      have "past ?u \<Longrightarrow> past ?t"
        using turn_checks [OF turn] inferring(2) by (simp add: past_def)
      then have past: "of_bool (past ?u) \<le> (of_bool (past ?t) :: nat)" by (simp add: of_bool_def)
      have "received b calls ?u"
        using turn_emits [OF turn]
      proof
        assume "calls' = th_calls ?t"
        then show ?thesis using T past by (intro receivedI [of _ _ toks "[]"]) (simp_all, cases "past ?t", simp_all)
      next
        assume "past_check ph \<and> \<not> past_check ph' \<and> (\<exists>u. calls' = thread_callback (th_session ?t) u (th_calls ?t))"
        then obtain u where u: "past ?t" "\<not> past ?u" "calls' = th_calls ?t @ [onToken (th_session ?t) u]"
          using inferring(2) by (auto simp: past_def thread_callback_def)
        then show ?thesis using T by (intro receivedI [of _ _ "toks @ [u]" "[]"]) simp_all
      qed
      then show ?case using 1(4) k by simp
    qed
  next
    case (returned ok)
    obtain toks where "th_calls ?t = calls @ map (onToken (th_session ?t)) toks" "length toks + of_bool (past ?t) \<le> b"
      using k(4) returned(2) by (elim receivedE) auto
    then have "received b calls (?t\<lparr>th_phase := Erased ok\<rparr>)"
      by (intro receivedI [of _ _ toks "[]"]) (simp_all add: past_def)
    then show ?thesis using assms(1) k returned by (auto simp: thread_turn_def Let_def)
  next
    case (erased ok)
    let ?z = "if ok then onComplete (th_session ?t) else onError (th_session ?t) ERROR_SESSION_NOT_FOUND ''SESSION_NOT_FOUND''"
    obtain toks where "th_calls ?t = calls @ map (onToken (th_session ?t)) toks" "length toks + of_bool (past ?t) \<le> b"
      using k(4) erased(2) by (elim receivedE) auto
    then have "received b calls (?t\<lparr>th_phase := Exited, th_calls := th_calls ?t @ [?z]\<rparr>)"
      by (intro receivedI [of _ _ toks "[?z]"]) (simp_all add: past_def stream_end_def)
    then show ?thesis using assms(1) k erased by (auto simp: thread_turn_def Let_def)
  qed (use assms(1) k in \<open>auto simp: thread_turn_def Let_def\<close>)
qed

lemma step_cancelled:
  assumes "hal_step e c h = Inr h'" "cancelled k f b calls h"
  shows "cancelled k f b calls h'"
proof -
  have k: "k < length (h_threads h)" and f: "f < length (h_cells h)" "h_cells h ! f"
    using assms(2) by (auto simp: cancelled_def Let_def)
  note C = step_cells [OF assms(1) f]
  show ?thesis
  proof (cases "c = Turn k")
    case True
    then show ?thesis using turn_cancelled [of e k h h' f b calls] assms C by (auto simp: cancelled_def Let_def)
  next
    case False
    then show ?thesis using step_other_threads [OF assms(1) k False] assms(2) C by (auto simp: cancelled_def Let_def)
  qed
qed

interpretation cancelling: machine "hal_step e" "cancelled k f b calls" "\<lambda>_. True" "\<lambda>_. True" for e k f b calls
  by unfold_locales (auto intro: step_cancelled)

subsection \<open>Properties\<close>

definition hal_run :: "hal_call list \<Rightarrow> hal result" where
  "hal_run cs = bindR demo_engine (\<lambda>(g, w). runR (hal_step (demo_env 60)) cs (hal_start g w))"

definition hal_observe :: "(hal \<Rightarrow> bool) \<Rightarrow> hal_call list \<Rightarrow> bool" where
  "hal_observe P cs = (case hal_run cs of Inl f \<Rightarrow> False | Inr h \<Rightarrow> P h)"

lemma hal_observeE:
  assumes "hal_observe P cs"
  obtains g w h where "demo_engine = Inr (g, w)" "engine_ok (demo_env 60) g w"
    "runR (hal_step (demo_env 60)) cs (hal_start g w) = Inr h" "P h" "hal_run cs = Inr h"
proof -
  obtain h where h: "hal_run cs = Inr h" "P h"
    using assms by (auto simp: hal_observe_def split: sum.splits)
  then obtain g w where "demo_engine = Inr (g, w)" "runR (hal_step (demo_env 60)) cs (hal_start g w) = Inr h"
    by (auto simp: hal_run_def bindR_Inr_iff)
  then show thesis using that h demo_engine_ok by blast
qed

definition one_stream :: "hal_call list" where
  "one_stream = CallInferStream 1 ''hi'' 2 # replicate 15 (Turn 0)"

text \<open>
  C9: whatever the interleaving of calls and threads, the callback object of a request receives token
  calls for its session, at most \<open>maxTokens\<close> of them, and then, exactly when its thread has exited, one
  last call: \<open>onComplete\<close> or \<open>onError\<close>.
\<close>

theorem stream_protocol:
  assumes "engine_ok e g w" and "runR (hal_step e) cs (hal_start g w) = Inr h" and "t \<in> set (h_threads h)"
  shows "\<exists>toks last. th_calls t = map (onToken (th_session t)) toks @ last \<and>
    int (length toks) \<le> max 0 (th_maxTokens t) \<and>
    (if th_phase t = Exited then \<exists>z \<in> stream_end (th_session t). last = [z] else last = [])"
proof -
  have "hal_inv h" using hal.run_keeps [OF hal_inv_start [OF assms(1)] _ assms(2)] by (simp add: list_all_iff)
  then have "stream_ok t" using assms(3) by (simp add: hal_inv_def)
  then show ?thesis by (rule stream_calls)
qed

theorem stream_protocol_witness:
  "\<exists>h (t :: hal_thread). hal_run one_stream = Inr h \<and> th_phase t = Exited \<and> length (th_calls t) = 3 \<and>
     (\<exists>toks z. th_calls t = map (onToken (th_session t)) toks @ [z])"
proof -
  have "hal_observe (\<lambda>h. map th_phase (h_threads h) = [Exited] \<and> map (length \<circ> th_calls) (h_threads h) = [3]) one_stream"
    by code_simp
  then obtain g w h where d: "engine_ok (demo_env 60) g w" "runR (hal_step (demo_env 60)) one_stream (hal_start g w) = Inr h"
    "hal_run one_stream = Inr h"
    and o: "map th_phase (h_threads h) = [Exited] \<and> map (length \<circ> th_calls) (h_threads h) = [3]"
    by (rule hal_observeE)
  then obtain t where t: "t \<in> set (h_threads h)" "th_phase t = Exited" "length (th_calls t) = 3" by auto
  from stream_protocol [OF d(1,2) t(1)] have "\<exists>toks z. th_calls t = map (onToken (th_session t)) toks @ [z]"
    using t(2) by auto
  then show ?thesis using d(3) t(2,3) by blast
qed

text \<open>
  In any interleaving the service can only end by the dangling reference of \<open>activateForInfer\<close> or by
  a \<open>length_error\<close> in a thread; no call of a client dereferences a null session manager.
\<close>

theorem service_faults:
  assumes "engine_ok e g w" and "runR (hal_step e) cs (hal_start g w) = Inl f"
  shows "f = DanglingReference \<or> f = LengthError"
  using hal.run_faults [OF hal_inv_start [OF assms(1)] _ assms(2)] by (simp add: list_all_iff)

theorem service_faults_witness:
  "\<exists>g w. demo_engine = Inr (g, w) \<and>
     (\<exists>f. runR (hal_step (demo_env 60)) [CallInferStream 1 ''x'' (- 1), Turn 0, Turn 0, Turn 0] (hal_start g w) = Inl f \<and>
        (f = DanglingReference \<or> f = LengthError))"
proof -
  have "with_engine (\<lambda>g w. fault_of (runR (hal_step (demo_env 60)) [CallInferStream 1 ''x'' (- 1), Turn 0, Turn 0, Turn 0]
      (hal_start g w)) = Some LengthError)" by code_simp
  then obtain g w where d: "demo_engine = Inr (g, w)" "engine_ok (demo_env 60) g w"
    and "fault_of (runR (hal_step (demo_env 60)) [CallInferStream 1 ''x'' (- 1), Turn 0, Turn 0, Turn 0] (hal_start g w)) = Some LengthError"
    by (rule with_engineE)
  then have x: "runR (hal_step (demo_env 60)) [CallInferStream 1 ''x'' (- 1), Turn 0, Turn 0, Turn 0] (hal_start g w) = Inl LengthError"
    by (simp only: fault_of_Some)
  show ?thesis using d(1) x service_faults [OF d(2) x] by blast
qed

text \<open>
  C7: A \<open>cancel\<close> that finds the flag of a running request in the table stops that request: in every
  continuation its callback object receives the last call, when the thread ends, and before it at most
  one further token, and that only if the thread had already read the flag for this token when the
  \<open>cancel\<close> came.
\<close>

theorem cancel_stops_stream:
  assumes "hal_inv h" and "k < length (h_threads h)" and "th_phase (h_threads h ! k) \<noteq> Exited"
    and "h_flags h i = Some (th_flag (h_threads h ! k))"
    and "runR (hal_step e) (CallCancel i # cs) h = Inr h'"
  shows "k < length (h_threads h') \<and>
    (\<exists>toks last. th_calls (h_threads h' ! k)
        = th_calls (h_threads h ! k) @ map (onToken (th_session (h_threads h' ! k))) toks @ last \<and>
      length toks \<le> (if past (h_threads h ! k) then 1 else 0) \<and>
      (if th_phase (h_threads h' ! k) = Exited then \<exists>z \<in> stream_end (th_session (h_threads h' ! k)). last = [z]
       else last = []))"
proof -
  let ?t = "h_threads h ! k" let ?b = "of_bool (past ?t) :: nat" let ?u = "h_threads h' ! k"
  have f: "th_flag ?t < length (h_cells h)" using assms(1,4) by (auto simp: hal_inv_def)
  have r: "runR (hal_step e) cs (hal_cancel i h) = Inr h'" using assms(5) by simp
  have "received ?b (th_calls ?t) ?t" by (rule receivedI [of _ _ "[]" "[]"]) (use assms(3) in simp_all)
  then have "cancelled k (th_flag ?t) ?b (th_calls ?t) (hal_cancel i h)"
    using assms(2,4) f by (simp add: cancelled_def hal_cancel_def)
  from cancelling.run_keeps [OF this _ r]
  have c: "k < length (h_threads h')" "received ?b (th_calls ?t) ?u" by (simp_all add: list_all_iff cancelled_def Let_def)
  then obtain toks zs where R: "th_calls ?u = th_calls ?t @ map (onToken (th_session ?u)) toks @ zs" "length toks + of_bool (past ?u) \<le> ?b"
    "if th_phase ?u = Exited then \<exists>z \<in> stream_end (th_session ?u). zs = [z] else zs = []"
    unfolding received_def by blast
  have "length toks \<le> (if past ?t then 1 else 0)" using R(2) by (simp add: of_bool_def split: if_splits)
  then show ?thesis using c(1) R(1,3) by blast
qed

definition late_cancel :: "hal_call list" where
  \<comment> \<open>the cancel comes between the check of the flag and \<open>onToken\<close>\<close>
  "late_cancel = CallCancel 1 # replicate 7 (Turn 0)"

theorem cancel_stops_stream_witness:
  "\<exists>h h'. hal_run [CallInferStream 1 ''hi'' 5, Turn 0, Turn 0, Turn 0, Turn 0] = Inr h \<and>
     runR (hal_step (demo_env 60)) late_cancel h = Inr h' \<and> th_calls (h_threads h ! 0) = [] \<and>
     length (th_calls (h_threads h' ! 0)) = 2 \<and>
     (\<exists>toks z. th_calls (h_threads h' ! 0) = map (onToken (th_session (h_threads h' ! 0))) toks @ [z] \<and> length toks \<le> 1)"
proof -
  let ?cs = "[CallInferStream 1 ''hi'' 5, Turn 0, Turn 0, Turn 0, Turn 0]" let ?run = "runR (hal_step (demo_env 60)) late_cancel"
  have "hal_observe (\<lambda>h. length (h_threads h) = 1 \<and> th_phase (h_threads h ! 0) \<noteq> Exited \<and>
      h_flags h 1 = Some (th_flag (h_threads h ! 0)) \<and> th_calls (h_threads h ! 0) = [] \<and>
      (case ?run h of Inl f \<Rightarrow> False
       | Inr h' \<Rightarrow> length (th_calls (h_threads h' ! 0)) = 2 \<and> th_phase (h_threads h' ! 0) = Exited)) ?cs" by code_simp
  then obtain g w h where d: "engine_ok (demo_env 60) g w" "runR (hal_step (demo_env 60)) ?cs (hal_start g w) = Inr h" "hal_run ?cs = Inr h"
    and o: "length (h_threads h) = 1 \<and> th_phase (h_threads h ! 0) \<noteq> Exited \<and>
      h_flags h 1 = Some (th_flag (h_threads h ! 0)) \<and> th_calls (h_threads h ! 0) = [] \<and>
      (case ?run h of Inl f \<Rightarrow> False
       | Inr h' \<Rightarrow> length (th_calls (h_threads h' ! 0)) = 2 \<and> th_phase (h_threads h' ! 0) = Exited)"
    by (rule hal_observeE)
  have inv: "hal_inv h" using hal.run_keeps [OF hal_inv_start [OF d(1)] _ d(2)] by simp
  obtain h' where r: "?run h = Inr h'" using o by (cases "?run h") auto
  have x: "length (th_calls (h_threads h' ! 0)) = 2" "th_phase (h_threads h' ! 0) = Exited" using o r by simp_all
  have t: "0 < length (h_threads h)" "th_phase (h_threads h ! 0) \<noteq> Exited" "h_flags h 1 = Some (th_flag (h_threads h ! 0))"
    "th_calls (h_threads h ! 0) = []" using o by simp_all
  from cancel_stops_stream [OF inv t(1,2,3) r [unfolded late_cancel_def]] obtain toks z where
    "th_calls (h_threads h' ! 0) = map (onToken (th_session (h_threads h' ! 0))) toks @ [z]" "length toks \<le> 1"
    using t(4) x(2) by (fastforce split: if_splits)
  then show ?thesis using d(3) r x(1) t(4) by blast
qed

text \<open>
  While no model is loaded, \<open>createSession\<close>, \<open>destroySession\<close> and \<open>inferStream\<close> answer with their own error
  code at once; no thread is started, no flag registered, and the engine is left alone.
\<close>

theorem not_ready_codes:
  assumes "\<not> engine_isReady (h_engine h)"
  shows "hal_step e (CallCreateSession i) h = Inr (reply_with (RInt (- 401)) h) \<and>
    hal_step e (CallDestroySession i) h = Inr (reply_with (RInt (- 403)) h) \<and>
    hal_step e (CallInferStream i p k) h = Inr (reply_with (RInt (- 404))
      (h\<lparr>h_reqCounter := snd (miniv_next_req_id (h_reqCounter h))\<rparr>))"
  using assms
  by (simp add: hal_createSession_def hal_destroySession_def hal_inferStream_def hal_codes
      miniv_next_req_id_def)

theorem not_ready_codes_witness:
  "hal_step (demo_env 60) (CallCreateSession 1) (hal_start (LLMEngine demo_ctx_params) [])
     = Inr (reply_with (RInt (- 401)) (hal_start (LLMEngine demo_ctx_params) []))"
proof -
  have "\<not> engine_isReady (h_engine (hal_start (LLMEngine demo_ctx_params) []))"
    by (simp add: hal_start_def LLMEngine_def engine_isReady_def)
  from not_ready_codes [OF this, of "demo_env 60" 1 "[]" 0] show ?thesis by (rule conjunct1)
qed

text \<open>
  C35: with a loaded engine \<open>createSession\<close> answers 0 exactly for a new id and -402 for a known one,
  \<open>destroySession\<close> answers 0 exactly for a known id and -403 otherwise, after which the id is unknown.
\<close>

theorem session_codes:
  assumes "hal_inv h" and "le_sessions (h_engine h) = Some s"
  shows "(\<exists>h'. hal_step e (CallCreateSession i) h = Inr h' \<and> engine_tokens (h_engine h') i \<noteq> None \<and>
      hd (h_replies h') = RInt (if mSessions s i = None then 0 else - 402)) \<and>
    (\<exists>h'. hal_step e (CallDestroySession i) h = Inr h' \<and> engine_tokens (h_engine h') i = None \<and>
      hd (h_replies h') = RInt (if mSessions s i = None then - 403 else 0))"
proof
  have g: "sm_inv s" "engine_isReady (h_engine h)"
    using assms by (auto simp: hal_inv_def engine_shape_def engine_isReady_def)
  show "\<exists>h'. hal_step e (CallCreateSession i) h = Inr h' \<and> engine_tokens (h_engine h') i \<noteq> None \<and>
      hd (h_replies h') = RInt (if mSessions s i = None then 0 else - 402)"
    using g assms(2)
    by (auto simp: hal_createSession_def createSession_def now_ms_def Let_def hal_codes engine_tokens_def sm_tokens_def)
  from g(1) show "\<exists>h'. hal_step e (CallDestroySession i) h = Inr h' \<and> engine_tokens (h_engine h') i = None \<and>
      hd (h_replies h') = RInt (if mSessions s i = None then - 403 else 0)"
    by (cases rule: kill_cases [where i = i and w = "h_hist h"])
      (use g assms(2) in \<open>auto simp: hal_destroySession_def hal_codes engine_tokens_def sm_tokens_def\<close>)
qed

theorem session_codes_witness:
  "\<exists>h h'. hal_run [] = Inr h \<and> hal_step (demo_env 60) (CallCreateSession 9) h = Inr h' \<and>
     engine_tokens (h_engine h') 9 \<noteq> None"
proof -
  have "hal_observe (\<lambda>h. True) []" by code_simp
  then obtain g w h where d: "engine_ok (demo_env 60) g w" "demo_engine = Inr (g, w)"
    "runR (hal_step (demo_env 60)) [] (hal_start g w) = Inr h" "hal_run [] = Inr h" by (rule hal_observeE)
  have h: "h = hal_start g w" using d(3) by simp
  obtain s where "le_sessions (h_engine h) = Some s"
    using engine_ready_sessions [OF demo_engine_ok [OF d(2)]] by (auto simp: h hal_start_def)
  from conjunct1 [OF session_codes [OF _ this, of "demo_env 60" 9]] show ?thesis
    using d(4) hal_inv_start [OF d(1)] h by blast
qed

text \<open>
  Every failure of \<open>infer\<close> is reported as \<open>ERROR_SESSION_NOT_FOUND\<close>: here the session exists and the
  prefill fails to decode.
\<close>

theorem decode_failure_misreported:
  "with_engine (\<lambda>g w. engine_tokens g 1 \<noteq> None \<and>
     (case runR (hal_step ((demo_env 60)\<lparr>env_decode := \<lambda>w c ts. 1\<rparr>))
             (CallInferStream 1 ''a'' 3 # replicate 4 (Turn 0)) (hal_start g w) of
        Inl f \<Rightarrow> False
      | Inr h \<Rightarrow> map th_calls (h_threads h) = [[onError 1 (- 501) ''SESSION_NOT_FOUND'']]))"
  by code_simp

end
