(* ===== verification/Hal_Test_Cli.thy ===== *)
theory Hal_Test_Cli
  imports Hal_Service
begin

text \<open>
  \<open>tools/hal_test_cli/main.cpp\<close>, the test client of the binder service: the callback object that prints
  a stream, and the commands, run on the service's model.  A call whose transaction fails
  (\<open>st.isOk()\<close> is false) does not reach the service and leaves the result variable as it was.
\<close>

subsection \<open>The callback object\<close>

fun TestCallback :: "callback \<Rightarrow> string" where
  \<comment> \<open>what a callback prints\<close>
  "TestCallback (onToken i token) = c_str token"
| "TestCallback (onComplete i) = [newline] @ ''[DONE]'' @ [newline]"
| "TestCallback (onError i code message) =
     [newline] @ ''[ERROR '' @ show_int code @ ''] '' @ c_str message @ [newline]"

fun finishes :: "callback \<Rightarrow> bool" where
  \<comment> \<open>the callbacks that call \<open>finish\<close>, which sets \<open>mDone\<close>\<close>
  "finishes (onToken i token) = False"
| "finishes (onComplete i) = True"
| "finishes (onError i code message) = True"

definition mDone :: "callback list \<Rightarrow> bool" where
  "mDone calls = list_ex finishes calls"

definition printed :: "callback list \<Rightarrow> string" where
  "printed calls = concat (map TestCallback calls)"

subsection \<open>Commands\<close>

type_synonym ht_result = "(int option \<times> string \<times> string \<times> hal) result"
  \<comment> \<open>exit status (\<open>None\<close>: waiting), standard output, standard error, the service\<close>

definition Usage :: "string \<Rightarrow> string" where
  "Usage argv0 =
     ''usage:'' @ [newline] @
     ''  '' @ argv0 @ '' is_ready'' @ [newline] @
     ''  '' @ argv0 @ '' get_model_info'' @ [newline] @
     ''  '' @ argv0 @ '' create_session <id>'' @ [newline] @
     ''  '' @ argv0 @ '' destroy_session <id>'' @ [newline] @
     ''  '' @ argv0 @ '' infer <id> <prompt> <maxTokens>'' @ [newline] @
     ''  '' @ argv0 @ '' cancel <id>'' @ [newline]"

definition show_bool :: "bool \<Rightarrow> string" where
  "show_bool b = (if b then ''1'' else ''0'')"

definition transact :: "llama_env \<Rightarrow> bool \<Rightarrow> hal_call \<Rightarrow> reply \<Rightarrow> hal \<Rightarrow> (reply \<times> hal) result" where
  \<comment> \<open>a binder call and the value of the result variable after it\<close>
  "transact e ok call unset h =
     (if \<not> ok then Inr (unset, h)
      else bindR (hal_step e call h) (\<lambda>h'. Inr (hd (h_replies h'), h')))"

fun show_reply :: "reply \<Rightarrow> string" where
  "show_reply (RBool b) = show_bool b"
| "show_reply (RInt i) = show_int i"
| "show_reply (RString s) = c_str s"
| "show_reply RVoid = []"

definition simple_command :: "llama_env \<Rightarrow> bool \<Rightarrow> hal_call \<Rightarrow> reply \<Rightarrow> string \<Rightarrow> string \<Rightarrow> hal \<Rightarrow> ht_result" where
  \<comment> \<open>a call, and one line with its status and its result\<close>
  "simple_command e ok call unset name field h =
     bindR (transact e ok call unset h) (\<lambda>(r, h').
       Inr (Some 0, name @ '' -> ok='' @ show_bool ok @ field @ show_reply r @ [newline], [], h'))"

definition accepted :: string where
  \<comment> \<open>the Korean word in the message, in UTF-8\<close>
  "accepted = [CHR 0xEC, CHR 0xA0, CHR 0x91, CHR 0xEC, CHR 0x88, CHR 0x98]"

definition calls_of :: "nat \<Rightarrow> hal \<Rightarrow> callback list" where
  "calls_of k h = (if k < length (h_threads h) then th_calls (h_threads h ! k) else [])"

definition ht_infer :: "llama_env \<Rightarrow> bool \<Rightarrow> int \<Rightarrow> string \<Rightarrow> int \<Rightarrow> hal_call list \<Rightarrow> hal_call list \<Rightarrow> hal \<Rightarrow> ht_result" where
  \<comment> \<open>\<open>before\<close>: the steps of the service between the call and the line about it; \<open>during\<close>: those while
    \<open>wait\<close> blocks.  The callbacks print as they arrive.\<close>
  "ht_infer e ok i prompt maxTokens before during h =
     (let k = length (h_threads h) in
      bindR (transact e ok (CallInferStream i prompt maxTokens) (RInt 0) h) (\<lambda>(r, h1).
      bindR (runR (hal_step e) before h1) (\<lambda>h2.
        let out1 = printed (calls_of k h2) @ ''inferStream() '' @ accepted @ '' -> ok='' @ show_bool ok @
                   '' ret='' @ show_reply r @ [newline] in
        if ok \<and> r = RInt 0 then
          bindR (runR (hal_step e) during h2) (\<lambda>h3.
            let calls = calls_of k h3 in
            Inr (if mDone calls then Some 0 else None,
                 out1 @ printed (drop (length (calls_of k h2)) calls), [], h3))
        else Inr (Some 0, out1, [], h2))))"

definition ht_main ::
    "llama_env \<Rightarrow> bool \<Rightarrow> bool \<Rightarrow> bool \<Rightarrow> string list \<Rightarrow> hal_call list \<Rightarrow> hal_call list \<Rightarrow> hal \<Rightarrow> ht_result" where
  \<comment> \<open>\<open>found\<close>, \<open>cast\<close>: the service is found and \<open>fromBinder\<close> succeeds\<close>
  "ht_main e found cast ok argv before during h =
     (let argc = length argv; cmd = argv ! 1; i = atoi (argv ! 2) in
      if argc < 2 then Inr (Some 1, [], Usage (argv ! 0), h)
      else if \<not> found then Inr (Some 1, [], ''HAL not found: vendor.miniv.ai.IMiniVAiHal/default'' @ [newline], h)
      else if \<not> cast then Inr (Some 1, [], ''fromBinder failed'' @ [newline], h)
      else if cmd = ''is_ready'' then
        simple_command e ok CallIsReady (RBool False) ''isReady()'' '' ready='' h
      else if cmd = ''get_model_info'' then
        simple_command e ok CallGetModelInfo (RString []) ''getModelInfo()'' '' info='' h
      else if cmd = ''create_session'' \<and> argc \<ge> 3 then
        simple_command e ok (CallCreateSession i) (RInt 0) (''createSession('' @ show_int i @ '')'') '' ret='' h
      else if cmd = ''destroy_session'' \<and> argc \<ge> 3 then
        simple_command e ok (CallDestroySession i) (RInt 0) (''destroySession('' @ show_int i @ '')'') '' ret='' h
      else if cmd = ''infer'' \<and> argc \<ge> 5 then
        ht_infer e ok i (argv ! 3) (atoi (argv ! 4)) before during h
      else if cmd = ''cancel'' \<and> argc \<ge> 3 then
        simple_command e ok (CallCancel i) RVoid (''cancel('' @ show_int i @ '')'') [] h
      else Inr (Some 1, [], Usage (argv ! 0), h))"

end
