(* ===== verification/Hal_Liveness.thy ===== *)
theory Hal_Liveness
  imports Hal_Props Hal_Test_Cli
begin

text \<open>
  A stream ends: a thread of the service needs a bounded number of its own turns, whatever the other
  threads and the binder calls do in between, and the test client that waits for it returns.
\<close>

definition turns_left :: "hal_thread \<Rightarrow> nat" where
  "turns_left t =
     (case th_phase t of
        Inferring ph \<Rightarrow> infer_left (th_maxTokens t) ph + 2
      | Erased ok \<Rightarrow> 1
      | Exited \<Rightarrow> 0)"

lemma turns_left_0: "turns_left t = 0 \<longleftrightarrow> th_phase t = Exited"
  by (auto simp: turns_left_def split: phase.splits)

lemma own_turn:
  assumes "thread_turn e k h = Inr h'" "k < length (h_threads h)"
  shows "turns_left (h_threads h' ! k) \<le> turns_left (h_threads h ! k) - 1 \<and> length (h_threads h') = length (h_threads h)"
proof (cases rule: thread_turn_cases [of h k])
  case (inferring ph)
  have "infer_left (th_maxTokens (h_threads h ! k)) ph \<noteq> 0" using inferring(3) by (simp add: left_0)
  show ?thesis
  proof (rule inferring_turnE [OF inferring assms(1) refl], goal_cases)
    case (1 s m ph' s' w' calls)
    then show ?case using turn_left [OF 1(3)] inferring(1,2) \<open>infer_left _ ph \<noteq> 0\<close> by (simp add: turns_left_def)
  qed
qed (use assms in \<open>auto simp: thread_turn_def Let_def turns_left_def\<close>)

lemma run_turns:
  assumes "runR (hal_step e) cs h = Inr h'" "k < length (h_threads h)"
  shows "turns_left (h_threads h' ! k) \<le> turns_left (h_threads h ! k) - count_list cs (Turn k) \<and>
    k < length (h_threads h')"
  using assms
proof (induction cs arbitrary: h)
  case (Cons c cs)
  then obtain h1 where s: "hal_step e c h = Inr h1" and r: "runR (hal_step e) cs h1 = Inr h'"
    by (auto simp: bindR_Inr_iff)
  show ?case
  proof (cases "c = Turn k")
    case True
    then have "turns_left (h_threads h1 ! k) \<le> turns_left (h_threads h ! k) - 1" "k < length (h_threads h1)"
      using own_turn [of e k h h1] s Cons.prems(2) by auto
    then show ?thesis using Cons.IH [OF r] True by auto
  next
    case False
    from step_other_threads [OF s Cons.prems(2) this] show ?thesis using Cons.IH [OF r] False by simp
  qed
qed simp

lemma stream_done:
  assumes "stream_ok t" "th_phase t = Exited"
  shows "\<exists>toks z. th_calls t = map (onToken (th_session t)) toks @ [z] \<and> z \<in> stream_end (th_session t) \<and>
    int (length toks) \<le> max 0 (th_maxTokens t)" and "mDone (th_calls t)"
proof -
  from assms show "\<exists>toks z. th_calls t = map (onToken (th_session t)) toks @ [z] \<and> z \<in> stream_end (th_session t) \<and>
    int (length toks) \<le> max 0 (th_maxTokens t)" by (auto simp: stream_ok_def)
  then obtain toks z where "th_calls t = map (onToken (th_session t)) toks @ [z]" "z \<in> stream_end (th_session t)" by blast
  then show "mDone (th_calls t)" by (auto simp: mDone_def stream_end_def)
qed

lemma stream_thread_end:
  assumes "hal_inv h" "k < length (h_threads h)" "runR (hal_step e) cs h = Inr h'"
    and "turns_left (h_threads h ! k) \<le> count_list cs (Turn k)"
  shows "th_phase (h_threads h' ! k) = Exited \<and> mDone (th_calls (h_threads h' ! k))"
proof -
  have t: "turns_left (h_threads h' ! k) = 0" "k < length (h_threads h')"
    using run_turns [OF assms(3,2)] assms(4) by auto
  have "list_all (\<lambda>_. True) cs" by (simp add: list_all_iff)
  from hal.run_keeps [OF assms(1) this assms(3)] have "stream_ok (h_threads h' ! k)"
    using t(2) by (auto simp: hal_inv_def)
  then show ?thesis using t(1) stream_done(2) by (simp add: turns_left_0)
qed

text \<open>
  C12: In every run of the service, whatever the interleaving, a stream thread that gets
  \<open>4 * maxTokens + 6\<close> turns of its own has exited, and its callback object has been told the end.
\<close>

theorem stream_thread_exits:
  assumes "hal_inv h" "k < length (h_threads h)" "runR (hal_step e) cs h = Inr h'"
    and "turns_left (h_threads h ! k) \<le> count_list cs (Turn k)"
  shows "th_phase (h_threads h' ! k) = Exited \<and> mDone (th_calls (h_threads h' ! k))"
  using assms by (rule stream_thread_end)

definition streaming :: "llm_engine \<Rightarrow> history \<Rightarrow> hal" where
  \<comment> \<open>a service that has just accepted a request\<close>
  "streaming g w = hal_inferStream 1 ''hi'' 2 (hal_start g w)"

theorem stream_thread_exits_witness:
  "\<exists>g w h'. demo_engine = Inr (g, w) \<and> runR (hal_step (demo_env 60)) (CallIsReady # replicate 14 (Turn 0)) (streaming g w) = Inr h' \<and>
     th_phase (h_threads h' ! 0) = Exited"
proof -
  let ?cs = "CallIsReady # replicate 14 (Turn 0)"
  have "with_engine (\<lambda>g w. length (h_threads (streaming g w)) = 1 \<and>
      turns_left (h_threads (streaming g w) ! 0) = 14 \<and>
      fault_of (runR (hal_step (demo_env 60)) ?cs (streaming g w)) = None)" by code_simp
  then obtain g w where d: "demo_engine = Inr (g, w)" "engine_ok (demo_env 60) g w"
    and o: "length (h_threads (streaming g w)) = 1" "turns_left (h_threads (streaming g w) ! 0) = 14"
      "fault_of (runR (hal_step (demo_env 60)) ?cs (streaming g w)) = None"
    by (rule with_engineE) blast
  obtain h' where r: "runR (hal_step (demo_env 60)) ?cs (streaming g w) = Inr h'"
    by (cases "runR (hal_step (demo_env 60)) ?cs (streaming g w)") (use o(3) in auto)
  have i: "hal_inv (streaming g w)" unfolding streaming_def using hal_inv_start [OF d(2)] by (rule infer_hal)
  have k: "0 < length (h_threads (streaming g w))" using o(1) by simp
  have "turns_left (h_threads (streaming g w) ! 0) \<le> count_list ?cs (Turn 0)"
    unfolding o(2) by (simp add: eval_nat_numeral)
  from stream_thread_exits [OF i k r this] show ?thesis using d(1) r by blast
qed

lemma inferStream_starts:
  assumes "engine_isReady (h_engine h)"
  shows "h_threads (hal_inferStream i p n h) =
    h_threads h @ [\<lparr>th_session = i, th_prompt = p, th_maxTokens = n, th_flag = length (h_cells h),
      th_reqId = fst (miniv_next_req_id (h_reqCounter h)), th_phase = Inferring Start, th_calls = []\<rparr>]"
    and "h_replies (hal_inferStream i p n h) = RInt 0 # h_replies h"
  using assms by (simp_all add: hal_inferStream_def miniv_next_req_id_def Let_def)

definition continues :: "hal_thread \<Rightarrow> hal_thread \<Rightarrow> bool" where
  \<comment> \<open>the same request, with more callbacks\<close>
  "continues t t' \<longleftrightarrow> th_session t' = th_session t \<and> th_maxTokens t' = th_maxTokens t \<and>
     (\<exists>ys. th_calls t' = th_calls t @ ys)"

lemma continues_refl: "continues t t"
  by (simp add: continues_def)

lemma continues_trans: "continues t t' \<Longrightarrow> continues t' t'' \<Longrightarrow> continues t t''"
  by (auto simp: continues_def)

lemma turn_continues:
  assumes "thread_turn e k h = Inr h'" "k < length (h_threads h)"
  shows "continues (h_threads h ! k) (h_threads h' ! k)"
proof (cases rule: thread_turn_cases [of h k])
  case (inferring ph)
  show ?thesis
  proof (rule inferring_turnE [OF inferring assms(1) refl], goal_cases)
    case (1 s m ph' s' w' calls)
    have "\<exists>ys. calls = th_calls (h_threads h ! k) @ ys" using turn_emits [OF 1(3)] by (auto simp: thread_callback_def)
    then show ?case using 1(4) inferring(1) by (simp add: continues_def)
  qed
qed (use assms in \<open>auto simp: thread_turn_def Let_def continues_def\<close>)

lemma run_continues:
  assumes "runR (hal_step e) cs h = Inr h'" "k < length (h_threads h)"
  shows "continues (h_threads h ! k) (h_threads h' ! k)"
  using assms
proof (induction cs arbitrary: h)
  case (Cons c cs)
  then obtain h1 where s: "hal_step e c h = Inr h1" and r: "runR (hal_step e) cs h1 = Inr h'"
    by (auto simp: bindR_Inr_iff)
  have "continues (h_threads h ! k) (h_threads h1 ! k) \<and> k < length (h_threads h1)"
  proof (cases "c = Turn k")
    case True
    then show ?thesis using s Cons.prems(2) turn_continues [of e k h h1] own_turn [of e k h h1] by simp
  qed (use step_other_threads [OF s Cons.prems(2)] continues_refl in simp)
  then show ?case using Cons.IH [OF r] continues_trans by blast
qed (simp add: continues_refl)

text \<open>
  C28: The test client's \<open>infer\<close> returns once the thread it started has had \<open>4 * maxTokens + 6\<close> turns while it
  waits; by then it has printed the text of at most \<open>maxTokens\<close> tokens in order and then the outcome,
  around the line that reports the call.
\<close>

theorem test_client_returns:
  assumes "hal_inv h" "engine_isReady (h_engine h)"
    and "ht_infer e True i p n before during h = Inr (st, out, err, h')"
    and "4 * nat n + 6 \<le> count_list during (Turn (length (h_threads h)))"
  shows "st = Some 0 \<and> (\<exists>toks z j. calls_of (length (h_threads h)) h' = map (onToken i) toks @ [z] \<and>
    z \<in> stream_end i \<and> int (length toks) \<le> max 0 n \<and>
    out = printed (take j (map (onToken i) toks @ [z])) @ ''inferStream() '' @ accepted @ '' -> ok=1 ret=0'' @
      [newline] @ printed (drop j (map (onToken i) toks @ [z])))"
proof -
  let ?k = "length (h_threads h)" and ?h1 = "hal_inferStream i p n h"
  have I: "h_threads ?h1 ! ?k = \<lparr>th_session = i, th_prompt = p, th_maxTokens = n, th_flag = length (h_cells h),
      th_reqId = fst (miniv_next_req_id (h_reqCounter h)), th_phase = Inferring Start, th_calls = []\<rparr>" "?k < length (h_threads ?h1)"
    using inferStream_starts(1) [OF assms(2)] by simp_all
  have t: "transact e True (CallInferStream i p n) (RInt 0) h = Inr (RInt 0, ?h1)"
    using inferStream_starts(2) [OF assms(2)] by (simp add: transact_def)
  obtain h2 h3 where r: "runR (hal_step e) before ?h1 = Inr h2" "runR (hal_step e) during h2 = Inr h3"
    and h': "h' = h3" and st: "st = (if mDone (calls_of ?k h3) then Some 0 else None)"
    and out: "out = printed (calls_of ?k h2) @ ''inferStream() '' @ accepted @ '' -> ok='' @ show_bool True @
        '' ret='' @ show_reply (RInt 0) @ [newline] @ printed (drop (length (calls_of ?k h2)) (calls_of ?k h3))"
    using assms(3) unfolding ht_infer_def Let_def t by (auto simp: bindR_Inr_iff)
  have k2: "?k < length (h_threads h2)" using run_turns [OF r(1) I(2)] by simp
  have tl: "turns_left (h_threads h2 ! ?k) \<le> 4 * nat n + 6"
  proof -
    have "turns_left (h_threads ?h1 ! ?k) = 4 * nat n + 6" by (simp add: I(1) turns_left_def)
    then show ?thesis using run_turns [OF r(1) I(2)] by linarith
  qed
  have inv: "hal_inv h2" using hal.run_keeps [OF infer_hal [OF assms(1)] _ r(1)] by (simp add: list_all_iff)
  have ex: "th_phase (h_threads h3 ! ?k) = Exited" "mDone (th_calls (h_threads h3 ! ?k))"
    using stream_thread_end [OF inv k2 r(2)] tl assms(4) by simp_all
  have k3: "?k < length (h_threads h3)" using run_turns [OF r(2) k2] by simp
  have "hal_inv h3" using hal.run_keeps [OF inv _ r(2)] by (simp add: list_all_iff)
  then have so: "stream_ok (h_threads h3 ! ?k)" using k3 by (simp add: hal_inv_def)
  have c2: "continues (h_threads h2 ! ?k) (h_threads h3 ! ?k)" by (rule run_continues [OF r(2) k2])
  have c1: "th_session (h_threads h3 ! ?k) = i" "th_maxTokens (h_threads h3 ! ?k) = n"
    using continues_trans [OF run_continues [OF r(1) I(2)] c2] by (simp_all add: continues_def I(1))
  obtain toks z where c: "th_calls (h_threads h3 ! ?k) = map (onToken i) toks @ [z]" "z \<in> stream_end i"
    "int (length toks) \<le> max 0 n" using stream_done(1) [OF so ex(1)] unfolding c1 by blast
  obtain ys where y: "th_calls (h_threads h3 ! ?k) = th_calls (h_threads h2 ! ?k) @ ys"
    using c2 by (auto simp: continues_def)
  have zero: "show_int 0 = ''0''" by code_simp
  have "take (length (th_calls (h_threads h2 ! ?k))) (map (onToken i) toks @ [z]) = th_calls (h_threads h2 ! ?k)"
    unfolding c(1) [symmetric] y by simp
  then have "out = printed (take (length (th_calls (h_threads h2 ! ?k))) (map (onToken i) toks @ [z])) @
      ''inferStream() '' @ accepted @ '' -> ok=1 ret=0'' @ [newline] @
      printed (drop (length (th_calls (h_threads h2 ! ?k))) (map (onToken i) toks @ [z]))"
    using out c(1) k2 k3 zero by (simp add: calls_of_def show_bool_def)
  moreover have "st = Some 0" using st ex(2) k3 by (simp add: calls_of_def)
  moreover have "calls_of ?k h' = map (onToken i) toks @ [z]" using c(1) k3 h' by (simp add: calls_of_def)
  ultimately show ?thesis using c(2,3) by blast
qed

theorem test_client_returns_witness:
  "\<exists>g w st out err h'. demo_engine = Inr (g, w) \<and>
     ht_infer (demo_env 60) True 1 ''hi'' 2 [Turn 0, Turn 0] (replicate 14 (Turn 0)) (hal_start g w) = Inr (st, out, err, h') \<and>
     st = Some 0"
proof -
  let ?run = "\<lambda>g w. ht_infer (demo_env 60) True 1 ''hi'' 2 [Turn 0, Turn 0] (replicate 14 (Turn 0)) (hal_start g w)"
  have "with_engine (\<lambda>g w. fault_of (?run g w) = None)" by code_simp
  then obtain g w where d: "demo_engine = Inr (g, w)" "engine_ok (demo_env 60) g w" "engine_isReady g"
    and o: "fault_of (?run g w) = None" by (rule with_engineE) blast
  obtain st out err h' where r: "?run g w = Inr (st, out, err, h')" using o by (cases "?run g w") auto
  have g: "engine_isReady (h_engine (hal_start g w))" "h_threads (hal_start g w) = []"
    using d(3) by (simp_all add: hal_start_def)
  have n: "4 * nat 2 + 6 \<le> count_list (replicate 14 (Turn 0)) (Turn (length (h_threads (hal_start g w))))"
    unfolding g(2) by (simp add: eval_nat_numeral)
  show ?thesis using d(1) r test_client_returns [OF hal_inv_start [OF d(2)] g(1) r n] by blast
qed

end
