(* ===== verification/Hal_Cancel.thy ===== *)
theory Hal_Cancel
  imports Hal_Props
begin

text \<open>
  The table of cancel flags has one entry per session, while a session may have several requests: a
  request whose flag is not in the table can no longer be cancelled.
\<close>

subsection \<open>Whose flags are in the table\<close>

definition flags_owned :: "hal \<Rightarrow> bool" where
  \<comment> \<open>the entry of a session is the flag of a request on that session only\<close>
  "flags_owned h \<longleftrightarrow> hal_inv h \<and>
     (\<forall>j. \<forall>t \<in> set (h_threads h). h_flags h j = Some (th_flag t) \<longrightarrow> th_session t = j)"

definition orphan :: "nat \<Rightarrow> bool \<Rightarrow> hal \<Rightarrow> bool" where
  \<comment> \<open>the flag has the value \<open>b\<close> and no session finds it\<close>
  "orphan f b h \<longleftrightarrow> f < length (h_cells h) \<and> h_cells h ! f = b \<and> (\<forall>j. h_flags h j \<noteq> Some f)"

lemma turn_table:
  assumes "thread_turn e k h = Inr h'"
  shows "h_cells h' = h_cells h" and "h_flags h' j = None \<or> h_flags h' j = h_flags h j"
    and "map (\<lambda>t. (th_session t, th_flag t)) (h_threads h') = map (\<lambda>t. (th_session t, th_flag t)) (h_threads h)"
proof -
  have same: "map f (xs[i := y]) = map f xs" if "f y = f (xs ! i)" for f :: "hal_thread \<Rightarrow> int \<times> nat" and xs i y
    using that by (metis list_update_id map_update)
  have "h_cells h' = h_cells h \<and> (h_flags h' j = None \<or> h_flags h' j = h_flags h j) \<and>
      map (\<lambda>t. (th_session t, th_flag t)) (h_threads h') = map (\<lambda>t. (th_session t, th_flag t)) (h_threads h)"
  proof (cases rule: thread_turn_cases [of h k])
    case (inferring ph)
    show ?thesis by (rule inferring_turnE [OF inferring assms refl]) (simp add: same)
  qed (use assms in \<open>auto simp: thread_turn_def Let_def same\<close>)
  then show "h_cells h' = h_cells h" and "h_flags h' j = None \<or> h_flags h' j = h_flags h j"
    and "map (\<lambda>t. (th_session t, th_flag t)) (h_threads h') = map (\<lambda>t. (th_session t, th_flag t)) (h_threads h)"
    by blast+
qed

lemma step_table:
  assumes "hal_step e c h = Inr h'" "\<And>i p n. c \<noteq> CallInferStream i p n"
  shows "h_flags h' j = None \<or> h_flags h' j = h_flags h j" "length (h_cells h') = length (h_cells h)"
    and "(\<lambda>t. (th_session t, th_flag t)) ` set (h_threads h') = (\<lambda>t. (th_session t, th_flag t)) ` set (h_threads h)"
proof -
  have "(h_flags h' j = None \<or> h_flags h' j = h_flags h j) \<and> length (h_cells h') = length (h_cells h) \<and>
      (\<lambda>t. (th_session t, th_flag t)) ` set (h_threads h') = (\<lambda>t. (th_session t, th_flag t)) ` set (h_threads h)"
  proof (cases c)
    case (Turn k)
    then have x: "thread_turn e k h = Inr h'" using assms(1) by simp
    have "f ` set xs = f ` set ys" if "map f xs = map f ys" for f :: "hal_thread \<Rightarrow> int \<times> nat" and xs ys
      using that by (metis list.set_map)
    from this [OF turn_table(3) [OF x]] show ?thesis using turn_table(1,2) [OF x] by simp
  qed (use assms in \<open>auto simp: hal_isReady_def hal_getModelInfo_def hal_createSession_def hal_destroySession_def
      hal_cancel_def Let_def bindR_Inr_iff split: if_splits prod.splits option.splits\<close>)
  then show "h_flags h' j = None \<or> h_flags h' j = h_flags h j" "length (h_cells h') = length (h_cells h)"
    and "(\<lambda>t. (th_session t, th_flag t)) ` set (h_threads h') = (\<lambda>t. (th_session t, th_flag t)) ` set (h_threads h)"
    by blast+
qed

interpretation owned: machine "hal_step e" flags_owned "\<lambda>_. True" "\<lambda>_. True" for e
proof unfold_locales
  fix h c h'
  assume o: "flags_owned h" and s: "hal_step e c h = Inr h'"
  have inv: "hal_inv h'" using hal.keeps [OF _ _ s] o by (simp add: flags_owned_def)
  have own: "th_session t = j" if "t \<in> set (h_threads h)" "h_flags h j = Some (th_flag t)" for t j
    using o that by (simp add: flags_owned_def)
  have "th_session t = j" if t: "t \<in> set (h_threads h')" "h_flags h' j = Some (th_flag t)" for t j
  proof (cases "\<exists>i p n. c = CallInferStream i p n")
    case True
    then obtain i p n where c: "c = CallInferStream i p n" by blast
    have fresh: "h_flags h i \<noteq> Some (length (h_cells h))" "\<forall>u \<in> set (h_threads h). th_flag u \<noteq> length (h_cells h)" for i
      using o by (auto simp: flags_owned_def hal_inv_def)
    show ?thesis
    proof (cases "engine_isReady (h_engine h)")
      case False
      then have "h_threads h' = h_threads h" "h_flags h' = h_flags h"
        using c s by (auto simp: hal_inferStream_def miniv_next_req_id_def Let_def)
      then show ?thesis using t own by simp
    next
      case ready: True
      then have h': "h_flags h' = (h_flags h)(i \<mapsto> length (h_cells h))"
        and "\<exists>u. set (h_threads h') = insert u (set (h_threads h)) \<and> th_flag u = length (h_cells h) \<and> th_session u = i"
        using c s by (auto simp: hal_inferStream_def miniv_next_req_id_def Let_def)
      then obtain u where u: "set (h_threads h') = insert u (set (h_threads h))" "th_flag u = length (h_cells h)" "th_session u = i" by blast
      have old: "th_session t = j" if "t \<in> set (h_threads h)" using own [OF that] t(2) h' fresh(2) that by (auto split: if_splits)
      show ?thesis using t(2) h' fresh(1) [of j] u old t(1) by (auto split: if_splits)
    qed
  next
    case False
    then have c: "\<And>i p n. c \<noteq> CallInferStream i p n" by blast
    have T: "h_flags h j = Some (th_flag t)" using step_table(1) [OF s c, of j] t(2) by auto
    have "(th_session t, th_flag t) \<in> (\<lambda>t. (th_session t, th_flag t)) ` set (h_threads h')" using t(1) by (rule imageI)
    then have "(th_session t, th_flag t) \<in> (\<lambda>t. (th_session t, th_flag t)) ` set (h_threads h)" using step_table(3) [OF s c] by simp
    then show ?thesis using own [of _ j] T by force
  qed
  then show "flags_owned h'" using inv by (simp add: flags_owned_def)
qed simp

interpretation orphans: machine "hal_step e" "orphan f b" "\<lambda>_. True" "\<lambda>_. True" for e f b
proof unfold_locales
  fix h c h'
  assume o: "orphan f b h" and s: "hal_step e c h = Inr h'"
  show "orphan f b h'"
  proof (cases c)
    case (CallInferStream i p n)
    then show ?thesis
      using o s by (auto simp: orphan_def hal_inferStream_def miniv_next_req_id_def Let_def nth_append split: if_splits)
  next
    case (CallCancel i)
    show ?thesis
    proof (cases "h_flags h i")
      case (Some a)
      then have "a \<noteq> f" using o by (auto simp: orphan_def)
      then show ?thesis using Some CallCancel o s by (auto simp: orphan_def hal_cancel_def)
    qed (use CallCancel o s in \<open>auto simp: orphan_def hal_cancel_def\<close>)
  next
    case (Turn k)
    then have x: "thread_turn e k h = Inr h'" using s by simp
    have "h_flags h' j \<noteq> Some f" for j using turn_table(2) [OF x, of j] o by (auto simp: orphan_def)
    then show ?thesis using o turn_table(1) [OF x] by (simp add: orphan_def)
  qed (use o s in \<open>auto simp: orphan_def hal_isReady_def hal_getModelInfo_def hal_createSession_def hal_destroySession_def
      Let_def bindR_Inr_iff split: if_splits prod.splits option.splits\<close>)
qed simp

lemma owned_start: "engine_ok e g w \<Longrightarrow> flags_owned (hal_start g w)"
  using hal_inv_start by (simp add: flags_owned_def) (simp add: hal_start_def)

subsection \<open>Properties\<close>

text \<open>
  C37: A request is out of the reach of every later \<open>cancel\<close> as soon as another \<open>inferStream\<close> on its
  session has been accepted, or another thread of its session has taken the entry out of the table:
  whatever the clients do then, its flag keeps the value it has.
\<close>

theorem overlapping_streams_lose_cancel:
  assumes "engine_ok e g w" "runR (hal_step e) cs (hal_start g w) = Inr h" "k < length (h_threads h)"
    and "c = CallInferStream (th_session (h_threads h ! k)) p n \<and> engine_isReady (h_engine h) \<or>
      c = Turn j \<and> j < length (h_threads h) \<and> th_session (h_threads h ! j) = th_session (h_threads h ! k) \<and>
        th_phase (h_threads h ! j) = Inferring (Returned ok)"
    and "runR (hal_step e) (c # ds) h = Inr h'"
  shows "h_cells h' ! th_flag (h_threads h ! k) = h_cells h ! th_flag (h_threads h ! k)"
proof -
  let ?t = "h_threads h ! k"
  have o: "flags_owned h" using owned.run_keeps [OF owned_start [OF assms(1)] _ assms(2)] by (simp add: list_all_iff)
  have t: "?t \<in> set (h_threads h)" using assms(3) by simp
  have f: "th_flag ?t < length (h_cells h)" using o t by (auto simp: flags_owned_def hal_inv_def)
  have own: "th_session ?t = i" if "h_flags h i = Some (th_flag ?t)" for i using o t that by (simp add: flags_owned_def)
  obtain h1 where h1: "hal_step e c h = Inr h1" "runR (hal_step e) ds h1 = Inr h'"
    using assms(5) by (auto simp: bindR_Inr_iff)
  have "orphan (th_flag ?t) (h_cells h ! th_flag ?t) h1"
    using assms(4)
  proof
    assume "c = CallInferStream (th_session ?t) p n \<and> engine_isReady (h_engine h)"
    then show ?thesis
      using h1(1) f by (auto simp: orphan_def hal_inferStream_def miniv_next_req_id_def Let_def nth_append split: if_splits dest: own)
  next
    assume "c = Turn j \<and> j < length (h_threads h) \<and> th_session (h_threads h ! j) = th_session ?t \<and>
        th_phase (h_threads h ! j) = Inferring (Returned ok)"
    then show ?thesis using h1(1) f by (auto simp: orphan_def thread_turn_def Let_def split: if_splits dest: own)
  qed
  from orphans.run_keeps [OF this _ h1(2)] show ?thesis by (simp add: list_all_iff orphan_def)
qed

theorem overlapping_streams_lose_cancel_witness:
  "\<exists>h h'. hal_run [CallInferStream 1 ''a'' 3, Turn 0, Turn 0, Turn 0] = Inr h \<and>
     runR (hal_step (demo_env 60)) [CallInferStream 1 ''b'' 2, CallCancel 1, Turn 0, Turn 0, Turn 0] h = Inr h' \<and>
     \<not> h_cells h' ! 0 \<and> length (th_calls (h_threads h' ! 0)) = 1"
proof -
  let ?cs = "[CallInferStream 1 ''a'' 3, Turn 0, Turn 0, Turn 0]" let ?e = "demo_env 60"
  let ?ds = "[CallCancel 1, Turn 0, Turn 0, Turn 0]"
  have "hal_observe (\<lambda>h. h_cells h = [False] \<and> map (\<lambda>t. (th_session t, th_flag t)) (h_threads h) = [(1, 0)] \<and>
      engine_isReady (h_engine h) \<and>
      (case runR (hal_step ?e) (CallInferStream 1 ''b'' 2 # ?ds) h of
        Inl f \<Rightarrow> False | Inr h' \<Rightarrow> length (th_calls (h_threads h' ! 0)) = 1)) ?cs" by code_simp
  then obtain g w h where d: "engine_ok ?e g w" "runR (hal_step ?e) ?cs (hal_start g w) = Inr h" "hal_run ?cs = Inr h"
    and x: "h_cells h = [False] \<and> map (\<lambda>t. (th_session t, th_flag t)) (h_threads h) = [(1, 0)] \<and> engine_isReady (h_engine h) \<and>
      (case runR (hal_step ?e) (CallInferStream 1 ''b'' 2 # ?ds) h of
        Inl f \<Rightarrow> False | Inr h' \<Rightarrow> length (th_calls (h_threads h' ! 0)) = 1)"
    by (rule hal_observeE)
  then have o: "h_cells h = [False]" "map (\<lambda>t. (th_session t, th_flag t)) (h_threads h) = [(1, 0)]" "engine_isReady (h_engine h)"
      "case runR (hal_step ?e) (CallInferStream 1 ''b'' 2 # ?ds) h of
        Inl f \<Rightarrow> False | Inr h' \<Rightarrow> length (th_calls (h_threads h' ! 0)) = 1"
    by blast+
  obtain h' where r: "runR (hal_step ?e) (CallInferStream 1 ''b'' 2 # ?ds) h = Inr h'"
    by (cases "runR (hal_step ?e) (CallInferStream 1 ''b'' 2 # ?ds) h") (use o(4) in auto)
  have t: "0 < length (h_threads h)" "th_session (h_threads h ! 0) = 1" "th_flag (h_threads h ! 0) = 0" using o(2) by auto
  from overlapping_streams_lose_cancel [OF d(1,2) t(1) _ r, of "''b''" 2] have "\<not> h_cells h' ! 0"
    using t(2,3) o(1,3) by simp
  then show ?thesis using d(3) r o(4) by auto
qed

end
