(* ===== verification/Ggml_Tensor.thy ===== *)
theory Ggml_Tensor
  imports Ggml_Types
begin

text \<open>
  The tensor of \<open>prebuilts/npu/include/ggml.h\<close>, which the scheduler hands to the evaluation callback
  of the NPU engine, and the operations a tensor can stand for.
\<close>

subsection \<open>Operations\<close>

datatype (plugins only: code size) ggml_op =
    GGML_OP_NONE
  | GGML_OP_DUP
  | GGML_OP_ADD
  | GGML_OP_ADD1
  | GGML_OP_ACC
  | GGML_OP_SUB
  | GGML_OP_MUL
  | GGML_OP_DIV
  | GGML_OP_SQR
  | GGML_OP_SQRT
  | GGML_OP_LOG
  | GGML_OP_SIN
  | GGML_OP_COS
  | GGML_OP_SUM
  | GGML_OP_SUM_ROWS
  | GGML_OP_MEAN
  | GGML_OP_ARGMAX
  | GGML_OP_COUNT_EQUAL
  | GGML_OP_REPEAT
  | GGML_OP_REPEAT_BACK
  | GGML_OP_CONCAT
  | GGML_OP_SILU_BACK
  | GGML_OP_NORM
  | GGML_OP_RMS_NORM
  | GGML_OP_RMS_NORM_BACK
  | GGML_OP_GROUP_NORM
  | GGML_OP_MUL_MAT
  | GGML_OP_MUL_MAT_ID
  | GGML_OP_OUT_PROD
  | GGML_OP_SCALE
  | GGML_OP_SET
  | GGML_OP_CPY
  | GGML_OP_CONT
  | GGML_OP_RESHAPE
  | GGML_OP_VIEW
  | GGML_OP_PERMUTE
  | GGML_OP_TRANSPOSE
  | GGML_OP_GET_ROWS
  | GGML_OP_GET_ROWS_BACK
  | GGML_OP_DIAG
  | GGML_OP_DIAG_MASK_INF
  | GGML_OP_DIAG_MASK_ZERO
  | GGML_OP_SOFT_MAX
  | GGML_OP_SOFT_MAX_BACK
  | GGML_OP_ROPE
  | GGML_OP_ROPE_BACK
  | GGML_OP_CLAMP
  | GGML_OP_CONV_TRANSPOSE_1D
  | GGML_OP_IM2COL
  | GGML_OP_IM2COL_BACK
  | GGML_OP_CONV_TRANSPOSE_2D
  | GGML_OP_POOL_1D
  | GGML_OP_POOL_2D
  | GGML_OP_POOL_2D_BACK
  | GGML_OP_UPSCALE
  | GGML_OP_PAD
  | GGML_OP_PAD_REFLECT_1D
  | GGML_OP_ARANGE
  | GGML_OP_TIMESTEP_EMBEDDING
  | GGML_OP_ARGSORT
  | GGML_OP_LEAKY_RELU
  | GGML_OP_FLASH_ATTN_EXT
  | GGML_OP_FLASH_ATTN_BACK
  | GGML_OP_SSM_CONV
  | GGML_OP_SSM_SCAN
  | GGML_OP_WIN_PART
  | GGML_OP_WIN_UNPART
  | GGML_OP_GET_REL_POS
  | GGML_OP_ADD_REL_POS
  | GGML_OP_RWKV_WKV6
  | GGML_OP_UNARY
  | GGML_OP_MAP_UNARY
  | GGML_OP_MAP_BINARY
  | GGML_OP_MAP_CUSTOM1_F32
  | GGML_OP_MAP_CUSTOM2_F32
  | GGML_OP_MAP_CUSTOM3_F32
  | GGML_OP_MAP_CUSTOM1
  | GGML_OP_MAP_CUSTOM2
  | GGML_OP_MAP_CUSTOM3
  | GGML_OP_CROSS_ENTROPY_LOSS
  | GGML_OP_CROSS_ENTROPY_LOSS_BACK
  | GGML_OP_OPT_STEP_ADAMW
  | GGML_OP_COUNT

primrec ggml_op_val :: "ggml_op \<Rightarrow> int" where
  "ggml_op_val GGML_OP_NONE = 0"
| "ggml_op_val GGML_OP_DUP = 1"
| "ggml_op_val GGML_OP_ADD = 2"
| "ggml_op_val GGML_OP_ADD1 = 3"
| "ggml_op_val GGML_OP_ACC = 4"
| "ggml_op_val GGML_OP_SUB = 5"
| "ggml_op_val GGML_OP_MUL = 6"
| "ggml_op_val GGML_OP_DIV = 7"
| "ggml_op_val GGML_OP_SQR = 8"
| "ggml_op_val GGML_OP_SQRT = 9"
| "ggml_op_val GGML_OP_LOG = 10"
| "ggml_op_val GGML_OP_SIN = 11"
| "ggml_op_val GGML_OP_COS = 12"
| "ggml_op_val GGML_OP_SUM = 13"
| "ggml_op_val GGML_OP_SUM_ROWS = 14"
| "ggml_op_val GGML_OP_MEAN = 15"
| "ggml_op_val GGML_OP_ARGMAX = 16"
| "ggml_op_val GGML_OP_COUNT_EQUAL = 17"
| "ggml_op_val GGML_OP_REPEAT = 18"
| "ggml_op_val GGML_OP_REPEAT_BACK = 19"
| "ggml_op_val GGML_OP_CONCAT = 20"
| "ggml_op_val GGML_OP_SILU_BACK = 21"
| "ggml_op_val GGML_OP_NORM = 22"
| "ggml_op_val GGML_OP_RMS_NORM = 23"
| "ggml_op_val GGML_OP_RMS_NORM_BACK = 24"
| "ggml_op_val GGML_OP_GROUP_NORM = 25"
| "ggml_op_val GGML_OP_MUL_MAT = 26"
| "ggml_op_val GGML_OP_MUL_MAT_ID = 27"
| "ggml_op_val GGML_OP_OUT_PROD = 28"
| "ggml_op_val GGML_OP_SCALE = 29"
| "ggml_op_val GGML_OP_SET = 30"
| "ggml_op_val GGML_OP_CPY = 31"
| "ggml_op_val GGML_OP_CONT = 32"
| "ggml_op_val GGML_OP_RESHAPE = 33"
| "ggml_op_val GGML_OP_VIEW = 34"
| "ggml_op_val GGML_OP_PERMUTE = 35"
| "ggml_op_val GGML_OP_TRANSPOSE = 36"
| "ggml_op_val GGML_OP_GET_ROWS = 37"
| "ggml_op_val GGML_OP_GET_ROWS_BACK = 38"
| "ggml_op_val GGML_OP_DIAG = 39"
| "ggml_op_val GGML_OP_DIAG_MASK_INF = 40"
| "ggml_op_val GGML_OP_DIAG_MASK_ZERO = 41"
| "ggml_op_val GGML_OP_SOFT_MAX = 42"
| "ggml_op_val GGML_OP_SOFT_MAX_BACK = 43"
| "ggml_op_val GGML_OP_ROPE = 44"
| "ggml_op_val GGML_OP_ROPE_BACK = 45"
| "ggml_op_val GGML_OP_CLAMP = 46"
| "ggml_op_val GGML_OP_CONV_TRANSPOSE_1D = 47"
| "ggml_op_val GGML_OP_IM2COL = 48"
| "ggml_op_val GGML_OP_IM2COL_BACK = 49"
| "ggml_op_val GGML_OP_CONV_TRANSPOSE_2D = 50"
| "ggml_op_val GGML_OP_POOL_1D = 51"
| "ggml_op_val GGML_OP_POOL_2D = 52"
| "ggml_op_val GGML_OP_POOL_2D_BACK = 53"
| "ggml_op_val GGML_OP_UPSCALE = 54"
| "ggml_op_val GGML_OP_PAD = 55"
| "ggml_op_val GGML_OP_PAD_REFLECT_1D = 56"
| "ggml_op_val GGML_OP_ARANGE = 57"
| "ggml_op_val GGML_OP_TIMESTEP_EMBEDDING = 58"
| "ggml_op_val GGML_OP_ARGSORT = 59"
| "ggml_op_val GGML_OP_LEAKY_RELU = 60"
| "ggml_op_val GGML_OP_FLASH_ATTN_EXT = 61"
| "ggml_op_val GGML_OP_FLASH_ATTN_BACK = 62"
| "ggml_op_val GGML_OP_SSM_CONV = 63"
| "ggml_op_val GGML_OP_SSM_SCAN = 64"
| "ggml_op_val GGML_OP_WIN_PART = 65"
| "ggml_op_val GGML_OP_WIN_UNPART = 66"
| "ggml_op_val GGML_OP_GET_REL_POS = 67"
| "ggml_op_val GGML_OP_ADD_REL_POS = 68"
| "ggml_op_val GGML_OP_RWKV_WKV6 = 69"
| "ggml_op_val GGML_OP_UNARY = 70"
| "ggml_op_val GGML_OP_MAP_UNARY = 71"
| "ggml_op_val GGML_OP_MAP_BINARY = 72"
| "ggml_op_val GGML_OP_MAP_CUSTOM1_F32 = 73"
| "ggml_op_val GGML_OP_MAP_CUSTOM2_F32 = 74"
| "ggml_op_val GGML_OP_MAP_CUSTOM3_F32 = 75"
| "ggml_op_val GGML_OP_MAP_CUSTOM1 = 76"
| "ggml_op_val GGML_OP_MAP_CUSTOM2 = 77"
| "ggml_op_val GGML_OP_MAP_CUSTOM3 = 78"
| "ggml_op_val GGML_OP_CROSS_ENTROPY_LOSS = 79"
| "ggml_op_val GGML_OP_CROSS_ENTROPY_LOSS_BACK = 80"
| "ggml_op_val GGML_OP_OPT_STEP_ADAMW = 81"
| "ggml_op_val GGML_OP_COUNT = 82"

datatype (plugins only: code size) ggml_unary_op =
    GGML_UNARY_OP_ABS
  | GGML_UNARY_OP_SGN
  | GGML_UNARY_OP_NEG
  | GGML_UNARY_OP_STEP
  | GGML_UNARY_OP_TANH
  | GGML_UNARY_OP_ELU
  | GGML_UNARY_OP_RELU
  | GGML_UNARY_OP_SIGMOID
  | GGML_UNARY_OP_GELU
  | GGML_UNARY_OP_GELU_QUICK
  | GGML_UNARY_OP_SILU
  | GGML_UNARY_OP_HARDSWISH
  | GGML_UNARY_OP_HARDSIGMOID
  | GGML_UNARY_OP_EXP
  | GGML_UNARY_OP_COUNT

primrec ggml_unary_op_val :: "ggml_unary_op \<Rightarrow> int" where
  "ggml_unary_op_val GGML_UNARY_OP_ABS = 0"
| "ggml_unary_op_val GGML_UNARY_OP_SGN = 1"
| "ggml_unary_op_val GGML_UNARY_OP_NEG = 2"
| "ggml_unary_op_val GGML_UNARY_OP_STEP = 3"
| "ggml_unary_op_val GGML_UNARY_OP_TANH = 4"
| "ggml_unary_op_val GGML_UNARY_OP_ELU = 5"
| "ggml_unary_op_val GGML_UNARY_OP_RELU = 6"
| "ggml_unary_op_val GGML_UNARY_OP_SIGMOID = 7"
| "ggml_unary_op_val GGML_UNARY_OP_GELU = 8"
| "ggml_unary_op_val GGML_UNARY_OP_GELU_QUICK = 9"
| "ggml_unary_op_val GGML_UNARY_OP_SILU = 10"
| "ggml_unary_op_val GGML_UNARY_OP_HARDSWISH = 11"
| "ggml_unary_op_val GGML_UNARY_OP_HARDSIGMOID = 12"
| "ggml_unary_op_val GGML_UNARY_OP_EXP = 13"
| "ggml_unary_op_val GGML_UNARY_OP_COUNT = 14"

datatype (plugins only: code size) ggml_op_pool =
    GGML_OP_POOL_MAX
  | GGML_OP_POOL_AVG
  | GGML_OP_POOL_COUNT

primrec ggml_op_pool_val :: "ggml_op_pool \<Rightarrow> int" where
  "ggml_op_pool_val GGML_OP_POOL_MAX = 0"
| "ggml_op_pool_val GGML_OP_POOL_AVG = 1"
| "ggml_op_pool_val GGML_OP_POOL_COUNT = 2"

datatype (plugins only: code size) ggml_sort_order =
    GGML_SORT_ORDER_ASC
  | GGML_SORT_ORDER_DESC

primrec ggml_sort_order_val :: "ggml_sort_order \<Rightarrow> int" where
  "ggml_sort_order_val GGML_SORT_ORDER_ASC = 0"
| "ggml_sort_order_val GGML_SORT_ORDER_DESC = 1"

subsection \<open>Tensors\<close>

datatype (plugins only: code size) ggml_tensor_flag =
    GGML_TENSOR_FLAG_INPUT
  | GGML_TENSOR_FLAG_OUTPUT
  | GGML_TENSOR_FLAG_PARAM
  | GGML_TENSOR_FLAG_LOSS

primrec ggml_tensor_flag_val :: "ggml_tensor_flag \<Rightarrow> int" where
  "ggml_tensor_flag_val GGML_TENSOR_FLAG_INPUT = 1"
| "ggml_tensor_flag_val GGML_TENSOR_FLAG_OUTPUT = 2"
| "ggml_tensor_flag_val GGML_TENSOR_FLAG_PARAM = 4"
| "ggml_tensor_flag_val GGML_TENSOR_FLAG_LOSS = 8"

definition GGML_MAX_DIMS :: nat where "GGML_MAX_DIMS = 4"
definition GGML_MAX_SRC :: nat where "GGML_MAX_SRC = 10"
definition GGML_MAX_OP_PARAMS :: nat where "GGML_MAX_OP_PARAMS = 64"
definition GGML_MAX_NAME :: nat where "GGML_MAX_NAME = 64"
definition GGML_MAX_N_THREADS :: nat where "GGML_MAX_N_THREADS = 512"

definition GGML_PAD :: "size_t \<Rightarrow> size_t \<Rightarrow> size_t" where
  "GGML_PAD x n = (x + n - 1) AND NOT (n - 1)"

record ggml_tensor =
  t_type :: ggml_type
  t_backend :: ggml_backend_type
  t_buffer :: ptr
  t_ne :: "int list"
  t_nb :: "size_t list"
  t_op :: ggml_op
  t_op_params :: "int list"
  t_flags :: int
  t_src :: "ptr list"
  t_view_src :: ptr
  t_view_offs :: size_t
  t_data :: ptr
  t_name :: string
  t_extra :: ptr
  t_padding :: string

definition tensor_ok :: "ggml_tensor \<Rightarrow> bool" where
  \<comment> \<open>the sizes of the arrays in the structure; \<open>t_name\<close> is what precedes the zero byte\<close>
  "tensor_ok t \<longleftrightarrow>
     length (t_ne t) = GGML_MAX_DIMS \<and> length (t_nb t) = GGML_MAX_DIMS \<and>
     length (t_op_params t) = GGML_MAX_OP_PARAMS div 4 \<and> length (t_src t) = GGML_MAX_SRC \<and>
     length (t_name t) < GGML_MAX_NAME \<and> CHR 0x00 \<notin> set (t_name t) \<and> length (t_padding t) = 8"

text \<open>
  The macros that name the sizes and strides of a tensor: the four variables they declare, as a tuple.
\<close>

definition GGML_TENSOR_LOCALS :: "('t \<Rightarrow> 'a list) \<Rightarrow> 't \<Rightarrow> 'a \<times> 'a \<times> 'a \<times> 'a" where
  "GGML_TENSOR_LOCALS array t = (array t ! 0, array t ! 1, array t ! 2, array t ! 3)"

definition GGML_TENSOR_UNARY_OP_LOCALS ::
    "ggml_tensor \<Rightarrow> ggml_tensor \<Rightarrow> (int \<times> int \<times> int \<times> int) \<times> (size_t \<times> size_t \<times> size_t \<times> size_t) \<times>
       (int \<times> int \<times> int \<times> int) \<times> (size_t \<times> size_t \<times> size_t \<times> size_t)" where
  "GGML_TENSOR_UNARY_OP_LOCALS src0 dst =
     (GGML_TENSOR_LOCALS t_ne src0, GGML_TENSOR_LOCALS t_nb src0,
      GGML_TENSOR_LOCALS t_ne dst, GGML_TENSOR_LOCALS t_nb dst)"

definition GGML_TENSOR_BINARY_OP_LOCALS01 ::
    "ggml_tensor \<Rightarrow> ggml_tensor \<Rightarrow> (int \<times> int \<times> int \<times> int) \<times> (size_t \<times> size_t \<times> size_t \<times> size_t) \<times>
       (int \<times> int \<times> int \<times> int) \<times> (size_t \<times> size_t \<times> size_t \<times> size_t)" where
  "GGML_TENSOR_BINARY_OP_LOCALS01 src0 src1 =
     (GGML_TENSOR_LOCALS t_ne src0, GGML_TENSOR_LOCALS t_nb src0,
      GGML_TENSOR_LOCALS t_ne src1, GGML_TENSOR_LOCALS t_nb src1)"

definition GGML_TENSOR_BINARY_OP_LOCALS ::
    "ggml_tensor \<Rightarrow> ggml_tensor \<Rightarrow> ggml_tensor \<Rightarrow>
       (int \<times> int \<times> int \<times> int) \<times> (size_t \<times> size_t \<times> size_t \<times> size_t) \<times>
       (int \<times> int \<times> int \<times> int) \<times> (size_t \<times> size_t \<times> size_t \<times> size_t) \<times>
       (int \<times> int \<times> int \<times> int) \<times> (size_t \<times> size_t \<times> size_t \<times> size_t)" where
  "GGML_TENSOR_BINARY_OP_LOCALS src0 src1 dst =
     (GGML_TENSOR_LOCALS t_ne src0, GGML_TENSOR_LOCALS t_nb src0,
      GGML_TENSOR_LOCALS t_ne src1, GGML_TENSOR_LOCALS t_nb src1,
      GGML_TENSOR_LOCALS t_ne dst, GGML_TENSOR_LOCALS t_nb dst)"

end
