(* ===== verification/Npu_Engine.thy ===== *)
theory Npu_Engine
  imports Llama_Env Ggml_Tensor
begin

text \<open>
  \<open>NpuLLMEngine\<close> of \<open>daemon/include/npu_llm_engine.h\<close> and \<open>daemon/src/npu_llm_engine.cpp\<close>: one model, one
  context, no sessions.  Environment variables, the redirection of \<open>stderr\<close> and logging are left out.
\<close>

subsection \<open>The evaluation callback\<close>

definition MiniVEvalCallback :: "ggml_tensor \<Rightarrow> bool \<Rightarrow> bool \<times> bool" where
  \<comment> \<open>the value returned, and whether the first four floats of the tensor are read\<close>
  "MiniVEvalCallback t ask =
     (if t_name t \<noteq> ''result_norm'' then (False, False)
      else if ask then (True, False)
      else (True, True))"

subsection \<open>State\<close>

record npu_engine =
  ne_model :: "nat option"
  ne_ctx :: "ctx option"
  ne_sampler :: bool
  ne_modelPath :: string
  ne_backendsLoaded :: bool

definition NpuLLMEngine :: npu_engine where
  "NpuLLMEngine =
     \<lparr>ne_model = None, ne_ctx = None, ne_sampler = False, ne_modelPath = [], ne_backendsLoaded = False\<rparr>"

definition npu_isReady :: "npu_engine \<Rightarrow> bool" where
  "npu_isReady g \<longleftrightarrow> ne_model g \<noteq> None"

definition npu_getModelInfo :: "npu_engine \<Rightarrow> string" where
  "npu_getModelInfo g = (if ne_model g \<noteq> None then ne_modelPath g else ''not loaded'')"

definition NpuLLMEngine_dtor :: "npu_engine \<Rightarrow> history \<Rightarrow> history" where
  "NpuLLMEngine_dtor g w =
     (let w1 = (if ne_sampler g then SamplerFree # w else w);
          w2 = llama_free (ne_ctx g) w1;
          w3 = (case ne_model g of None \<Rightarrow> w2 | Some m \<Rightarrow> ModelFree m # w2)
      in BackendFree # w3)"

subsection \<open>Loading\<close>

definition npu_ctx_params :: "llama_env \<Rightarrow> int \<Rightarrow> int \<Rightarrow> llama_context_params" where
  "npu_ctx_params e nCtx nThreads =
     (env_ctx_params e)
       \<lparr>n_ctx := word_of_int nCtx, n_threads := nThreads, n_threads_batch := nThreads,
        flash_attn := True, n_batch := 2048, n_ubatch := 512,
        cb_eval := Some ''MiniVEvalCallback'', cb_eval_user_data := None\<rparr>"

definition warm_up :: "llama_env \<Rightarrow> nat \<Rightarrow> ctx \<Rightarrow> history \<Rightarrow> history" where
  \<comment> \<open>a failed decode is only logged\<close>
  "warm_up e m c w =
     (let bos = (if env_bos e m = LLAMA_TOKEN_NULL then 0 else env_bos e m);
          b = env_batch_one e [bos];
          w1 = DecodeBatch c b (env_decode_batch e w c b) # w
      in Synchronize c # KvClear c # w1)"

definition npu_load ::
    "llama_env \<Rightarrow> string \<Rightarrow> string \<Rightarrow> int \<Rightarrow> int \<Rightarrow> npu_engine \<Rightarrow> history
       \<Rightarrow> bool \<times> npu_engine \<times> history" where
  "npu_load e modelPath backendLibDir nCtx nThreads g w =
     (let w1 = BackendLoadAll backendLibDir # BackendInit # w;
          g1 = g\<lparr>ne_backendsLoaded := True\<rparr>;
          mparams = (env_model_params e)\<lparr>mp_n_gpu_layers := 999\<rparr>;
          model = env_model e w1 modelPath mparams;
          w2 = ModelLoad modelPath mparams model # w1;
          g2 = g1\<lparr>ne_model := model\<rparr> in
      case model of
        None \<Rightarrow> (False, g2, w2)
      | Some m \<Rightarrow>
          let g3 = g2\<lparr>ne_modelPath := modelPath\<rparr>;
              cparams = npu_ctx_params e nCtx nThreads;
              ctx = env_init e w2 m cparams;
              w3 = LlamaInit m cparams ctx # w2;
              g4 = g3\<lparr>ne_ctx := ctx\<rparr> in
          (case ctx of
             None \<Rightarrow> (False, g4, w3)
           | Some c \<Rightarrow> (True, g4\<lparr>ne_sampler := True\<rparr>, warm_up e m c (SamplerInit sampler_chain # w3))))"

subsection \<open>Inference\<close>

definition fill_batch :: "int \<Rightarrow> llama_batch \<Rightarrow> llama_batch" where
  \<comment> \<open>the arrays that are not null get the position, sequence 0 and the logits flag\<close>
  "fill_batch nPast b =
     b\<lparr>b_pos := map_option (\<lambda>l. l[0 := nPast]) (b_pos b),
       b_seq_id := map_option (\<lambda>l. l[0 := (l ! 0)[0 := 0]]) (b_seq_id b),
       b_logits := map_option (\<lambda>l. l[0 := 1]) (b_logits b)\<rparr>"

definition npu_iter ::
    "llama_env \<Rightarrow> nat \<Rightarrow> ctx \<Rightarrow> (string \<Rightarrow> 'o \<Rightarrow> 'o) \<Rightarrow> int \<times> history \<times> 'o
       \<Rightarrow> (bool \<times> int \<times> history \<times> 'o) result" where
  \<comment> \<open>one turn of the decode loop on \<open>nPast\<close>; \<open>False\<close> is a \<open>break\<close>\<close>
  "npu_iter e m c onToken st =
     (case st of (nPast, w, out) \<Rightarrow>
        let tok = env_sample e w c; w1 = Accept tok # Sample c tok # w in
        if env_is_eog e m tok then Inr (False, nPast, w1, out)
        else
          let (n, buf) = env_piece e m tok in
          if n < 0 then Inl LengthError
          else
            let out' = onToken (take (nat n) buf) out;
                b = fill_batch nPast (env_batch_one e [tok]);
                r = env_decode_batch e w1 c b;
                w2 = DecodeBatch c b r # w1 in
            if r \<noteq> 0 then Inr (False, nPast, w2, out')
            else Inr (True, nPast + 1, Synchronize c # w2, out'))"

primrec npu_loop ::
    "llama_env \<Rightarrow> nat \<Rightarrow> ctx \<Rightarrow> (string \<Rightarrow> 'o \<Rightarrow> 'o) \<Rightarrow> nat \<Rightarrow> int \<times> history \<times> 'o
       \<Rightarrow> (int \<times> history \<times> 'o) result" where
  "npu_loop e m c onToken 0 st = Inr st"
| "npu_loop e m c onToken (Suc k) st =
     bindR (npu_iter e m c onToken st)
       (\<lambda>(go, st'). if go then npu_loop e m c onToken k st' else Inr st')"

definition npu_infer ::
    "llama_env \<Rightarrow> string \<Rightarrow> int \<Rightarrow> (string \<Rightarrow> 'o \<Rightarrow> 'o) \<Rightarrow> npu_engine \<Rightarrow> history \<Rightarrow> 'o
       \<Rightarrow> (bool \<times> history \<times> 'o) result" where
  "npu_infer e prompt maxTokens onToken g w out =
     (case ne_ctx g of
        None \<Rightarrow> Inr (False, w, out)
      | Some c \<Rightarrow>
          (case ne_model g of
             None \<Rightarrow> Inl NullDereference
           | Some m \<Rightarrow>
               let w1 = KvClear c # w;
                   toks = env_tokenize e m prompt;
                   b = env_batch_one e toks;
                   r = env_decode_batch e w1 c b;
                   w2 = DecodeBatch c b r # w1 in
               if r \<noteq> 0 then Inr (False, w2, out)
               else
                 bindR (npu_loop e m c onToken (nat maxTokens) (int (length toks), Synchronize c # w2, out))
                   (\<lambda>(nPast, w3, out'). Inr (True, w3, out'))))"

subsection \<open>What the decode loop does\<close>

lemma npu_iter_cases:
  assumes "npu_iter e m c f (p, w, out) = Inr (go, p', w', out')"
  obtains (stop) "\<not> go" "p' = p" "out' = out" "w' = Accept (env_sample e w c) # Sample c (env_sample e w c) # w"
  | (fail) r t where "\<not> go" "p' = p" "r \<noteq> 0" "out' = f (piece_text e m t) out"
      "w' = DecodeBatch c (fill_batch p (env_batch_one e [t])) r # Accept t # Sample c t # w"
  | (next_token) t where "go" "p' = p + 1" "out' = f (piece_text e m t) out"
      "w' = Synchronize c # DecodeBatch c (fill_batch p (env_batch_one e [t])) 0 # Accept t # Sample c t # w"
  using assms by (auto simp: npu_iter_def piece_text_def Let_def split: if_splits prod.splits)

lemma npu_iter_total: "piece_fits e \<Longrightarrow> \<exists>go st'. npu_iter e m c f st = Inr (go, st')"
  by (cases st) (auto simp: npu_iter_def Let_def piece_fits_def not_less [symmetric] split_beta)

fun batches :: "history \<Rightarrow> llama_batch list" where
  \<comment> \<open>the batches decoded, oldest first\<close>
  "batches [] = []"
| "batches (ev # w) = (case ev of DecodeBatch c b r \<Rightarrow> batches w @ [b] | _ \<Rightarrow> batches w)"

fun only_ctx :: "ctx \<Rightarrow> history \<Rightarrow> history \<Rightarrow> bool" where
  \<comment> \<open>the second history extends the first by calls on the context \<open>c\<close> that create and free nothing\<close>
  "only_ctx c w [] = (w = [])"
| "only_ctx c w (ev # w') =
     (w = ev # w' \<or> only_ctx c w w' \<and> used_ctx ev \<in> {None, Some c} \<and> live (ev # w') = live w')"

lemma only_ctx_refl [simp]: "only_ctx c w w"
  by (cases w) auto

lemma only_ctx_live: "only_ctx c w w' \<Longrightarrow> live w' = live w \<and> (c \<in> live w \<longrightarrow> ctx_safe w \<longrightarrow> ctx_safe w')"
  by (induction w') (auto split: option.splits)

lemma only_ctx_trans: "only_ctx c v w \<Longrightarrow> only_ctx c u v \<Longrightarrow> only_ctx c u w"
  by (induction w) auto

lemma npu_loop_spec:
  assumes "npu_loop e m c f k (p, w, out) = Inr (p', w', out')"
  shows "\<exists>toks. length toks \<le> k \<and>
    out' = emit e m f toks out \<and>
    batches w' = batches w @ map (\<lambda>j. fill_batch (p + int j) (env_batch_one e [toks ! j])) [0..<length toks] \<and>
    only_ctx c w w'"
  using assms
proof (induction k arbitrary: p w out)
  case (Suc k)
  from Suc.prems obtain go p1 w1 out1 where it: "npu_iter e m c f (p, w, out) = Inr (go, p1, w1, out1)"
    and rest: "if go then npu_loop e m c f k (p1, w1, out1) = Inr (p', w', out') else (p', w', out') = (p1, w1, out1)"
    by (auto simp: bindR_Inr_iff split: if_splits)
  from it show ?case
  proof (cases rule: npu_iter_cases)
    case stop
    then show ?thesis using rest by (intro exI [of _ "[]"]) auto
  next
    case (fail r t)
    then show ?thesis using rest by (intro exI [of _ "[t]"]) auto
  next
    case (next_token t)
    then obtain toks where T: "length toks \<le> k"
      "out' = emit e m f toks out1"
      "batches w' = batches w1 @ map (\<lambda>j. fill_batch (p1 + int j) (env_batch_one e [toks ! j])) [0..<length toks]"
      "only_ctx c w1 w'"
      using rest Suc.IH by fastforce
    have "map (\<lambda>j. fill_batch (p + int j) (env_batch_one e [(t # toks) ! j])) [0..<length (t # toks)]
        = fill_batch p (env_batch_one e [t]) #
          map (\<lambda>j. fill_batch (p1 + int j) (env_batch_one e [toks ! j])) [0..<length toks]"
      using next_token(2) by (simp add: upt_conv_Cons map_Suc_upt [symmetric] algebra_simps del: upt_Suc)
    moreover have "only_ctx c w w1" using next_token(4) by auto
    ultimately show ?thesis
      using T next_token only_ctx_trans
      by (intro exI [of _ "t # toks"]) (auto simp: emit_def simp del: upt_Suc)
  qed
qed simp

lemma npu_loop_total:
  assumes "piece_fits e" shows "\<exists>st'. npu_loop e m c f k st = Inr st'"
proof (induction k arbitrary: st)
  case (Suc k)
  obtain go st1 where "npu_iter e m c f st = Inr (go, st1)" using npu_iter_total [OF assms] by blast
  then show ?case using Suc.IH [of st1] by (cases go; cases st1) auto
qed (simp del: split_paired_Ex)

lemma npu_loop_fault:
  "npu_loop e m c f k st = Inl x \<Longrightarrow> x = LengthError \<and> \<not> piece_fits e"
proof (rule conjI)
  show "npu_loop e m c f k st = Inl x \<Longrightarrow> x = LengthError"
    by (induction k arbitrary: st)
      (auto simp: bindR_Inl_iff npu_iter_def Let_def split: prod.splits if_splits)
  show "npu_loop e m c f k st = Inl x \<Longrightarrow> \<not> piece_fits e"
    using npu_loop_total [of e m c f k st] by auto
qed

subsection \<open>What an inference does\<close>

lemma npu_infer_spec:
  assumes "ne_ctx g = Some c" "ne_model g = Some m"
    and "npu_infer e prompt maxTokens f g w out = Inr (ok, w', out')"
  shows "\<exists>toks. length toks \<le> nat maxTokens \<and> out' = emit e m f toks out \<and> (\<not> ok \<longrightarrow> toks = []) \<and>
    batches w' = batches w @ env_batch_one e (env_tokenize e m prompt) #
      map (\<lambda>j. fill_batch (int (length (env_tokenize e m prompt)) + int j) (env_batch_one e [toks ! j])) [0..<length toks] \<and>
    only_ctx c (KvClear c # w) w'"
proof -
  define b where "b = env_batch_one e (env_tokenize e m prompt)"
  define n where "n = int (length (env_tokenize e m prompt))"
  define r where "r = env_decode_batch e (KvClear c # w) c b"
  note defs = b_def [symmetric] n_def [symmetric] r_def [symmetric]
  let ?w2 = "DecodeBatch c b r # KvClear c # w"
  have run: "(if r \<noteq> 0 then Inr (False, ?w2, out)
     else bindR (npu_loop e m c f (nat maxTokens) (n, Synchronize c # ?w2, out))
       (\<lambda>(nPast, w3, out'). Inr (True, w3, out'))) = Inr (ok, w', out')"
    using assms by (simp add: npu_infer_def Let_def b_def n_def r_def split: if_splits)
  show ?thesis
  proof (cases "r = 0")
    case False
    then show ?thesis using run unfolding defs by (intro exI [of _ "[]"]) auto
  next
    case True
    then obtain p' where loop: "npu_loop e m c f (nat maxTokens) (n, Synchronize c # ?w2, out) = Inr (p', w', out')"
      and ok using run by (auto simp: bindR_Inr_iff)
    from npu_loop_spec [OF loop] obtain toks where T: "length toks \<le> nat maxTokens" "out' = emit e m f toks out"
      "batches w' = batches (Synchronize c # ?w2) @ map (\<lambda>j. fill_batch (n + int j) (env_batch_one e [toks ! j])) [0..<length toks]"
      "only_ctx c (Synchronize c # ?w2) w'" by blast
    have "only_ctx c (KvClear c # w) (Synchronize c # ?w2)" by simp
    then have "only_ctx c (KvClear c # w) w'" using T(4) by (blast intro: only_ctx_trans)
    then show ?thesis unfolding defs using T(1-3) \<open>ok\<close> by (intro exI [of _ toks]) simp
  qed
qed

lemma npu_infer_fault:
  assumes "npu_infer e prompt maxTokens f g w out = Inl x" "ne_model g \<noteq> None"
  shows "x = LengthError \<and> \<not> piece_fits e"
  using assms
  by (auto simp: npu_infer_def Let_def bindR_Inl_iff dest!: npu_loop_fault split: option.splits if_splits)

end
