(* ===== verification/Npu_Props.thy ===== *)
theory Npu_Props
  imports Npu_Engine
begin

text \<open>The properties of \<open>NpuLLMEngine\<close>: the stream of an inference, loading, and what is freed.\<close>

subsection \<open>Loading and freeing\<close>

definition npu_ok :: "npu_engine \<Rightarrow> history \<Rightarrow> bool" where
  \<comment> \<open>the engine owns the only context, and every context has a model\<close>
  "npu_ok g w \<longleftrightarrow> live w = set_option (ne_ctx g) \<and> ctx_safe w \<and>
     (ne_ctx g \<noteq> None \<longrightarrow> ne_model g \<noteq> None) \<and> (ne_sampler g \<longleftrightarrow> ne_ctx g \<noteq> None)"

lemma npu_ok_init: "npu_ok NpuLLMEngine []"
  by (simp add: npu_ok_def NpuLLMEngine_def)

lemma warm_up_only: "c \<in> live w \<Longrightarrow> live (warm_up e m c w) = live w \<and> (ctx_safe w \<longrightarrow> ctx_safe (warm_up e m c w))"
  by (simp add: warm_up_def Let_def)

lemma npu_load_ok:
  assumes "fresh_init e" and g: "ne_model g = None" "ne_ctx g = None" and "npu_ok g w"
    and "npu_load e path dir nCtx nThreads g w = (ok, g', w')"
  shows "npu_ok g' w'" and "ok \<longleftrightarrow> ne_ctx g' \<noteq> None" and "npu_getModelInfo g' = (if npu_isReady g' then path else ''not loaded'')"
  using assms
  by (auto simp: npu_load_def npu_ok_def npu_isReady_def npu_getModelInfo_def fresh_init_def Let_def warm_up_only
      split: option.splits)

lemma npu_dtor_ok:
  assumes "npu_ok g w" shows "live (NpuLLMEngine_dtor g w) = {} \<and> ctx_safe (NpuLLMEngine_dtor g w)"
  using assms by (cases "ne_ctx g"; cases "ne_model g") (auto simp: npu_ok_def NpuLLMEngine_dtor_def Let_def)

text \<open>
  A load on a new NPU engine returns \<open>true\<close> exactly when it has made a context; the engine then owns
  the one live context, and its destructor frees it, with no use of a freed context at any time.
\<close>

theorem npu_load_and_free:
  assumes "fresh_init e" and "npu_load e path dir nCtx nThreads NpuLLMEngine [] = (ok, g, w)"
  shows "(ok \<longleftrightarrow> ne_ctx g \<noteq> None) \<and> live w = set_option (ne_ctx g) \<and>
    live (NpuLLMEngine_dtor g w) = {} \<and> ctx_safe (NpuLLMEngine_dtor g w)"
proof -
  note k = npu_load_ok [OF assms(1) _ _ npu_ok_init assms(2)]
  have "npu_ok g w" and "ok \<longleftrightarrow> ne_ctx g \<noteq> None" using k(1,2) by (simp_all add: NpuLLMEngine_def)
  then show ?thesis using npu_dtor_ok by (simp add: npu_ok_def)
qed

theorem npu_load_and_free_witness:
  "live (NpuLLMEngine_dtor (fst (snd (npu_load (demo_env 60) ''m'' ''d'' 16 4 NpuLLMEngine [])))
     (snd (snd (npu_load (demo_env 60) ''m'' ''d'' 16 4 NpuLLMEngine [])))) = {}"
  using npu_load_and_free [OF demo_fresh [of 60],
    of "''m''" "''d''" 16 4 "fst (npu_load (demo_env 60) ''m'' ''d'' 16 4 NpuLLMEngine [])"] by (simp del: ex_simps)

text \<open>
  When the model loads but the context does not, \<open>load\<close> returns \<open>false\<close> although the engine now
  reports itself ready; \<open>infer\<close> on it returns \<open>false\<close> with no call and no token.
\<close>

theorem npu_ready_without_context:
  assumes "env_model e (BackendLoadAll dir # BackendInit # w) path ((env_model_params e)\<lparr>mp_n_gpu_layers := 999\<rparr>) = Some m"
    and "\<And>v p. env_init e v m p = None"
  shows "\<exists>g' w'. npu_load e path dir nCtx nThreads g w = (False, g', w') \<and> npu_isReady g' \<and>
    npu_infer e prompt maxTokens f g' w' out = Inr (False, w', out)"
  using assms by (simp add: npu_load_def npu_isReady_def npu_infer_def Let_def)

definition no_ctx_env :: llama_env where
  "no_ctx_env = (demo_env 60)\<lparr>env_init := (\<lambda>w m p. None)\<rparr>"

theorem npu_ready_without_context_witness:
  "\<exists>g' w'. npu_load no_ctx_env ''m'' ''d'' 16 4 NpuLLMEngine [] = (False, g', w') \<and> npu_isReady g' \<and>
    npu_infer no_ctx_env ''hi'' 3 (\<lambda>t o'. t # o') g' w' [] = Inr (False, w', [])"
  by (rule npu_ready_without_context [where m = 0]) (simp_all add: no_ctx_env_def demo_env_def)

text \<open>
  Loading twice replaces the context without freeing it: after the destructor one context of the
  first load is still live.
\<close>

theorem second_load_leaks:
  "case npu_load (demo_env 60) ''m'' ''d'' 16 4 NpuLLMEngine [] of (ok1, g1, w1) \<Rightarrow>
   case npu_load (demo_env 60) ''m'' ''d'' 16 4 g1 w1 of (ok2, g2, w2) \<Rightarrow>
     ok1 \<and> ok2 \<and> live w2 = {0, 1} \<and> live (NpuLLMEngine_dtor g2 w2) = {0}"
  by (auto simp: npu_load_def NpuLLMEngine_def NpuLLMEngine_dtor_def warm_up_def demo_env_def Let_def)

subsection \<open>Inference\<close>

text \<open>
  The position at which the library puts the tokens of a batch: the one given, or, if the array is null,
  the number of tokens decoded before, since the cache was cleared.
\<close>

fun position :: "llama_batch list \<Rightarrow> nat \<Rightarrow> int" where
  "position bs k =
     (case b_pos (bs ! k) of None \<Rightarrow> sum_list (map b_n_tokens (take k bs)) | Some l \<Rightarrow> l ! 0)"

definition batch_of_tokens :: "llama_env \<Rightarrow> bool" where
  \<comment> \<open>\<open>llama_batch_get_one\<close> returns a batch for the tokens, whose other arrays are null or one entry per token\<close>
  "batch_of_tokens e \<longleftrightarrow>
     (\<forall>ts. let b = env_batch_one e ts in b_token b = Some ts \<and> b_n_tokens b = int (length ts) \<and>
        (case b_pos b of None \<Rightarrow> True | Some l \<Rightarrow> length l = length ts))"

lemma fill_batch_fields [simp]:
  "b_token (fill_batch p b) = b_token b" "b_n_tokens (fill_batch p b) = b_n_tokens b"
  "b_pos (fill_batch p b) = map_option (\<lambda>l. l[0 := p]) (b_pos b)"
  by (simp_all add: fill_batch_def)

lemma batch_positions:
  assumes "batch_of_tokens e"
    and bs: "bs = b0 # map (\<lambda>j. fill_batch (n + int j) (env_batch_one e [toks ! j])) [0..<length toks]"
    and "b_n_tokens b0 = n" "j < length toks"
  shows "b_token (bs ! Suc j) = Some [toks ! j]" "position bs (Suc j) = n + int j"
proof -
  let ?f = "\<lambda>j. fill_batch (n + int j) (env_batch_one e [toks ! j])"
  have one: "b_token (env_batch_one e [t]) = Some [t]" "b_n_tokens (env_batch_one e [t]) = 1"
    "b_pos (env_batch_one e [t]) = Some l \<Longrightarrow> length l = 1" for t l
    using assms(1) by (auto simp: batch_of_tokens_def Let_def dest!: spec [of _ "[t]"])
  have nth: "bs ! Suc j = ?f j" using assms(4) by (simp add: bs)
  show "b_token (bs ! Suc j) = Some [toks ! j]" by (simp add: nth one)
  have "take j [0..<length toks] = [0..<j]" using assms(4) by simp
  then have "sum_list (map b_n_tokens (take (Suc j) bs)) = n + sum_list (map (\<lambda>_. 1) [0..<j])"
    using assms(3) by (simp add: bs take_map o_def one del: upt_Suc)
  then have "sum_list (map b_n_tokens (take (Suc j) bs)) = n + int j" by (simp add: sum_list_triv)
  then show "position bs (Suc j) = n + int j"
    using one(3) by (auto simp: nth split: option.split)
qed

text \<open>
  C20: On a loaded NPU engine \<open>infer\<close> returns, unless a token's text is too long for the buffer and the
  negative length ends it in a \<open>length_error\<close>.  When it returns it has cleared the cache before anything
  else, passed the text of at most \<open>maxTokens\<close> sampled tokens to the callback, in order, and decoded the
  prompt and then each of these tokens alone; each is decoded at the position after the prompt and the
  tokens before it, whether the library takes it from the batch or, as with null arrays, counts what it
  has decoded since the cache was cleared.  It uses no other context and creates and frees none.
\<close>

theorem npu_infer_streams:
  assumes "ne_ctx g = Some c" "ne_model g = Some m" "c \<in> live w" "ctx_safe w" "batch_of_tokens e"
  shows "npu_infer e prompt maxTokens f g w out = Inl LengthError \<and> \<not> piece_fits e \<or>
    (\<exists>ok w' out' toks bs. npu_infer e prompt maxTokens f g w out = Inr (ok, w', out') \<and>
      length toks \<le> nat maxTokens \<and> out' = emit e m f toks out \<and> (\<not> ok \<longrightarrow> toks = []) \<and>
      batches w' = batches w @ bs \<and> length bs = Suc (length toks) \<and>
      b_token (bs ! 0) = Some (env_tokenize e m prompt) \<and>
      (\<forall>j<length toks. b_token (bs ! Suc j) = Some [toks ! j] \<and>
         position bs (Suc j) = int (length (env_tokenize e m prompt)) + int j) \<and>
      only_ctx c (KvClear c # w) w' \<and> live w' = live w \<and> ctx_safe w')"
proof (cases "npu_infer e prompt maxTokens f g w out")
  case (Inl x)
  then show ?thesis using npu_infer_fault [of e prompt maxTokens f g w out x] assms(2) by simp
next
  case (Inr r)
  obtain ok w' out' where r: "npu_infer e prompt maxTokens f g w out = Inr (ok, w', out')" using Inr by (cases r) auto
  let ?b0 = "env_batch_one e (env_tokenize e m prompt)" and ?n = "int (length (env_tokenize e m prompt))"
  from npu_infer_spec [OF assms(1,2) r] obtain toks where
    T: "length toks \<le> nat maxTokens" "out' = emit e m f toks out" "\<not> ok \<longrightarrow> toks = []"
      "batches w' = batches w @ ?b0 # map (\<lambda>j. fill_batch (?n + int j) (env_batch_one e [toks ! j])) [0..<length toks]"
      "only_ctx c (KvClear c # w) w'" by blast
  define bs where "bs = ?b0 # map (\<lambda>j. fill_batch (?n + int j) (env_batch_one e [toks ! j])) [0..<length toks]"
  have b0: "b_token ?b0 = Some (env_tokenize e m prompt)" "b_n_tokens ?b0 = ?n"
    using assms(5) by (auto simp: batch_of_tokens_def Let_def)
  have "length bs = Suc (length toks)" "b_token (bs ! 0) = Some (env_tokenize e m prompt)" using b0(1) by (simp_all add: bs_def)
  moreover have "live w' = live w \<and> ctx_safe w'" using only_ctx_live [OF T(5)] assms(3,4) by simp
  ultimately show ?thesis
    using r T batch_positions [OF assms(5) bs_def b0(2)] unfolding bs_def [symmetric] by blast
qed

definition array_env :: llama_env where
  \<comment> \<open>a library that returns a batch with an array of positions\<close>
  "array_env = (demo_env 60)\<lparr>env_batch_one := \<lambda>ts. (demo_batch ts)\<lparr>b_pos := Some (replicate (length ts) 0)\<rparr>\<rparr>"

theorem npu_infer_streams_witness:
  "\<exists>w' out' bs. npu_infer array_env ''hi'' 3 (\<lambda>t out. out @ [t])
      (fst (snd (npu_load array_env ''m'' ''d'' 16 4 NpuLLMEngine [])))
      (snd (snd (npu_load array_env ''m'' ''d'' 16 4 NpuLLMEngine []))) [] = Inr (True, w', out') \<and>
    length out' = 3 \<and> position bs 1 = 2 \<and> position bs 2 = 3 \<and> live w' = {0}"
proof -
  let ?L = "npu_load array_env ''m'' ''d'' 16 4 NpuLLMEngine []"
  let ?run = "npu_infer array_env ''hi'' 3 (\<lambda>t out. out @ [t]) (fst (snd ?L)) (snd (snd ?L)) []"
  have g: "ne_ctx (fst (snd ?L)) = Some 0" "ne_model (fst (snd ?L)) = Some 0"
    and w: "live (snd (snd ?L)) = {0}" "ctx_safe (snd (snd ?L))" and b: "batch_of_tokens array_env"
    by (simp_all add: npu_load_def NpuLLMEngine_def warm_up_def array_env_def demo_env_def demo_batch_def
        batch_of_tokens_def Let_def)
  have z: "(0::nat) \<in> live (snd (snd ?L))" using w by simp
  have "case ?run of Inl x \<Rightarrow> False | Inr (ok, w', out') \<Rightarrow> ok \<and> length out' = 3" by code_simp
  then obtain w' out' where r: "?run = Inr (True, w', out')" "length out' = 3"
    by (auto split: sum.splits prod.splits)
  have len: "length (emit array_env 0 (\<lambda>t out. out @ [t]) toks []) = length toks" for toks
    by (induction toks rule: rev_induct) simp_all
  have tok: "env_tokenize array_env 0 ''hi'' = [104, 105]" by (simp add: array_env_def demo_env_def of_char_def)
  from npu_infer_streams [OF g z w(2) b, of "''hi''" 3 "\<lambda>t out. out @ [t]" "[]"] r(1) obtain toks bs where
    T: "out' = emit array_env 0 (\<lambda>t out. out @ [t]) toks []" "live w' = live (snd (snd ?L))"
      "\<forall>j<length toks. position bs (Suc j) = int (length (env_tokenize array_env 0 ''hi'')) + int j" by auto
  have "length toks = 3" using T(1) r(2) len by simp
  then have "position bs (Suc 0) = 2" "position bs (Suc 1) = 3" using T(3) tok by (simp_all del: position.simps)
  then show ?thesis using r T(2) w(1) by (intro exI [of _ w'] exI [of _ out'] exI [of _ bs]) (simp add: numeral_2_eq_2)
qed

text \<open>
  The evaluation callback never stops the graph: it lets the scheduler skip every tensor but
  \<open>result_norm\<close>, and for a tensor it has asked for it answers \<open>true\<close> to the second call, in which
  alone it reads the data.
\<close>

theorem eval_callback_keeps_graph:
  "fst (MiniVEvalCallback t True) = (t_name t = ''result_norm'') \<and>
   fst (MiniVEvalCallback t False) = fst (MiniVEvalCallback t True) \<and>
   snd (MiniVEvalCallback t ask) = (\<not> ask \<and> fst (MiniVEvalCallback t True))"
  by (simp add: MiniVEvalCallback_def)

end
