(* ===== verification/Base64.thy ===== *)
theory Base64
  imports C_Stdio
begin

text \<open>
  The transport encoding of generated text, \<open>daemon/include/base64_util.h\<close>: the two loops of
  \<open>base64Encode\<close> and \<open>base64Decode\<close>, with the accumulator \<open>int val\<close> kept at its 32 bits (it is
  never masked, so it overflows on every string of four bytes or more), a reference encoder that
  works on groups of three bytes, and the round trip.
\<close>

subsection \<open>The encoder\<close>

definition b64_lookup :: string where
  "b64_lookup = ''ABCDEFGHIJKLMNOPQRSTUVWXYZabcdefghijklmnopqrstuvwxyz0123456789+/''"

definition sextet :: "int \<Rightarrow> 32 word \<Rightarrow> nat" where
  \<comment> \<open>\<open>(val >> k) & 0x3F\<close>, the shift arithmetic as on a signed \<open>int\<close>\<close>
  "sextet k val = unat (signed_drop_bit (nat k) val AND 0x3F)"

function enc_drain :: "32 word \<Rightarrow> int \<Rightarrow> string \<Rightarrow> int \<times> string" where
  \<comment> \<open>\<open>while (valb >= 0)\<close>\<close>
  "enc_drain val valb out =
     (if 0 \<le> valb then enc_drain val (valb - 6) (out @ [b64_lookup ! sextet valb val])
      else (valb, out))"
  by pat_completeness auto
termination
  by (relation "measure (\<lambda>(val, valb, out). nat (valb + 6))") auto

declare enc_drain.simps [simp del]

type_synonym b64_state = "string \<times> 32 word \<times> int"

definition enc_step :: "b64_state \<Rightarrow> char \<Rightarrow> b64_state" where
  "enc_step st c =
     (case st of (out, val, valb) \<Rightarrow>
        let val' = push_bit 8 val + of_char c;
            (valb', out') = enc_drain val' (valb + 8) out
        in (out', val', valb'))"

function pad_to4 :: "string \<Rightarrow> string" where
  \<comment> \<open>\<open>while (out.size() % 4 != 0) out.push_back('=')\<close>\<close>
  "pad_to4 out = (if length out mod 4 \<noteq> 0 then pad_to4 (out @ ''='') else out)"
  by pat_completeness auto
termination
  by (relation "measure (\<lambda>out. (3 * length out) mod 4)") (auto, presburger)

declare pad_to4.simps [simp del]

definition base64Encode :: "string \<Rightarrow> string" where
  "base64Encode inp =
     (let (out, val, valb) = foldl enc_step ([], 0, - 6) inp;
          out' = (if valb > - 6
                  then out @ [b64_lookup ! sextet (valb + 8) (push_bit 8 val)] else out)
      in pad_to4 out')"

subsection \<open>The decoder\<close>

definition b64_table :: "int list" where
  \<comment> \<open>\<open>std::vector<int> T(256, -1)\<close>, filled from the alphabet\<close>
  "b64_table =
     foldl (\<lambda>T i. T[of_char (b64_lookup ! i) := int i]) (replicate 256 (- 1)) [0..<64]"

definition dec_step :: "b64_state \<Rightarrow> char \<Rightarrow> b64_state" where
  "dec_step st c =
     (case st of (out, val, valb) \<Rightarrow>
        let t = b64_table ! of_char c in
        if t = - 1 then (out, val, valb)
        else
          let val' = push_bit 6 val + word_of_int t; valb' = valb + 6 in
          if 0 \<le> valb'
          then (out @ [char_of (unat (signed_drop_bit (nat valb') val' AND 0xFF))], val', valb' - 8)
          else (out, val', valb'))"

definition base64Decode :: "string \<Rightarrow> string" where
  "base64Decode inp = fst (foldl dec_step ([], 0, - 8) inp)"

subsection \<open>A reference encoder on groups of three bytes\<close>

fun b64_ref :: "string \<Rightarrow> string" where
  "b64_ref [] = []"
| "b64_ref [a] =
     (let x = of_char a :: nat in
      [b64_lookup ! (x div 4), b64_lookup ! (x mod 4 * 16), CHR ''='', CHR ''=''])"
| "b64_ref [a, b] =
     (let x = of_char a :: nat; y = of_char b :: nat in
      [b64_lookup ! (x div 4), b64_lookup ! (x mod 4 * 16 + y div 16),
       b64_lookup ! (y mod 16 * 4), CHR ''=''])"
| "b64_ref (a # b # c # r) =
     (let x = of_char a :: nat; y = of_char b :: nat; z = of_char c :: nat in
      b64_lookup ! (x div 4) # b64_lookup ! (x mod 4 * 16 + y div 16)
      # b64_lookup ! (y mod 16 * 4 + z div 64) # b64_lookup ! (z mod 64) # b64_ref r)"

subsection \<open>The accumulator\<close>

lemma take_drop_mask:
  "k + n \<le> 32 \<Longrightarrow> unat (take_bit n (signed_drop_bit k (w :: 32 word))) = unat w div 2 ^ k mod 2 ^ n"
proof -
  assume kn: "k + n \<le> 32"
  have "take_bit n (signed_drop_bit k w) = take_bit n (drop_bit k w)"
    by (rule bit_word_eqI) (use kn in \<open>auto simp: bit_take_bit_iff bit_signed_drop_bit_iff bit_drop_bit_eq\<close>)
  then have "unat (take_bit n (signed_drop_bit k w)) = take_bit n (drop_bit k (unat w))"
    by (simp only: unsigned_take_bit_eq unsigned_drop_bit_eq) (use kn in \<open>simp add: drop_bit_take_bit\<close>)
  then show ?thesis
    by (simp only: take_bit_eq_mod drop_bit_eq_div)
qed
lemma mod_div_mod:
  fixes x :: nat assumes "k + n \<le> m" shows "x mod 2 ^ m div 2 ^ k mod 2 ^ n = x div 2 ^ k mod 2 ^ n"
proof -
  have "take_bit n (drop_bit k (take_bit m x)) = take_bit n (drop_bit k x)"
    using assms by (auto simp: drop_bit_take_bit min_def)
  then show ?thesis by (simp add: take_bit_eq_mod drop_bit_eq_div)
qed
lemma of_char_less: "of_char c < (256 :: nat)"
  using range_nat_of_char by (metis atLeastLessThan_iff rangeI)

lemma unat_push_nat:
  "unat (push_bit 8 v + word_of_nat n :: 32 word) = (unat v * 256 + n) mod 2 ^ 32"
  "unat (push_bit 6 v + word_of_nat n :: 32 word) = (unat v * 64 + n) mod 2 ^ 32"
  by (simp_all add: push_bit_eq_mult unat_word_ariths unat_of_nat mod_simps mult.commute)

lemma unat_push8:
  "unat (push_bit 8 v + of_char c :: 32 word) = (unat v * 256 + of_char c) mod 2 ^ 32"
  using unat_push_nat(1) [of v "of_char c"] by (simp only: of_nat_of_char)

lemma unat_push6:
  "0 \<le> t \<Longrightarrow> unat (push_bit 6 v + word_of_int t :: 32 word) = (unat v * 64 + nat t) mod 2 ^ 32"
  using unat_push_nat(2) [of v "nat t"] by (simp only: of_nat_nat)

lemma sextet_eq:
  assumes "0 \<le> k" "k \<le> 26" shows "sextet k w = unat w div 2 ^ nat k mod 64"
proof -
  have "(0x3F :: 32 word) = mask 6" by (simp add: mask_eq_exp_minus_1)
  then have "sextet k w = unat (take_bit 6 (signed_drop_bit (nat k) w))"
    by (simp only: sextet_def take_bit_eq_mask)
  also have "\<dots> = unat w div 2 ^ nat k mod 2 ^ 6"
    using assms by (intro take_drop_mask) simp
  finally show ?thesis by simp
qed

lemma octet_eq:
  assumes "k \<le> 24" shows "unat (signed_drop_bit k w AND 0xFF :: 32 word) = unat w div 2 ^ k mod 256"
proof -
  have "(0xFF :: 32 word) = mask 8" by (simp add: mask_eq_exp_minus_1)
  then have "unat (signed_drop_bit k w AND 0xFF) = unat (take_bit 8 (signed_drop_bit k w))"
    by (simp only: take_bit_eq_mask)
  also have "\<dots> = unat w div 2 ^ k mod 2 ^ 8"
    using assms by (intro take_drop_mask) simp
  finally show ?thesis by simp
qed

 text \<open>One byte appended to the accumulator, whatever older bytes it still holds or has lost.\<close>

lemma sextet_push8:
  assumes "0 \<le> k" "k \<le> 26"
  shows "sextet k (push_bit 8 v + of_char c) = (unat v * 256 + of_char c) div 2 ^ nat k mod 64"
  using mod_div_mod [of "nat k" 6 32 "unat v * 256 + of_char c"] assms
  by (simp add: sextet_eq unat_push8)

lemma push8_mod: "unat (push_bit 8 v + of_char c :: 32 word) mod 256 = of_char c"
proof -
  have "unat (push_bit 8 v + of_char c :: 32 word) mod 256 = (unat v * 256 + of_char c) mod 2 ^ 32 mod 256"
    by (simp only: unat_push8)
  also have "\<dots> = (unat v * 256 + of_char c) mod 256"
    by (rule mod_mod_cancel) simp
  also have "\<dots> = of_char c" by (simp add: of_char_less)
  finally show ?thesis .
qed

text \<open>The arithmetic of regrouping bits, on natural numbers.\<close>

lemma ar_div: "d > 0 \<Longrightarrow> (v * (d * k) + a) div d = v * k + a div (d :: nat)"
  using div_mult_self1 [of d a "v * k"] by (simp add: algebra_simps)

lemma ar_mid:
  fixes v :: nat
  assumes "v mod m = x" "k dvd m" "0 < k" "r < q"
  shows "(v * q + r) mod (k * q) = x mod k * q + r"
proof -
  have "v mod k = x mod k" using assms(1,2) mod_mod_cancel [of k m v] by simp
  then have "v * q + r = v div k * (k * q) + (x mod k * q + r)"
    using div_mult_mod_eq [of v k] by (metis add.assoc add_mult_distrib mult.assoc)
  moreover have "x mod k * q + r < k * q"
  proof -
    have "x mod k \<le> k - 1" using assms(3) mod_less_divisor [of k x] by linarith
    then have "x mod k * q \<le> (k - 1) * q" by (rule mult_right_mono) simp
    moreover have "(k - 1) * q + q = k * q" using assms(3) by (cases k) simp_all
    ultimately show ?thesis using assms(4) by linarith
  qed
  ultimately show ?thesis by (metis mod_mult_self3 mod_less)
qed

lemma of_char_div:
  "of_char c div 4 < (64 :: nat)" "of_char c div 16 < (16 :: nat)" "of_char c div 64 < (4 :: nat)"
  using of_char_less [of c] by (auto intro!: less_mult_imp_div_less)

lemma sextet_first: "sextet 2 (push_bit 8 v + of_char a) = of_char a div 4"
  using of_char_div [of a] ar_div [of 4 "unat v" 64 "of_char a"] by (simp add: sextet_push8)

lemma sextet_second:
  "unat v mod 256 = x \<Longrightarrow> sextet 4 (push_bit 8 v + of_char b) = x mod 4 * 16 + of_char b div 16"
  using of_char_div [of b] ar_div [of 16 "unat v" 16 "of_char b"]
    ar_mid [of "unat v" 256 x 4 "of_char b div 16" 16]
  by (simp add: sextet_push8)

lemma sextet_third:
  "unat v mod 256 = y \<Longrightarrow> sextet 6 (push_bit 8 v + of_char c) = y mod 16 * 4 + of_char c div 64"
  using of_char_div [of c] ar_div [of 64 "unat v" 4 "of_char c"]
    ar_mid [of "unat v" 256 y 16 "of_char c div 64" 4]
  by (simp add: sextet_push8)

lemma sextet_fourth: "sextet 0 (push_bit 8 v + of_char c) = of_char c mod 64"
  using mod_mult_self3 [of "4 * unat v" 64 "of_char c"] by (simp add: sextet_push8 mult.commute)

lemma sextet_tail:
  "unat v mod 256 = x \<Longrightarrow> sextet 4 (push_bit 8 v) = x mod 4 * 16"
  "unat v mod 256 = x \<Longrightarrow> sextet 6 (push_bit 8 v) = x mod 16 * 4"
  using sextet_second [of v x "CHR 0x00"] sextet_third [of v x "CHR 0x00"] by simp_all

lemma push6_mod:
  "0 \<le> t \<Longrightarrow> t < 64 \<Longrightarrow> unat (push_bit 6 v + word_of_int t :: 32 word) mod 64 = nat t"
  using mod_mod_cancel [of 64 "2 ^ 32" "unat v * 64 + nat t"] by (simp add: unat_push6)

lemma octet_push6:
  assumes "0 \<le> t" "k \<le> 24"
  shows "unat (signed_drop_bit k (push_bit 6 v + word_of_int t) AND 0xFF :: 32 word)
    = (unat v * 64 + nat t) div 2 ^ k mod 256"
  using mod_div_mod [of k 8 32 "unat v * 64 + nat t"] assms
  by (simp only: octet_eq unat_push6) simp

lemma octet_second:
  "unat v mod 64 = x \<Longrightarrow> 0 \<le> t \<Longrightarrow> t < 64 \<Longrightarrow>
    unat (signed_drop_bit 4 (push_bit 6 v + word_of_int t) AND 0xFF :: 32 word) = x * 4 + nat t div 16"
  using ar_div [of 16 "unat v" 4 "nat t"] ar_mid [of "unat v" 64 x 64 "nat t div 16" 4]
  by (simp add: octet_push6)

lemma octet_third:
  "unat v mod 64 = x \<Longrightarrow> 0 \<le> t \<Longrightarrow> t < 64 \<Longrightarrow>
    unat (signed_drop_bit 2 (push_bit 6 v + word_of_int t) AND 0xFF :: 32 word)
      = x mod 16 * 16 + nat t div 4"
  using ar_div [of 4 "unat v" 16 "nat t"] ar_mid [of "unat v" 64 x 16 "nat t div 4" 16]
  by (simp add: octet_push6)

lemma octet_fourth:
  "unat v mod 64 = x \<Longrightarrow> 0 \<le> t \<Longrightarrow> t < 64 \<Longrightarrow>
    unat (push_bit 6 v + word_of_int t AND 0xFF :: 32 word) = x mod 4 * 64 + nat t"
  using octet_push6 [of t 0 v] ar_mid [of "unat v" 64 x 4 "nat t" 64]
  by simp

subsection \<open>The encoder computes the reference encoding\<close>

lemma enc_drain_vals [simp]:
  "enc_drain v 2 out = (- 4, out @ [b64_lookup ! sextet 2 v])"
  "enc_drain v 4 out = (- 2, out @ [b64_lookup ! sextet 4 v])"
  "enc_drain v 6 out = (- 6, out @ [b64_lookup ! sextet 6 v, b64_lookup ! sextet 0 v])"
  by (simp_all add: enc_drain.simps)

text \<open>Three bytes come out as four characters, whatever the accumulator held before.\<close>

lemma enc_group:
  "\<exists>v'. foldl enc_step (out, v, - 6) [a, b, c] = (out @ b64_ref [a, b, c], v', - 6)"
  by (simp add: enc_step_def Let_def sextet_first sextet_second [OF push8_mod]
      sextet_third [OF push8_mod] sextet_fourth)

definition enc_finish :: "b64_state \<Rightarrow> string" where
  "enc_finish st = (case st of (out, val, valb) \<Rightarrow>
     pad_to4 (if valb > - 6 then out @ [b64_lookup ! sextet (valb + 8) (push_bit 8 val)] else out))"

lemma base64Encode_finish: "base64Encode s = enc_finish (foldl enc_step ([], 0, - 6) s)"
  by (simp add: base64Encode_def enc_finish_def Let_def split: prod.split)

lemma pad_to4_vals:
  "length out mod 4 = 0 \<Longrightarrow> pad_to4 out = out"
  "length out mod 4 = 3 \<Longrightarrow> pad_to4 out = out @ ''=''"
  "length out mod 4 = 2 \<Longrightarrow> pad_to4 out = out @ ''==''"
proof -
  show a: "pad_to4 out = out" if "length out mod 4 = 0" for out
    using that by (simp add: pad_to4.simps)
  show b: "pad_to4 out = out @ ''=''" if "length out mod 4 = 3" for out
    using that a [of "out @ ''=''"] by (subst pad_to4.simps) (simp add: mod_Suc)
  show "pad_to4 out = out @ ''==''" if "length out mod 4 = 2" for out
    using that b [of "out @ ''=''"] by (subst pad_to4.simps) (simp add: mod_Suc)
qed

lemma enc_fold_ref:
  "length out mod 4 = 0 \<Longrightarrow> enc_finish (foldl enc_step (out, v, - 6) s) = out @ b64_ref s"
proof (induction s arbitrary: out v rule: b64_ref.induct)
  case 1
  then show ?case by (simp add: enc_finish_def pad_to4_vals)
next
  case (2 a)
  then show ?case
    by (simp add: enc_finish_def enc_step_def Let_def sextet_first sextet_tail [OF push8_mod]
        pad_to4_vals mod_Suc)
next
  case (3 a b)
  then show ?case
    by (simp add: enc_finish_def enc_step_def Let_def sextet_first sextet_second [OF push8_mod]
        sextet_tail [OF push8_mod] pad_to4_vals mod_Suc)
next
  case (4 a b c r)
  obtain v' where step: "foldl enc_step (out, v, - 6) [a, b, c] = (out @ b64_ref [a, b, c], v', - 6)"
    using enc_group by blast
  have len: "length (out @ b64_ref [a, b, c]) mod 4 = 0"
    using "4.prems" by (simp add: Let_def mod_Suc)
  have "foldl enc_step (out, v, - 6) (a # b # c # r)
      = foldl enc_step (foldl enc_step (out, v, - 6) [a, b, c]) r"
    by simp
  then have "enc_finish (foldl enc_step (out, v, - 6) (a # b # c # r))
      = (out @ b64_ref [a, b, c]) @ b64_ref r"
    using "4.IH" [OF refl refl refl len, of v'] by (simp only: step)
  then show ?case by (simp add: Let_def)
qed

lemma base64Encode_eq_ref: "base64Encode s = b64_ref s"
  using enc_fold_ref [of "[]" 0 s] by (simp add: base64Encode_finish)

subsection \<open>The decoder on encoded text\<close>

lemma foldl_update_notin:
  "j \<notin> f ` set is \<Longrightarrow> foldl (\<lambda>T i. T[f i := g i]) T is ! j = T ! j"
  by (induction "is" arbitrary: T) auto

lemma foldl_update_nth:
  "distinct (map f is) \<Longrightarrow> i \<in> set is \<Longrightarrow> f i < length T \<Longrightarrow>
    foldl (\<lambda>T i. T[f i := g i]) T is ! f i = g i"
proof (induction "is" arbitrary: T)
  case (Cons k ks)
  show ?case
  proof (cases "i = k")
    case True
    with Cons.prems have "f k \<notin> f ` set ks" by (auto simp: image_iff)
    with True Cons.prems show ?thesis by (simp add: foldl_update_notin)
  next
    case False
    with Cons show ?thesis by simp
  qed
qed simp

lemma b64_alphabet_distinct: "distinct b64_lookup" and b64_alphabet_length: "length b64_lookup = 64"
  by code_simp+

lemma b64_table_lookup:
  assumes "i < 64" shows "b64_table ! of_char (b64_lookup ! i) = int i"
proof -
  have "map (\<lambda>i. of_char (b64_lookup ! i) :: nat) [0..<64] = map of_char b64_lookup"
    by (rule nth_equalityI) (simp_all add: b64_alphabet_length)
  then have "distinct (map (\<lambda>i. of_char (b64_lookup ! i) :: nat) [0..<64])"
    by (simp add: distinct_map b64_alphabet_distinct inj_on_def)
  then show ?thesis
    unfolding b64_table_def using assms of_char_less
    by (intro foldl_update_nth [where f = "\<lambda>i. of_char (b64_lookup ! i)"]) auto
qed

lemma b64_pad_notin: "CHR ''='' \<notin> set b64_lookup"
  by code_simp

lemma b64_table_pad: "b64_table ! of_char (CHR ''='') = - 1"
proof -
  have "b64_lookup ! i \<noteq> CHR ''=''" if "i < 64" for i
    using that b64_pad_notin b64_alphabet_length by (metis nth_mem)
  then have "of_char (CHR ''='') \<notin> (\<lambda>i. of_char (b64_lookup ! i) :: nat) ` set [0..<64]"
    by (auto simp del: of_char_Char) (metis of_char_eq_iff)
  then show ?thesis
    unfolding b64_table_def by (subst foldl_update_notin) simp_all
qed

lemma dec_pad [simp]: "dec_step st (CHR ''='') = st"
  unfolding dec_step_def by (cases st) (simp add: b64_table_pad del: of_char_Char)

definition dec_acc :: "32 word \<Rightarrow> nat \<Rightarrow> 32 word" where
  "dec_acc v i = push_bit 6 v + word_of_int (int i)"

lemma dec_acc_mod: "i < 64 \<Longrightarrow> unat (dec_acc v i) mod 64 = i"
  using push6_mod [of "int i" v] by (simp add: dec_acc_def)

lemma dec_acc_octet:
  "i < 64 \<Longrightarrow> unat v mod 64 = x \<Longrightarrow> unat (signed_drop_bit 4 (dec_acc v i) AND 0xFF) = x * 4 + i div 16"
  "i < 64 \<Longrightarrow> unat v mod 64 = x \<Longrightarrow> unat (signed_drop_bit 2 (dec_acc v i) AND 0xFF) = x mod 16 * 16 + i div 4"
  "i < 64 \<Longrightarrow> unat v mod 64 = x \<Longrightarrow> unat (dec_acc v i AND 0xFF) = x mod 4 * 64 + i"
  using octet_second [of v x "int i"] octet_third [of v x "int i"] octet_fourth [of v x "int i"]
  by (simp_all add: dec_acc_def)

lemma dec_lookup:
  "i < 64 \<Longrightarrow> dec_step (out, v, valb) (b64_lookup ! i) =
     (if 0 \<le> valb + 6
      then (out @ [char_of (unat (signed_drop_bit (nat (valb + 6)) (dec_acc v i) AND 0xFF))],
            dec_acc v i, valb - 2)
      else (out, dec_acc v i, valb + 6))"
  by (simp only: dec_step_def b64_table_lookup Let_def prod.case dec_acc_def) simp

lemma of_char_small:
  "of_char c div 16 div 16 = (0 :: nat)" "of_char c div 64 div 4 = (0 :: nat)"
  "of_char c div 16 mod 16 = (of_char c div 16 :: nat)" "of_char c div 64 mod 4 = (of_char c div 64 :: nat)"
  using of_char_div [of c] by simp_all

lemma sextet_bounds:
  "of_char a div 4 < (64 :: nat)"
  "of_char a mod 4 * 16 + of_char b div 16 < (64 :: nat)"
  "of_char b mod 16 * 4 + of_char c div 64 < (64 :: nat)"
  "of_char a mod 4 * 16 < (64 :: nat)"
  "of_char a mod 16 * 4 < (64 :: nat)"
proof -
  have m: "of_char x mod 4 \<le> (3 :: nat)" "of_char x mod 16 \<le> (15 :: nat)" for x
    using mod_less_divisor [of 4 "of_char x"] mod_less_divisor [of 16 "of_char x"] by linarith+
  show "of_char a div 4 < (64 :: nat)" by (rule of_char_div)
  show "of_char a mod 4 * 16 + of_char b div 16 < (64 :: nat)"
    using m(1) [of a] of_char_div(2) [of b] by linarith
  show "of_char b mod 16 * 4 + of_char c div 64 < (64 :: nat)"
    using m(2) [of b] of_char_div(3) [of c] by linarith
  show "of_char a mod 4 * 16 < (64 :: nat)" using m(1) [of a] by linarith
  show "of_char a mod 16 * 4 < (64 :: nat)" using m(2) [of a] by linarith
qed

lemma dec_group:
  "\<exists>v'. foldl dec_step (out, v, - 8) (b64_ref [a, b, c]) = (out @ [a, b, c], v', - 8)"
  by (simp add: Let_def dec_lookup sextet_bounds dec_acc_mod dec_acc_octet 
       of_char_small)

lemma dec_fold_ref:
  "fst (foldl dec_step (out, v, - 8) (b64_ref s)) = out @ s"
proof (induction s arbitrary: out v rule: b64_ref.induct)
  case 1
  then show ?case by simp
next
  case (2 a)
  then show ?case
    by (simp add: Let_def dec_lookup sextet_bounds dec_acc_mod dec_acc_octet of_char_small)
next
  case (3 a b)
  then show ?case
    by (simp add: Let_def dec_lookup sextet_bounds dec_acc_mod dec_acc_octet 
      of_char_small)
next
  case (4 a b c r)
  obtain v' where step: "foldl dec_step (out, v, - 8) (b64_ref [a, b, c]) = (out @ [a, b, c], v', - 8)"
    using dec_group by blast
  have "b64_ref (a # b # c # r) = b64_ref [a, b, c] @ b64_ref r" by (simp add: Let_def)
  then have "fst (foldl dec_step (out, v, - 8) (b64_ref (a # b # c # r)))
      = (out @ [a, b, c]) @ r"
    using "4.IH" [OF refl refl refl, of "out @ [a, b, c]" v'] by (simp only: foldl_append step)
  then show ?case by simp
qed

lemma b64_decode_encode: "base64Decode (base64Encode s) = s"
  using dec_fold_ref [of "[]" 0 s] by (simp add: base64Decode_def base64Encode_eq_ref)
subsection \<open>What the encoding looks like on the wire\<close>

lemma b64_ref_length: "length (b64_ref s) = (length s + 2) div 3 * 4"
proof (induction s rule: b64_ref.induct)
  case (4 a b c r)
  have "(5 + n) div 3 = (n + 2) div 3 + 1" for n :: nat by presburger
  then show ?case using "4.IH" [OF refl refl refl] by (simp add: Let_def)
qed (simp_all add: Let_def)

lemma b64_lookup_in: "i < 64 \<Longrightarrow> b64_lookup ! i \<in> set b64_lookup"
  by (simp add: b64_alphabet_length)

lemma b64_ref_chars: "set (b64_ref s) \<subseteq> insert (CHR ''='') (set b64_lookup)"
  by (induction s rule: b64_ref.induct) (auto simp: Let_def b64_lookup_in sextet_bounds)

lemma b64_wire_safe: "set (b64_ref s) \<inter> {CHR 0x0A, CHR 0x00, CHR '' ''} = {}"
proof -
  have "\<forall>c \<in> set (CHR ''='' # b64_lookup). c \<notin> {CHR 0x0A, CHR 0x00, CHR '' ''}"
    by code_simp
  then show ?thesis using b64_ref_chars [of s] by auto
qed

interpretation b64: token_codec base64Encode base64Decode
  by unfold_locales
    (rule b64_decode_encode, simp_all add: base64Encode_eq_ref b64_wire_safe b64_ref_length)

subsection \<open>Properties\<close>

text \<open>
  C32: the shift loop of \<open>base64Encode\<close>, whose 32-bit accumulator overflows, computes the standard
  encoding by groups of three bytes.
\<close>

theorem base64_encode_standard:
  "base64Encode s = b64_ref s"
  by (rule base64Encode_eq_ref)

text \<open>C31: \<open>base64Decode\<close> inverts \<open>base64Encode\<close> on every byte string, of any length.\<close>

theorem base64_round_trip:
  "base64Decode (base64Encode s) = s"
  by (rule b64_decode_encode)

text \<open>
  Encoded text is a whole number of groups of four characters of the alphabet and \<open>=\<close>, with no
  line feed, blank or zero byte, so it can be a field of a line of the socket protocol; the \<open>reserve\<close>
  at the top of the encoder is exact.
\<close>

theorem base64_on_the_wire:
  "length (base64Encode s) = (length s + 2) div 3 * 4 \<and>
   set (base64Encode s) \<subseteq> insert (CHR ''='') (set b64_lookup) \<and>
   set (base64Encode s) \<inter> {CHR 0x0A, CHR 0x00, CHR '' ''} = {}"
  by (simp add: base64Encode_eq_ref b64_ref_length b64_ref_chars b64_wire_safe)

end
