(* ===== verification/Daemon.thy ===== *)
theory Daemon
  imports LLM_Engine Npu_Engine Base64
begin

text \<open>
  \<open>daemon/main.cpp\<close>: the line protocol of \<open>HandleClient\<close> over one connection, and \<open>main\<close>: the
  startup and the accept loop.  A connection is the string of the bytes the client sends before it
  closes its end; what is written to it is appended to the output of the daemon.  The two engines
  have a history each.
\<close>

subsection \<open>State and output\<close>

record daemon =
  d_engine :: llm_engine \<comment> \<open>\<open>gEngine\<close>\<close>
  d_hist :: history
  d_npu :: npu_engine \<comment> \<open>\<open>gNpuEngine\<close>\<close>
  d_npuHist :: history
  d_out :: string \<comment> \<open>what has been written to clients\<close>

definition puts :: "string \<Rightarrow> daemon \<Rightarrow> daemon" where
  \<comment> \<open>\<open>fprintf(wf, "...\n"); fflush(wf)\<close>\<close>
  "puts l d = d\<lparr>d_out := d_out d @ l @ [newline]\<rparr>"

definition token_line :: "string \<Rightarrow> string \<Rightarrow> string" where
  \<comment> \<open>the callback of both engines: \<open>fprintf(wf, "TOKEN %s\n", base64Encode(tok).c_str())\<close>\<close>
  "token_line tok out = out @ ''TOKEN '' @ c_str (base64Encode tok) @ [newline]"

subsection \<open>The prompt\<close>

function read_prompt :: "string \<Rightarrow> string \<Rightarrow> string \<times> string" where
  \<comment> \<open>the lines up to one that starts with \<open>END\<close>, and the rest of the stream\<close>
  "read_prompt prompt s =
     (case fgets 4096 s of
        None \<Rightarrow> (prompt, s)
      | Some (promptLine, r) \<Rightarrow>
          if starts_with ''END'' (c_str promptLine) then (prompt, r)
          else read_prompt (prompt @ c_str promptLine) r)"
  by pat_completeness auto
termination
  by (relation "measure (\<lambda>(p, s). length s)") (auto intro: fgets_shorter [of 4096])

declare read_prompt.simps [simp del]

lemma read_prompt_shorter: "length (snd (read_prompt p s)) \<le> length s"
proof (induction p s rule: read_prompt.induct)
  case (1 p s)
  show ?case
  proof (cases "fgets 4096 s")
    case None
    then show ?thesis by (simp add: read_prompt.simps [of p s])
  next
    case (Some lr)
    obtain l r where lr: "lr = (l, r)" by (cases lr)
    have "length r < length s" using fgets_shorter [of 4096 s l r] Some lr by simp
    then show ?thesis
      using 1 [OF Some lr [symmetric]] Some lr by (auto simp: read_prompt.simps [of p s])
  qed
qed

subsection \<open>Arguments\<close>

definition infer_args :: "string \<Rightarrow> int \<times> int" where
  \<comment> \<open>\<open>sscanf(s, "%d %d", &sessionId, &maxTokens)\<close> on two variables that are 0\<close>
  "infer_args s =
     (case sscanf_d s of
        None \<Rightarrow> (0, 0)
      | Some (i, r) \<Rightarrow> (case sscanf_d r of None \<Rightarrow> (i, 0) | Some (n, r') \<Rightarrow> (i, n)))"

definition npu_load_args :: "string \<Rightarrow> string \<times> string \<times> int \<times> int" where
  \<comment> \<open>\<open>sscanf(s, "%511s %511s %d %d", modelPath, backendDir, &nCtx, &nThreads)\<close>\<close>
  "npu_load_args s =
     (case sscanf_s 511 s of
        None \<Rightarrow> ([], [], 0, 0)
      | Some (p, r1) \<Rightarrow>
          (case sscanf_s 511 r1 of
             None \<Rightarrow> (p, [], 0, 0)
           | Some (b, r2) \<Rightarrow>
               (case sscanf_d r2 of
                  None \<Rightarrow> (p, b, 0, 0)
                | Some (c, r3) \<Rightarrow> (case sscanf_d r3 of None \<Rightarrow> (p, b, c, 0) | Some (t, r4) \<Rightarrow> (p, b, c, t)))))"

subsection \<open>Commands\<close>

text \<open>
  One definition per branch of \<open>HandleClient\<close>.  A branch gets the text after the command word; the
  branches that read a prompt also get the stream.  The session manager of an engine that is not
  loaded is a null pointer.
\<close>

definition with_sessions :: "(session_manager \<Rightarrow> history \<Rightarrow> ('a \<times> session_manager \<times> history) result) \<Rightarrow> daemon
    \<Rightarrow> ('a \<times> daemon) result" where
  \<comment> \<open>a call through \<open>gEngine.sessionManager()->\<close>\<close>
  "with_sessions call d =
     (case le_sessions (d_engine d) of
        None \<Rightarrow> Inl NullDereference
      | Some s \<Rightarrow>
          bindR (call s (d_hist d)) (\<lambda>(a, s', w').
            Inr (a, d\<lparr>d_engine := (d_engine d)\<lparr>le_sessions := Some s'\<rparr>, d_hist := w'\<rparr>)))"

definition cmd_create_session :: "llama_env \<Rightarrow> string \<Rightarrow> daemon \<Rightarrow> daemon result" where
  "cmd_create_session e arg d =
     (let i = atoi arg in
      if \<not> engine_isReady (d_engine d) then Inr (puts ''ERROR engine not ready'' d)
      else
        bindR (with_sessions (\<lambda>s w. Inr (createSession e i s w)) d) (\<lambda>(ok, d').
          Inr (puts (if ok then ''OK'' else ''ERROR ALREADY_EXISTS'') d')))"

definition cmd_kill_session :: "string \<Rightarrow> daemon \<Rightarrow> daemon result" where
  "cmd_kill_session arg d =
     bindR (with_sessions (killSession (atoi arg)) d) (\<lambda>(ok, d').
       Inr (puts (if ok then ''OK'' else ''ERROR NOT_FOUND'') d'))"

definition cmd_set_hot_limit :: "llama_env \<Rightarrow> string \<Rightarrow> daemon \<Rightarrow> daemon result" where
  "cmd_set_hot_limit e arg d =
     bindR (with_sessions (\<lambda>s w. bindR (setHotLimit e (strtoul arg) s w) (\<lambda>(s', w'). Inr ((), s', w'))) d)
       (\<lambda>(u, d'). Inr (puts ''OK'' d'))"

definition cmd_set_cold_limit :: "string \<Rightarrow> daemon \<Rightarrow> daemon result" where
  "cmd_set_cold_limit arg d =
     bindR (with_sessions (\<lambda>s w. bindR (setColdLimit (strtoul arg) s w) (\<lambda>(s', w'). Inr ((), s', w'))) d)
       (\<lambda>(u, d'). Inr (puts ''OK'' d'))"

definition cmd_infer :: "llama_env \<Rightarrow> string \<Rightarrow> string \<Rightarrow> daemon \<Rightarrow> (string \<times> daemon) result" where
  "cmd_infer e arg s d =
     (let (sessionId, maxTokens) = infer_args arg;
          (text, r) = read_prompt [] s;
          prompt = chomp text in
      if \<not> engine_isReady (d_engine d) then Inr (r, puts ''ERROR engine not ready'' d)
      else
        bindR (infer e sessionId prompt maxTokens False token_line (d_engine d) (d_hist d) (d_out d))
          (\<lambda>(ok, g', w', out').
             Inr (r, puts (if ok then ''DONE'' else ''ERROR SESSION_NOT_FOUND'')
                      (d\<lparr>d_engine := g', d_hist := w', d_out := out'\<rparr>))))"

definition cmd_npu_load :: "llama_env \<Rightarrow> string \<Rightarrow> daemon \<Rightarrow> daemon" where
  "cmd_npu_load en arg d =
     (let (modelPath, backendDir, nCtx, nThreads) = npu_load_args arg;
          (ok, g', w') = npu_load en modelPath backendDir nCtx nThreads (d_npu d) (d_npuHist d)
      in puts (if ok then ''OK'' else ''ERROR NPU_LOAD_FAILED'') (d\<lparr>d_npu := g', d_npuHist := w'\<rparr>))"

definition cmd_npu_infer :: "llama_env \<Rightarrow> string \<Rightarrow> string \<Rightarrow> daemon \<Rightarrow> (string \<times> daemon) result" where
  "cmd_npu_infer en arg s d =
     (let maxTokens = atoi arg;
          (text, r) = read_prompt [] s;
          prompt = chomp text in
      if \<not> npu_isReady (d_npu d) then Inr (r, puts ''ERROR NPU_NOT_READY'' d)
      else
        bindR (npu_infer en prompt maxTokens token_line (d_npu d) (d_npuHist d) (d_out d))
          (\<lambda>(ok, w', out').
             Inr (r, puts (if ok then ''DONE'' else ''ERROR NPU_INFER_FAILED'')
                      (d\<lparr>d_npuHist := w', d_out := out'\<rparr>))))"

definition handle_command ::
    "llama_env \<Rightarrow> llama_env \<Rightarrow> string \<Rightarrow> string \<Rightarrow> daemon \<Rightarrow> (string \<times> daemon) result" where
  \<comment> \<open>the body of the loop; a line that is no command is skipped without a reply\<close>
  "handle_command e en cmd s d =
     (if starts_with ''CREATE_SESSION '' cmd then
        bindR (cmd_create_session e (drop 15 cmd) d) (\<lambda>d'. Inr (s, d'))
      else if starts_with ''KILL_SESSION '' cmd then
        bindR (cmd_kill_session (drop 13 cmd) d) (\<lambda>d'. Inr (s, d'))
      else if starts_with ''SET_HOT_LIMIT '' cmd then
        bindR (cmd_set_hot_limit e (drop 14 cmd) d) (\<lambda>d'. Inr (s, d'))
      else if starts_with ''SET_COLD_LIMIT '' cmd then
        bindR (cmd_set_cold_limit (drop 15 cmd) d) (\<lambda>d'. Inr (s, d'))
      else if starts_with ''INFER '' cmd then cmd_infer e (drop 6 cmd) s d
      else if starts_with ''NPU_LOAD '' cmd then Inr (s, cmd_npu_load en (drop 9 cmd) d)
      else if starts_with ''NPU_INFER '' cmd then cmd_npu_infer en (drop 10 cmd) s d
      else if starts_with ''HELLO'' cmd then Inr (s, puts ''HELLO from miniv_ai'' d)
      else Inr (s, d))"

lemma handle_command_shorter:
  assumes "handle_command e en cmd s d = Inr (r, d')" shows "length r \<le> length s"
  using assms read_prompt_shorter [of "[]" s]
  by (auto simp: handle_command_def cmd_infer_def cmd_npu_infer_def Let_def bindR_Inr_iff
      split: if_splits prod.splits)

subsection \<open>A connection\<close>

function client_loop :: "llama_env \<Rightarrow> llama_env \<Rightarrow> string \<Rightarrow> daemon \<Rightarrow> daemon result" where
  "client_loop e en s d =
     (case fgets 4096 s of
        None \<Rightarrow> Inr d
      | Some (line, r) \<Rightarrow>
          bindR (handle_command e en (c_str line) r d) (\<lambda>(r', d'). client_loop e en r' d'))"
  by pat_completeness auto
termination
proof (relation "measure (\<lambda>(e, en, s, d). length s)", goal_cases)
  case (2 e en s d lr l r p r' d')
  then show ?case
    using fgets_shorter [of 4096 s l r] handle_command_shorter [of e en "c_str l" r d r' d'] by auto
qed simp

declare client_loop.simps [simp del]

definition HandleClient ::
    "llama_env \<Rightarrow> llama_env \<Rightarrow> int \<Rightarrow> bool \<Rightarrow> int \<Rightarrow> bool \<Rightarrow> string \<Rightarrow> daemon \<Rightarrow> (int list \<times> daemon) result" where
  \<comment> \<open>\<open>rf_ok\<close>, \<open>wf_ok\<close>: the \<open>fdopen\<close> succeeds; \<open>dupFd\<close>: what \<open>dup\<close> returned.  The descriptors closed.\<close>
  "HandleClient e en clientFd rf_ok dupFd wf_ok input d =
     (if \<not> rf_ok then Inr ([clientFd], d)
      else if dupFd < 0 then Inr ([clientFd], d)
      else if \<not> wf_ok then Inr ([dupFd, clientFd], d)
      else bindR (client_loop e en input d) (\<lambda>d'. Inr ([dupFd, clientFd], d')))"

subsection \<open>The process\<close>

datatype daemon_event =
    Signal int \<comment> \<open>\<open>SignalHandler\<close> runs while \<open>accept\<close> waits\<close>
  | AcceptFailed int \<comment> \<open>\<open>accept\<close> returns an error\<close>
  | Client int bool int bool string bool
    \<comment> \<open>\<open>accept\<close> returns a descriptor; the conditions of \<open>HandleClient\<close>; a signal arrives meanwhile\<close>

definition SignalHandler :: "int \<Rightarrow> bool \<Rightarrow> bool" where
  \<comment> \<open>the value of \<open>g_running\<close> after the handler\<close>
  "SignalHandler signum running = False"

declare SignalHandler_def [simp]

fun accept_loop ::
    "llama_env \<Rightarrow> llama_env \<Rightarrow> bool \<Rightarrow> daemon_event list \<Rightarrow> daemon \<Rightarrow> (int option \<times> daemon) result" where
  \<comment> \<open>in a call of \<open>accept\<close>, with the value of \<open>g_running\<close>; the exit status, \<open>None\<close> while it waits\<close>
  "accept_loop e en running [] d = Inr (None, d)"
| "accept_loop e en running (Signal n # evs) d = accept_loop e en (SignalHandler n running) evs d"
| "accept_loop e en running (AcceptFailed err # evs) d =
     (if running then accept_loop e en running evs d else Inr (Some 0, d))"
| "accept_loop e en running (Client fd rf_ok dupFd wf_ok input sig # evs) d =
     bindR (HandleClient e en fd rf_ok dupFd wf_ok input d) (\<lambda>(fds, d').
       if running \<and> \<not> sig then accept_loop e en True evs d' else Inr (Some 0, d'))"

definition daemon_start :: "ctx_params \<Rightarrow> daemon" where
  "daemon_start zero =
     \<lparr>d_engine = LLMEngine zero, d_hist = [], d_npu = NpuLLMEngine, d_npuHist = [], d_out = []\<rparr>"

definition daemon_main ::
    "llama_env \<Rightarrow> llama_env \<Rightarrow> bool \<Rightarrow> int \<Rightarrow> int \<Rightarrow> daemon_event list \<Rightarrow> daemon \<Rightarrow> (int option \<times> daemon) result" where
  \<comment> \<open>\<open>SKIP_CPU_ENGINE\<close> is set; the control socket; what \<open>listen\<close> returned.  A failed registration of
    the service is only logged.\<close>
  "daemon_main e en skipCpuEngineForTest listen_fd listen_rc evs d =
     bindR (if skipCpuEngineForTest then Inr (True, d_engine d, d_hist d)
            else load e [] ''/data/local/tmp/model.gguf'' 2048 4 (d_engine d) (d_hist d))
       (\<lambda>(ok, g, w).
          let d1 = d\<lparr>d_engine := g, d_hist := w\<rparr> in
          if \<not> ok then Inr (Some 1, d1)
          else if listen_fd < 0 then Inr (Some 1, d1)
          else if listen_rc < 0 then Inr (Some 1, d1)
          else accept_loop e en True evs d1)"

end
