(* ===== verification/Daemon_Inv.thy ===== *)
theory Daemon_Inv
  imports Daemon
begin

text \<open>
  What every command of the line protocol keeps: both engines stay consistent, the readiness of the
  CPU engine does not change, and what is written is a sequence of reply lines.
\<close>

subsection \<open>Reply lines\<close>

fun unlines :: "string list \<Rightarrow> string" where
  "unlines [] = []"
| "unlines (l # ls) = l @ newline # unlines ls"

lemma unlines_append [simp]: "unlines (ls @ ms) = unlines ls @ unlines ms"
  by (induction ls) auto

definition reply_line :: "string \<Rightarrow> bool" where
  "reply_line l \<longleftrightarrow> newline \<notin> set l \<and>
     (l \<in> {''OK'', ''DONE'', ''HELLO from miniv_ai''} \<or> starts_with ''ERROR '' l \<or>
      (\<exists>t. l = ''TOKEN '' @ base64Encode t))"

lemma c_str_base64 [simp]: "c_str (base64Encode t) = base64Encode t"
  using b64.enc_safe [of t] by (intro c_str_id) auto

lemma token_line_alt: "token_line t out = out @ unlines [''TOKEN '' @ base64Encode t]"
  by (simp add: token_line_def)

lemma reply_line_token: "reply_line (''TOKEN '' @ base64Encode t)"
  using b64.enc_safe [of t] by (auto simp: reply_line_def)

definition token_lines :: "llama_env \<Rightarrow> nat \<Rightarrow> llama_token list \<Rightarrow> string list" where
  "token_lines e m toks = map (\<lambda>t. ''TOKEN '' @ base64Encode (piece_text e m t)) toks"

lemma emit_token_line: "emit e m token_line toks out = out @ unlines (token_lines e m toks)"
  by (induction toks arbitrary: out) (simp_all add: emit_def token_lines_def token_line_alt)

definition says :: "daemon \<Rightarrow> string list \<Rightarrow> daemon \<Rightarrow> bool" where
  "says d ls d' \<longleftrightarrow> d_out d' = d_out d @ unlines ls \<and> list_all reply_line ls"

lemma says_refl [simp]: "says d [] d"
  by (simp add: says_def)

lemma says_trans: "says d ls d' \<Longrightarrow> says d' ms d'' \<Longrightarrow> says d (ls @ ms) d''"
  by (simp add: says_def)

lemma reply_texts [simp]:
  "reply_line ''OK''" "reply_line ''DONE''" "reply_line ''HELLO from miniv_ai''"
  "reply_line ''ERROR engine not ready''" "reply_line ''ERROR ALREADY_EXISTS''"
  "reply_line ''ERROR NOT_FOUND''" "reply_line ''ERROR SESSION_NOT_FOUND''"
  "reply_line ''ERROR NPU_LOAD_FAILED''" "reply_line ''ERROR NPU_NOT_READY''"
  "reply_line ''ERROR NPU_INFER_FAILED''"
  by (simp_all add: reply_line_def)

lemma reply_token_lines [simp]: "list_all reply_line (token_lines e m toks)"
  by (simp add: token_lines_def list_all_iff reply_line_token [simplified])

subsection \<open>The NPU engine\<close>

definition npu_live :: "npu_engine \<Rightarrow> history \<Rightarrow> bool" where
  "npu_live g w \<longleftrightarrow> ctx_safe w \<and> (\<forall>c. ne_ctx g = Some c \<longrightarrow> c \<in> live w)"

lemma npu_load_live:
  assumes "npu_live g w" "npu_load e p b c t g w = (ok, g', w')" shows "npu_live g' w'"
  using assms
  by (auto simp: npu_load_def npu_live_def warm_up_def Let_def split: option.splits)

lemma npu_infer_live:
  assumes "npu_live g w" "ne_model g \<noteq> None" "npu_infer e prompt n f g w out = Inr (ok, w', out')"
  shows "npu_live g w'"
proof (cases "ne_ctx g")
  case None
  then show ?thesis using assms by (simp add: npu_infer_def)
next
  case (Some c)
  obtain m where "ne_model g = Some m" using assms(2) by blast
  from npu_infer_spec [OF Some this assms(3)] have "only_ctx c (KvClear c # w) w'" by blast
  from only_ctx_live [OF this] show ?thesis using assms(1) Some by (simp add: npu_live_def)
qed

lemma npu_infer_tokens:
  assumes "npu_infer e prompt n token_line g w out = Inr (ok, w', out')" "ne_model g = Some m"
  shows "\<exists>toks. out' = out @ unlines (token_lines e m toks) \<and> length toks \<le> nat n \<and> (\<not> ok \<longrightarrow> toks = [])"
proof (cases "ne_ctx g")
  case None
  then show ?thesis using assms by (intro exI [of _ "[]"]) (simp add: npu_infer_def token_lines_def)
next
  case (Some c)
  from npu_infer_spec [OF Some assms(2,1)] show ?thesis by (auto simp: emit_token_line)
qed

subsection \<open>The CPU engine\<close>

lemma infer_tokens:
  assumes "infer e i prompt n flag token_line g w out = Inr (ok, g', w', out')" "le_model g = Some m"
  shows "\<exists>toks. out' = out @ unlines (token_lines e m toks) \<and> length toks \<le> nat n \<and> (\<not> ok \<longrightarrow> toks = [])"
proof -
  from assms obtain s s' where
    x: "infer_on (activateForInfer e) (recordTokens e) e m i prompt n flag token_line s w out = Inr (ok, s', w', out')"
    by (auto simp: infer_def bindR_Inr_iff split: option.splits)
  then obtain r s1 w1 where
    rest: "(case r of None \<Rightarrow> Inr (False, s1, w1, out)
       | Some c \<Rightarrow>
           if n < 0 then Inl LengthError
           else
             bindR (infer_loop e m c flag token_line (nat n) ([], w1, out)) (\<lambda>(gen, w2, out').
             bindR (recordTokens e i gen s1 w2) (\<lambda>(s2, w3). Inr (True, s2, w3, out')))) = Inr (ok, s', w', out')"
    by (auto simp: infer_on_def bindR_Inr_iff simp del: bindR_simps split: prod.splits)
  show ?thesis
  proof (cases r)
    case None
    then show ?thesis using rest by (intro exI [of _ "[]"]) (simp add: token_lines_def)
  next
    case (Some c)
    then obtain gen w2 where "infer_loop e m c flag token_line (nat n) ([], w1, out) = Inr (gen, w2, out')" "ok"
      using rest by (auto simp: bindR_Inr_iff split: if_splits)
    from infer_loop_output [OF this(1)] show ?thesis using \<open>ok\<close> by (auto simp: emit_token_line)
  qed
qed

lemma with_sessions_keeps:
  assumes "fresh_init e" "engine_ok e (d_engine d) (d_hist d)" and r: "with_sessions call d = Inr (a, d')"
    and c: "\<And>s w a s' w'. call s w = Inr (a, s', w') \<Longrightarrow> sm_exec e c (s, w) = Inr (s', w')"
  shows "engine_ok e (d_engine d') (d_hist d')" "engine_isReady (d_engine d') = engine_isReady (d_engine d)"
    "d_npu d' = d_npu d" "d_npuHist d' = d_npuHist d" "d_out d' = d_out d"
proof -
  from r obtain s s' w' where s: "le_sessions (d_engine d) = Some s" "call s (d_hist d) = Inr (a, s', w')"
    and d': "d' = d\<lparr>d_engine := (d_engine d)\<lparr>le_sessions := Some s'\<rparr>, d_hist := w'\<rparr>"
    by (auto simp: with_sessions_def bindR_Inr_iff split: option.splits)
  have "sm_ok (s, d_hist d)" using assms(2) s(1) by (simp add: engine_ok_def sm_good_def sm_ok_def)
  from sm.keeps [OF this assms(1) c [OF s(2)]] show "engine_ok e (d_engine d') (d_hist d')"
    using assms(1,2) s(1) by (simp add: d' engine_ok_def sm_good_def sm_ok_def)
qed (use r in \<open>auto simp: with_sessions_def bindR_Inr_iff engine_isReady_def split: option.splits\<close>)

lemma with_sessions_fault:
  assumes "engine_ok e (d_engine d) (d_hist d)" and r: "with_sessions call d = Inl f"
    and c: "\<And>s w f. call s w = Inl f \<Longrightarrow> sm_exec e c (s, w) = Inl f" and "\<And>i. c \<noteq> Activate i"
  shows "f = NullDereference \<and> \<not> engine_isReady (d_engine d)"
proof (cases "le_sessions (d_engine d)")
  case None
  then show ?thesis using r assms(1) by (simp add: with_sessions_def engine_ok_def engine_isReady_def)
next
  case (Some s)
  then have "call s (d_hist d) = Inl f" using r by (auto simp: with_sessions_def bindR_Inl_iff)
  moreover have "sm_inv s" using assms(1) Some by (simp add: engine_ok_def sm_good_def)
  ultimately show ?thesis using sm_exec_fault c assms(4) by blast
qed

end
