(* ===== verification/Daemon_Client.thy ===== *)
theory Daemon_Client
  imports Daemon_Inv
begin

text \<open>
  The loop of \<open>HandleClient\<close> as a machine: a whole connection keeps the invariant of the daemon, faults
  in known ways only, and writes reply lines.
\<close>

definition daemon_ok :: "llama_env \<Rightarrow> daemon \<Rightarrow> bool" where
  "daemon_ok e d \<longleftrightarrow> engine_ok e (d_engine d) (d_hist d) \<and> npu_live (d_npu d) (d_npuHist d)"

definition d_ready :: "daemon \<Rightarrow> bool" where
  "d_ready d \<longleftrightarrow> engine_isReady (d_engine d)"

definition serves :: "llama_env \<Rightarrow> daemon \<Rightarrow> daemon \<Rightarrow> bool" where
  "serves e d d' \<longleftrightarrow> daemon_ok e d' \<and> d_ready d' = d_ready d \<and> (\<exists>ls. says d ls d')"

lemma serves_trans: "serves e d d' \<Longrightarrow> serves e d' d'' \<Longrightarrow> serves e d d''"
  by (auto simp: serves_def intro: says_trans)

lemma serves_puts:
  assumes "daemon_ok e d" "reply_line l" shows "serves e d (puts l d)"
proof -
  have "says d [l] (puts l d)" using assms(2) by (simp add: says_def puts_def)
  then show ?thesis using assms(1) by (auto simp: serves_def daemon_ok_def d_ready_def puts_def)
qed

lemma serves_refl: "daemon_ok e d \<Longrightarrow> serves e d d"
  unfolding serves_def using says_refl by blast

subsection \<open>Commands\<close>

lemma sessions_serve:
  assumes "fresh_init e" "daemon_ok e d" "with_sessions call d = Inr (a, d')" "reply_line l"
    and "\<And>s w a s' w'. call s w = Inr (a, s', w') \<Longrightarrow> sm_exec e c (s, w) = Inr (s', w')"
  shows "serves e d (puts l d')"
proof -
  note k = with_sessions_keeps [OF assms(1) _ assms(3), of c]
  have e: "engine_ok e (d_engine d) (d_hist d)" using assms(2) by (simp add: daemon_ok_def)
  have "serves e d d'"
    using k [OF e assms(5)] assms(2) says_refl [of d]
    by (auto simp: serves_def daemon_ok_def d_ready_def says_def intro!: exI [of _ "[]"])
  moreover from this have "daemon_ok e d'" by (simp add: serves_def)
  ultimately show ?thesis using serves_puts [OF _ assms(4)] serves_trans by blast
qed

lemma create_serves:
  assumes "fresh_init e" "daemon_ok e d" "cmd_create_session e arg d = Inr d'" shows "serves e d d'"
  using assms serves_puts [OF assms(2)]
  by (auto simp: cmd_create_session_def Let_def bindR_Inr_iff split: if_splits
      intro: sessions_serve [where c = "Create (atoi arg)"])

lemma kill_serves:
  assumes "fresh_init e" "daemon_ok e d" "cmd_kill_session arg d = Inr d'" shows "serves e d d'"
  using assms
  by (auto simp: cmd_kill_session_def bindR_Inr_iff split: if_splits
      intro: sessions_serve [where c = "Kill (atoi arg)"])

lemma hot_limit_serves:
  assumes "fresh_init e" "daemon_ok e d" "cmd_set_hot_limit e arg d = Inr d'" shows "serves e d d'"
  using assms
  by (auto simp: cmd_set_hot_limit_def bindR_Inr_iff intro: sessions_serve [where c = "SetHotLimit (strtoul arg)"])

lemma cold_limit_serves:
  assumes "fresh_init e" "daemon_ok e d" "cmd_set_cold_limit arg d = Inr d'" shows "serves e d d'"
  using assms
  by (auto simp: cmd_set_cold_limit_def bindR_Inr_iff intro: sessions_serve [where c = "SetColdLimit (strtoul arg)"])

lemma infer_serves:
  assumes "daemon_ok e d" "cmd_infer e arg s d = Inr (r, d')" shows "serves e d d'"
proof (cases "engine_isReady (d_engine d)")
  case False
  then show ?thesis
    using assms serves_puts [OF assms(1)] by (auto simp: cmd_infer_def split: prod.splits)
next
  case True
  then obtain m where m: "le_model (d_engine d) = Some m" by (auto simp: engine_isReady_def)
  from True assms(2) obtain i n prompt ok g' w' out' where
    x: "infer e i prompt n False token_line (d_engine d) (d_hist d) (d_out d) = Inr (ok, g', w', out')"
    and d': "d' = puts (if ok then ''DONE'' else ''ERROR SESSION_NOT_FOUND'')
        (d\<lparr>d_engine := g', d_hist := w', d_out := out'\<rparr>)"
    by (auto simp: cmd_infer_def bindR_Inr_iff split: prod.splits)
  obtain toks where "out' = d_out d @ unlines (token_lines e m toks)" using infer_tokens [OF x m] by blast
  then have "says d (token_lines e m toks) (d\<lparr>d_engine := g', d_hist := w', d_out := out'\<rparr>)"
    by (simp add: says_def)
  moreover have ok: "daemon_ok e (d\<lparr>d_engine := g', d_hist := w', d_out := out'\<rparr>)"
    and "engine_isReady g' = engine_isReady (d_engine d)"
    using infer_ok [OF _ x] assms(1) by (simp_all add: daemon_ok_def)
  ultimately have "serves e d (d\<lparr>d_engine := g', d_hist := w', d_out := out'\<rparr>)"
    by (auto simp: serves_def d_ready_def)
  then show ?thesis
    unfolding d' using serves_puts [OF ok] by (auto intro: serves_trans)
qed

lemma npu_infer_serves:
  assumes "daemon_ok e d" "cmd_npu_infer en arg s d = Inr (r, d')" shows "serves e d d'"
proof (cases "npu_isReady (d_npu d)")
  case False
  then show ?thesis
    using assms serves_puts [OF assms(1)] by (auto simp: cmd_npu_infer_def split: prod.splits)
next
  case True
  then obtain m where m: "ne_model (d_npu d) = Some m" by (auto simp: npu_isReady_def)
  from True assms(2) obtain n prompt ok w' out' where
    x: "npu_infer en prompt n token_line (d_npu d) (d_npuHist d) (d_out d) = Inr (ok, w', out')"
    and d': "d' = puts (if ok then ''DONE'' else ''ERROR NPU_INFER_FAILED'') (d\<lparr>d_npuHist := w', d_out := out'\<rparr>)"
    by (auto simp: cmd_npu_infer_def bindR_Inr_iff split: prod.splits)
  obtain toks where "out' = d_out d @ unlines (token_lines en m toks)" using npu_infer_tokens [OF x m] by blast
  then have "says d (token_lines en m toks) (d\<lparr>d_npuHist := w', d_out := out'\<rparr>)"
    by (simp add: says_def)
  moreover have ok: "daemon_ok e (d\<lparr>d_npuHist := w', d_out := out'\<rparr>)"
    using npu_infer_live [OF _ _ x] assms(1) m by (simp add: daemon_ok_def)
  ultimately have "serves e d (d\<lparr>d_npuHist := w', d_out := out'\<rparr>)"
    by (auto simp: serves_def d_ready_def)
  then show ?thesis unfolding d' using serves_puts [OF ok] by (auto intro: serves_trans)
qed

lemma npu_load_serves:
  assumes "daemon_ok e d" shows "serves e d (cmd_npu_load en arg d)"
proof -
  obtain p b c t where a: "npu_load_args arg = (p, b, c, t)" by (cases "npu_load_args arg")
  obtain ok g' w' where x: "npu_load en p b c t (d_npu d) (d_npuHist d) = (ok, g', w')"
    by (cases "npu_load en p b c t (d_npu d) (d_npuHist d)")
  have d': "cmd_npu_load en arg d = puts (if ok then ''OK'' else ''ERROR NPU_LOAD_FAILED'')
      (d\<lparr>d_npu := g', d_npuHist := w'\<rparr>)"
    unfolding cmd_npu_load_def Let_def a using x by simp
  have ok: "daemon_ok e (d\<lparr>d_npu := g', d_npuHist := w'\<rparr>)"
    using npu_load_live [OF _ x] assms by (simp add: daemon_ok_def)
  then have "serves e d (d\<lparr>d_npu := g', d_npuHist := w'\<rparr>)"
    by (auto simp: serves_def d_ready_def says_def intro!: exI [of _ "[]"])
  then show ?thesis unfolding d' using serves_puts [OF ok] by (auto intro: serves_trans)
qed

lemmas command_serves = create_serves kill_serves hot_limit_serves cold_limit_serves
  infer_serves npu_infer_serves npu_load_serves serves_puts serves_refl

lemma handle_command_serves:
  assumes "fresh_init e" "daemon_ok e d" "handle_command e en cmd s d = Inr (r, d')"
  shows "serves e d d'"
  using assms by (auto simp: handle_command_def bindR_Inr_iff intro: command_serves split: if_splits)

definition client_fault :: "llama_env \<Rightarrow> llama_env \<Rightarrow> bool \<Rightarrow> fault \<Rightarrow> bool" where
  \<comment> \<open>the faults a command can end in, on an engine that is ready or not\<close>
  "client_fault e en ready f \<longleftrightarrow>
     (if ready then f = DanglingReference \<or> f = LengthError
      else f = NullDereference \<or> f = LengthError \<and> \<not> piece_fits en)"

lemma infer_command_fault:
  assumes "daemon_ok e d" "cmd_infer e arg s d = Inl f"
  shows "client_fault e en (d_ready d) f"
proof -
  have r: "engine_isReady (d_engine d)" using assms(2) by (auto simp: cmd_infer_def split: prod.splits if_splits)
  then obtain i n prompt where
    x: "infer e i prompt n False token_line (d_engine d) (d_hist d) (d_out d) = Inl f"
    using assms(2) by (auto simp: cmd_infer_def bindR_Inl_iff split: prod.splits)
  obtain t m where s: "le_sessions (d_engine d) = Some t" "le_model (d_engine d) = Some m" "sm_good e t (d_hist d)"
    using engine_ready_sessions [OF _ r] assms(1) unfolding daemon_ok_def by blast
  then have "infer_on (activateForInfer e) (recordTokens e) e m i prompt n False token_line t (d_hist d) (d_out d) = Inl f"
    using x by (auto simp: infer_def bindR_Inl_iff)
  from smp.infer_on_fault [OF s(3) this] show ?thesis using r by (auto simp: client_fault_def d_ready_def)
qed

lemma npu_infer_command_fault:
  assumes "cmd_npu_infer en arg s d = Inl f" shows "f = LengthError \<and> \<not> piece_fits en"
  using assms
  by (auto simp: cmd_npu_infer_def npu_isReady_def bindR_Inl_iff dest!: npu_infer_fault split: prod.splits if_splits)

lemma session_command_fault:
  assumes "daemon_ok e d" "with_sessions call d = Inl f"
    and "\<And>s w f. call s w = Inl f \<Longrightarrow> sm_exec e c (s, w) = Inl f" "\<And>i. c \<noteq> Activate i"
  shows "client_fault e en (d_ready d) f"
  using with_sessions_fault [OF _ assms(2-4)] assms(1) by (simp add: daemon_ok_def client_fault_def d_ready_def)

lemma handle_command_fault:
  assumes "daemon_ok e d" "handle_command e en cmd s d = Inl f"
  shows "client_fault e en (d_ready d) f"
proof -
  have kill: "client_fault e en (d_ready d) f" if "cmd_kill_session arg d = Inl f" for arg
    using that assms(1)
    by (auto simp: cmd_kill_session_def bindR_Inl_iff intro: session_command_fault [where c = "Kill (atoi arg)"])
  have hot: "client_fault e en (d_ready d) f" if "cmd_set_hot_limit e arg d = Inl f" for arg
    using that assms(1)
    by (auto simp: cmd_set_hot_limit_def bindR_Inl_iff intro: session_command_fault [where c = "SetHotLimit (strtoul arg)"])
  have cold: "client_fault e en (d_ready d) f" if "cmd_set_cold_limit arg d = Inl f" for arg
    using that assms(1)
    by (auto simp: cmd_set_cold_limit_def bindR_Inl_iff intro: session_command_fault [where c = "SetColdLimit (strtoul arg)"])
  have create: "client_fault e en (d_ready d) f" if "cmd_create_session e arg d = Inl f" for arg
    using that assms(1)
    by (auto simp: cmd_create_session_def Let_def bindR_Inl_iff split: if_splits
        intro: session_command_fault [where c = "Create (atoi arg)"])
  have npu: "client_fault e en (d_ready d) f" if "cmd_npu_infer en arg s d = Inl f" for arg
    using npu_infer_command_fault [OF that] by (simp add: client_fault_def)
  show ?thesis
    using assms(2) kill hot cold create npu infer_command_fault [OF assms(1)]
    by (auto simp: handle_command_def bindR_Inl_iff split: if_splits)
qed

subsection \<open>Connections\<close>

lemma client_loop_serves:
  assumes "fresh_init e" "daemon_ok e d" "client_loop e en s d = Inr d'" shows "serves e d d'"
  using assms
proof (induction e en s d rule: client_loop.induct)
  case (1 e en s d)
  note x = "1.prems"(3) [unfolded client_loop.simps [of e en s d]]
  show ?case
  proof (cases "fgets 4096 s")
    case None
    then show ?thesis using x serves_refl [OF "1.prems"(2)] by simp
  next
    case (Some lr)
    obtain l r where lr: "lr = (l, r)" by (cases lr)
    with x Some obtain r' d1 where c: "handle_command e en (c_str l) r d = Inr (r', d1)"
      and rest: "client_loop e en r' d1 = Inr d'" by (auto simp: bindR_Inr_iff)
    note step = handle_command_serves [OF "1.prems"(1,2) c]
    then have "serves e d1 d'"
      using "1.IH" [OF Some lr [symmetric] c refl "1.prems"(1) _ rest] by (simp add: serves_def)
    then show ?thesis using step by (rule serves_trans [rotated])
  qed
qed

lemma client_loop_fault:
  assumes "fresh_init e" "daemon_ok e d" "client_loop e en s d = Inl f"
  shows "client_fault e en (d_ready d) f"
  using assms
proof (induction e en s d rule: client_loop.induct)
  case (1 e en s d)
  note x = "1.prems"(3) [unfolded client_loop.simps [of e en s d]]
  obtain lr where l: "fgets 4096 s = Some lr" using x by (cases "fgets 4096 s") auto
  obtain l r where lr: "lr = (l, r)" by (cases lr)
  show ?case
  proof (cases "handle_command e en (c_str l) r d")
    case (Inl f')
    then show ?thesis using x l lr handle_command_fault [OF "1.prems"(2)] by simp
  next
    case (Inr p)
    obtain r' d1 where p: "p = (r', d1)" by (cases p)
    note c = Inr [unfolded p]
    note step = handle_command_serves [OF "1.prems"(1,2) c]
    have "client_loop e en r' d1 = Inl f" using x l lr c by simp
    then show ?thesis
      using "1.IH" [OF l lr [symmetric] c refl "1.prems"(1)] step by (simp add: serves_def)
  qed
qed

interpretation clients: machine "client_loop e en" "\<lambda>d. fresh_init e \<and> daemon_ok e d \<and> d_ready d = b"
    "\<lambda>_. True" "client_fault e en b" for e en b
proof unfold_locales
  show "fresh_init e \<and> daemon_ok e d' \<and> d_ready d' = b"
    if "fresh_init e \<and> daemon_ok e d \<and> d_ready d = b" "client_loop e en s d = Inr d'" for s d d'
    using that client_loop_serves [of e d en s d'] by (simp add: serves_def)
  show "client_fault e en b f"
    if "fresh_init e \<and> daemon_ok e d \<and> d_ready d = b" "client_loop e en s d = Inl f" for s d f
    using that client_loop_fault [of e d en s f] by simp
qed

end
