(* ===== verification/Daemon_Props.thy ===== *)
theory Daemon_Props
  imports Daemon_Client LLM_Props
begin

text \<open>The properties of the daemon's process and of one connection.\<close>

definition serving :: "llm_engine \<Rightarrow> history \<Rightarrow> daemon" where
  \<comment> \<open>a daemon with this CPU engine, and no NPU model\<close>
  "serving g w = \<lparr>d_engine = g, d_hist = w, d_npu = NpuLLMEngine, d_npuHist = [], d_out = []\<rparr>"

lemma serving_ok: "engine_ok e g w \<Longrightarrow> daemon_ok e (serving g w)"
  by (simp add: daemon_ok_def serving_def npu_live_def NpuLLMEngine_def)

text \<open>
  C17: Serving a connection keeps both engines consistent and leaves the readiness of the CPU engine
  as it was; what is written is a sequence of whole lines, each \<open>OK\<close>, \<open>DONE\<close>, the greeting, an \<open>ERROR\<close>
  line, or a token line whose payload is base64 of some text.
\<close>

theorem connection_writes_reply_lines:
  assumes "fresh_init e" "daemon_ok e d" "client_loop e en s d = Inr d'"
  shows "daemon_ok e d' \<and> d_ready d' = d_ready d \<and>
    (\<exists>ls. d_out d' = d_out d @ unlines ls \<and> list_all reply_line ls)"
  using client_loop_serves [OF assms] by (auto simp: serves_def says_def)

definition demo_input :: string where
  "demo_input = ''HELLO'' @ [newline] @ ''KILL_SESSION 2'' @ [newline] @ ''BYE'' @ [newline] @
     ''INFER 1 2'' @ [newline] @ ''hi'' @ [newline] @ ''END'' @ [newline] @ ''NPU_INFER 1'' @ [newline]"

theorem connection_writes_reply_lines_witness:
  "\<exists>g w d' ls. demo_engine = Inr (g, w) \<and> client_loop (demo_env 60) (demo_env 60) demo_input (serving g w) = Inr d' \<and>
     d_out d' = unlines ls \<and> list_all reply_line ls \<and> d_out d' \<noteq> []"
proof -
  have "with_engine (\<lambda>g w. case client_loop (demo_env 60) (demo_env 60) demo_input (serving g w) of
      Inl f \<Rightarrow> False | Inr d' \<Rightarrow> length (d_out d') = 70)" by code_simp
  then obtain g w where d: "demo_engine = Inr (g, w)" "engine_ok (demo_env 60) g w"
    and o: "case client_loop (demo_env 60) (demo_env 60) demo_input (serving g w) of
      Inl f \<Rightarrow> False | Inr d' \<Rightarrow> length (d_out d') = 70" by (rule with_engineE) blast
  obtain d' where r: "client_loop (demo_env 60) (demo_env 60) demo_input (serving g w) = Inr d'"
    by (cases "client_loop (demo_env 60) (demo_env 60) demo_input (serving g w)") (use o in auto)
  have "d_out d' \<noteq> []" using o unfolding r by auto
  moreover have "d_out (serving g w) = []" by (simp add: serving_def)
  ultimately show ?thesis
    using d(1) r connection_writes_reply_lines [OF demo_fresh serving_ok [OF d(2)] r] by auto
qed

text \<open>
  C18: Whatever a client sends, the daemon can only end in these ways: with the CPU engine loaded, by
  the dangling reference of \<open>activateForInfer\<close> or a \<open>length_error\<close>; without it, by a null session manager
  (or a token of the NPU model that does not fit its buffer).
\<close>

theorem connection_faults:
  assumes "fresh_init e" "daemon_ok e d" "client_loop e en s d = Inl f"
  shows "if d_ready d then f = DanglingReference \<or> f = LengthError
    else f = NullDereference \<or> f = LengthError \<and> \<not> piece_fits en"
  using client_loop_fault [OF assms] by (simp add: client_fault_def)

theorem connection_faults_witness:
  "\<exists>g w. demo_engine = Inr (g, w) \<and>
     client_loop (demo_env 60) (demo_env 60) (''INFER 1 -1'' @ [newline] @ ''END'' @ [newline]) (serving g w) = Inl LengthError \<and>
     (if d_ready (serving g w) then LengthError = DanglingReference \<or> LengthError = LengthError
      else LengthError = NullDereference \<or> LengthError = LengthError \<and> \<not> piece_fits (demo_env 60))"
proof -
  let ?run = "\<lambda>g w. client_loop (demo_env 60) (demo_env 60) (''INFER 1 -1'' @ [newline] @ ''END'' @ [newline]) (serving g w)"
  have "with_engine (\<lambda>g w. fault_of (?run g w) = Some LengthError)" by code_simp
  then obtain g w where d: "demo_engine = Inr (g, w)" "engine_ok (demo_env 60) g w"
    and o: "fault_of (?run g w) = Some LengthError" by (rule with_engineE) blast
  then have r: "?run g w = Inl LengthError" by (simp only: fault_of_Some)
  show ?thesis using d(1) r connection_faults [OF demo_fresh serving_ok [OF d(2)] r] by blast
qed

text \<open>
  C40: The three commands that go to the session manager without asking whether the engine is ready
  end the daemon when it is not: the pointer is null.
\<close>

theorem unchecked_session_commands:
  assumes "le_sessions (d_engine d) = None"
    and "cmd \<in> {''KILL_SESSION '' @ arg, ''SET_HOT_LIMIT '' @ arg, ''SET_COLD_LIMIT '' @ arg}"
  shows "handle_command e en cmd s d = Inl NullDereference"
  using assms
  by (auto simp: handle_command_def cmd_kill_session_def cmd_set_hot_limit_def cmd_set_cold_limit_def
      with_sessions_def)

theorem unchecked_session_commands_witness:
  "handle_command (demo_env 60) (demo_env 60) (''KILL_SESSION '' @ ''1'') [] (daemon_start demo_ctx_params) = Inl NullDereference"
  by (rule unchecked_session_commands) (simp_all add: daemon_start_def LLMEngine_def)

text \<open>
  \<open>HandleClient\<close> closes every descriptor it owns once: the connection always, the duplicate exactly
  when it was made.
\<close>

theorem client_descriptors_closed:
  assumes "HandleClient e en fd rf_ok dupFd wf_ok s d = Inr (fds, d')"
  shows "set fds = {fd} \<union> (if rf_ok \<and> 0 \<le> dupFd then {dupFd} else {}) \<and> (fd \<noteq> dupFd \<longrightarrow> distinct fds)"
  using assms by (auto simp: HandleClient_def bindR_Inr_iff split: if_splits)

theorem client_descriptors_closed_witness:
  "HandleClient (demo_env 60) (demo_env 60) 7 True 8 False [] (daemon_start demo_ctx_params) =
     Inr ([8, 7], daemon_start demo_ctx_params) \<and> set [8, 7 :: int] = {7} \<union> {8}"
  using client_descriptors_closed [of "demo_env 60" "demo_env 60" 7 True 8 False "[]" "daemon_start demo_ctx_params"
    "[8, 7]" "daemon_start demo_ctx_params"] by (simp add: HandleClient_def)

subsection \<open>The process\<close>

lemma accept_errors: "accept_loop e en True (map AcceptFailed errs @ evs) d = accept_loop e en True evs d"
  by (induction errs) auto

lemma accept_stopping:
  "accept_loop e en False (map Signal ms @ evs) d = accept_loop e en False evs d"
  by (induction ms) auto

text \<open>
  A stop signal ends the process with status 0 at the next return of \<open>accept\<close>, and not before:
  signals alone, however many, leave it waiting.
\<close>

theorem stop_signal:
  "accept_loop e en True (map AcceptFailed errs @ Signal n # map Signal ms) d = Inr (None, d) \<and>
   accept_loop e en True (map AcceptFailed errs @ Signal n # map Signal ms @ AcceptFailed err # evs) d = Inr (Some 0, d)"
  using accept_stopping [of e en ms "[]" d] by (simp add: accept_errors accept_stopping)

fun stops :: "daemon_event \<Rightarrow> bool" where
  \<comment> \<open>the events in which a stop signal arrives\<close>
  "stops (Signal n) = True"
| "stops (AcceptFailed err) = False"
| "stops (Client fd rf_ok dupFd wf_ok input sig) = sig"

lemma HandleClient_result:
  assumes "fresh_init e" "daemon_ok e d"
  shows "case HandleClient e en fd rf_ok dupFd wf_ok s d of
      Inl f \<Rightarrow> client_fault e en (d_ready d) f
    | Inr (fds, d') \<Rightarrow> daemon_ok e d' \<and> d_ready d' = d_ready d"
  using client_loop_fault [OF assms, of en s] client_loop_serves [OF assms, of en s] assms(2)
  by (cases "client_loop e en s d") (auto simp: HandleClient_def serves_def)

lemma accept_loop_result:
  assumes "fresh_init e" "daemon_ok e d"
  shows "case accept_loop e en r evs d of
      Inl f \<Rightarrow> client_fault e en (d_ready d) f
    | Inr (st, d') \<Rightarrow> daemon_ok e d' \<and> (st = None \<or> st = Some 0 \<and> (\<not> r \<or> (\<exists>ev \<in> set evs. stops ev)))"
  using assms
proof (induction e en r evs d rule: accept_loop.induct)
  case (4 e en r fd rf_ok dupFd wf_ok input sig evs d)
  note H = HandleClient_result [OF 4(2,3), of en fd rf_ok dupFd wf_ok input]
  show ?case
  proof (cases "HandleClient e en fd rf_ok dupFd wf_ok input d")
    case (Inl f)
    then show ?thesis using H by simp
  next
    case (Inr p)
    obtain fds d' where p: "p = (fds, d')" by (cases p)
    have d': "daemon_ok e d'" "d_ready d' = d_ready d" using H Inr p by auto
    show ?thesis
    proof (cases "r \<and> \<not> sig")
      case True
      then show ?thesis
        using 4(1) [OF Inr p [symmetric] True 4(2) d'(1)] Inr p d'(2) by (auto split: sum.splits prod.splits)
    qed (use Inr p d' in auto)
  qed
qed (auto split: sum.splits prod.splits)

text \<open>
  C8: The whole process: \<open>main\<close> returns 1 exactly when the model cannot be loaded (and was to be), the
  control socket is missing, or \<open>listen\<close> fails; it returns 0 only after a stop signal; in every other
  case it is waiting for a client, or one of the listed faults has ended it.
\<close>

theorem process_outcome:
  assumes "fresh_init e"
  shows "case daemon_main e en skip listen_fd listen_rc evs (daemon_start zero) of
      Inl f \<Rightarrow> (if skip then f = NullDereference \<or> f = LengthError \<and> \<not> piece_fits en
        else f = DanglingReference \<or> f = LengthError)
    | Inr (st, d) \<Rightarrow> daemon_ok e d \<and> st \<in> {None, Some 0, Some 1} \<and>
        (st = Some 1 \<longleftrightarrow> listen_fd < 0 \<or> listen_rc < 0 \<or>
           \<not> skip \<and> env_model e [BackendInit] ''/data/local/tmp/model.gguf'' (env_model_params e) = None) \<and>
        (st = Some 0 \<longrightarrow> (\<exists>ev \<in> set evs. stops ev))"
proof -
  let ?start = "if skip then Inr (True, d_engine (daemon_start zero), d_hist (daemon_start zero))
    else load e [] ''/data/local/tmp/model.gguf'' 2048 4 (d_engine (daemon_start zero)) (d_hist (daemon_start zero))"
  have z: "le_model (LLMEngine zero) = None" "le_sessions (LLMEngine zero) = None" "live [] = {}" "ctx_safe []"
    by (simp_all add: LLMEngine_def)
  have "\<exists>ok g w. ?start = Inr (ok, g, w) \<and> engine_ok e g w \<and> (ok \<longrightarrow> engine_isReady g = (\<not> skip)) \<and>
    (ok \<longleftrightarrow> skip \<or> env_model e [BackendInit] ''/data/local/tmp/model.gguf'' (env_model_params e) \<noteq> None)"
  proof (cases skip)
    case True
    then show ?thesis
      by (intro exI [of _ True] exI [of _ "LLMEngine zero"] exI [of _ "[]"])
        (simp add: daemon_start_def engine_ok_def LLMEngine_def engine_isReady_def)
  next
    case False
    obtain ok g w where L: "load e [] ''/data/local/tmp/model.gguf'' 2048 4 (LLMEngine zero) [] = Inr (ok, g, w)"
      "engine_ok e g w" "engine_isReady g = ok"
      using load_spec [OF assms z, of "[]" "''/data/local/tmp/model.gguf''" 2048 4] by blast
    have "ok \<longleftrightarrow> env_model e [BackendInit] ''/data/local/tmp/model.gguf'' (env_model_params e) \<noteq> None"
      using L(1) by (auto simp: load_def Let_def bindR_Inr_iff split: option.splits)
    then show ?thesis using False L by (simp add: daemon_start_def)
  qed
  then obtain ok g w where S: "?start = Inr (ok, g, w)" "engine_ok e g w" "ok \<longrightarrow> engine_isReady g = (\<not> skip)"
    "ok \<longleftrightarrow> skip \<or> env_model e [BackendInit] ''/data/local/tmp/model.gguf'' (env_model_params e) \<noteq> None"
    by (elim exE conjE)
  let ?d = "daemon_start zero\<lparr>d_engine := g, d_hist := w\<rparr>"
  have d: "daemon_ok e ?d" "d_ready ?d = engine_isReady g"
    using S(2) by (simp_all add: daemon_ok_def d_ready_def daemon_start_def npu_live_def NpuLLMEngine_def)
  have main: "daemon_main e en skip listen_fd listen_rc evs (daemon_start zero) =
    (if \<not> ok \<or> listen_fd < 0 \<or> listen_rc < 0 then Inr (Some 1, ?d) else accept_loop e en True evs ?d)"
    unfolding daemon_main_def S(1) by (simp add: Let_def)
  show ?thesis
    unfolding main using accept_loop_result [OF assms d(1), of en True evs] d S(3,4)
    by (auto simp: client_fault_def split: sum.splits prod.splits if_splits)
qed

theorem process_outcome_witness:
  "case daemon_main (demo_env 60) (demo_env 60) True 3 0 [Client 7 True 8 True (''HELLO'' @ [newline]) True] (daemon_start demo_ctx_params) of
      Inl f \<Rightarrow> False | Inr (st, d) \<Rightarrow> daemon_ok (demo_env 60) d \<and> st = Some 0 \<and> d_out d = ''HELLO from miniv_ai'' @ [newline]"
proof -
  let ?evs = "[Client 7 True 8 True (''HELLO'' @ [newline]) True]"
  let ?r = "daemon_main (demo_env 60) (demo_env 60) True 3 0 ?evs (daemon_start demo_ctx_params)"
  have "case ?r of Inl f \<Rightarrow> False | Inr (st, d) \<Rightarrow> st = Some 0 \<and> d_out d = ''HELLO from miniv_ai'' @ [newline]"
    by code_simp
  moreover have "case ?r of Inl f \<Rightarrow> True | Inr (st, d) \<Rightarrow> daemon_ok (demo_env 60) d"
    using process_outcome [OF demo_fresh [of 60], where en = "demo_env 60" and skip = True and listen_fd = 3
      and listen_rc = 0 and evs = ?evs and zero = demo_ctx_params]
    by (cases ?r) auto
  ultimately show ?thesis by (cases ?r) auto
qed

end
