(* ===== verification/Cli.thy ===== *)
theory Cli
  imports C_Stdio Base64
begin

text \<open>
  \<open>cli/main.cpp\<close>, the command-line client of the daemon's socket: what it sends for each command, how
  it prints what comes back, and its exit status.  The socket is a parameter: the results of the
  system calls, and what the daemon sends in reply to the bytes it was sent.
\<close>

record peer =
  p_socket :: int \<comment> \<open>what \<open>socket\<close> returned\<close>
  p_connect :: int \<comment> \<open>what \<open>connect\<close> returned\<close>
  p_fdopen :: bool
  p_error :: string \<comment> \<open>\<open>strerror(errno)\<close>\<close>
  p_read :: "string \<Rightarrow> nat \<Rightarrow> int \<times> string" \<comment> \<open>\<open>read\<close>: the value returned and the bytes\<close>
  p_reply :: "string \<Rightarrow> string" \<comment> \<open>the stream read until the daemon closes it\<close>

record outcome =
  o_sent :: string
  o_stdout :: string
  o_stderr :: string
  o_status :: int

definition kSocketPath :: string where "kSocketPath = ''/dev/socket/miniv_ai''"
definition kReadBufSize :: nat where "kReadBufSize = 256"

definition Connect :: "peer \<Rightarrow> int \<times> string" where
  "Connect p =
     (if p_socket p < 0 then (- 1, ''socket: '' @ p_error p @ [newline])
      else if p_connect p < 0
      then (- 1, ''connect to '' @ kSocketPath @ '': '' @ p_error p @ [newline])
      else (p_socket p, []))"

definition ReadAndPrint :: "peer \<Rightarrow> string \<Rightarrow> int \<times> string \<times> string" where
  \<comment> \<open>after the bytes \<open>sent\<close>: the value returned, and what goes to the standard output and error\<close>
  "ReadAndPrint p sent =
     (let (n, buf) = p_read p sent (kReadBufSize - 1) in
      if n < 0 then (1, [], ''read: '' @ p_error p @ [newline])
      else if n = 0 then (1, [], ''peer closed connection without sending data'' @ [newline])
      else (0, c_str buf, []))"

definition SendAndReadLine :: "peer \<Rightarrow> string \<Rightarrow> outcome" where
  \<comment> \<open>a command with a one-line reply; the value of \<open>ReadAndPrint\<close> is dropped and the status is 0\<close>
  "SendAndReadLine p msg =
     (case ReadAndPrint p msg of (rc, out, err) \<Rightarrow>
        \<lparr>o_sent = msg, o_stdout = out, o_stderr = err, o_status = 0\<rparr>)"

subsection \<open>The response of an inference\<close>

definition response_line :: "string \<Rightarrow> string \<Rightarrow> (bool \<times> string) result" where
  \<comment> \<open>one line of the loop; \<open>False\<close> is a \<open>break\<close>.  \<open>line + 6\<close> must not be past the end of the string.\<close>
  "response_line line out =
     (if starts_with ''TOKEN '' line then Inr (True, out @ c_str (base64Decode (chomp (drop 6 line))))
      else if starts_with ''DONE'' line then Inr (False, out @ [newline] @ ''[DONE]'' @ [newline])
      else if starts_with ''ERROR'' line then
        (if length line < 6 then Inl OutOfRange
         else Inr (False, out @ [newline] @ ''[ERROR] '' @ drop 6 line))
      else Inr (True, out))"

function response_loop :: "string \<Rightarrow> string \<Rightarrow> string result" where
  "response_loop s out =
     (case fgets 4096 s of
        None \<Rightarrow> Inr out
      | Some (line, r) \<Rightarrow>
          bindR (response_line (c_str line) out)
            (\<lambda>(go, out'). if go then response_loop r out' else Inr out'))"
  by pat_completeness auto
termination
  by (relation "measure (\<lambda>(s, out). length s)") (auto intro: fgets_shorter [of 4096])

declare response_loop.simps [simp del]

definition print_response :: "peer \<Rightarrow> string \<Rightarrow> outcome result" where
  "print_response p msg =
     (if \<not> p_fdopen p then Inr \<lparr>o_sent = msg, o_stdout = [], o_stderr = [], o_status = 1\<rparr>
      else bindR (response_loop (p_reply p msg) [])
        (\<lambda>out. Inr \<lparr>o_sent = msg, o_stdout = out, o_stderr = [], o_status = 0\<rparr>))"

subsection \<open>Commands\<close>

definition infer_message :: "int \<Rightarrow> string \<Rightarrow> int \<Rightarrow> string" where
  "infer_message sessionId prompt maxTokens =
     ''INFER '' @ show_int sessionId @ '' '' @ show_int maxTokens @ [newline] @ c_str prompt @ [newline] @
     ''END'' @ [newline]"

definition npu_infer_message :: "string \<Rightarrow> int \<Rightarrow> string" where
  "npu_infer_message prompt maxTokens =
     ''NPU_INFER '' @ show_int maxTokens @ [newline] @ c_str prompt @ [newline] @ ''END'' @ [newline]"

definition npu_load_message :: "string \<Rightarrow> string \<Rightarrow> string \<Rightarrow> string \<Rightarrow> string" where
  "npu_load_message modelPath backendDir nCtx nThreads =
     ''NPU_LOAD '' @ modelPath @ '' '' @ backendDir @ '' '' @ nCtx @ '' '' @ nThreads @ [newline]"

definition usage_error :: "string \<Rightarrow> outcome" where
  "usage_error text = \<lparr>o_sent = [], o_stdout = [], o_stderr = ''usage: ai_daemon_cli '' @ text @ [newline], o_status = 1\<rparr>"

definition cli_infer :: "peer \<Rightarrow> string list \<Rightarrow> outcome result" where
  "cli_infer p argv =
     (if length argv < 5 then Inr (usage_error ''infer <sessionId> <prompt> <maxTokens>'')
      else print_response p (infer_message (atoi (argv ! 2)) (argv ! 3) (atoi (argv ! 4))))"

definition cli_npu_load :: "peer \<Rightarrow> string list \<Rightarrow> outcome" where
  "cli_npu_load p argv =
     (if length argv < 6 then usage_error ''npu_load <modelPath> <backendDir> <nCtx> <nThreads>''
      else SendAndReadLine p (npu_load_message (argv ! 2) (argv ! 3) (argv ! 4) (argv ! 5)))"

definition cli_npu_infer :: "peer \<Rightarrow> string list \<Rightarrow> outcome result" where
  "cli_npu_infer p argv =
     (if length argv < 4 then Inr (usage_error ''npu_infer <prompt> <maxTokens>'')
      else print_response p (npu_infer_message (argv ! 2) (atoi (argv ! 3))))"

definition session_command :: "string \<Rightarrow> peer \<Rightarrow> string list \<Rightarrow> outcome" where
  "session_command word p argv = SendAndReadLine p (word @ '' '' @ argv ! 2 @ [newline])"

definition cli_hello :: "peer \<Rightarrow> outcome" where
  "cli_hello p =
     (let msg = ''HELLO'' @ [newline] in
      case ReadAndPrint p msg of (rc, out, err) \<Rightarrow>
        \<lparr>o_sent = msg, o_stdout = out, o_stderr = err, o_status = rc\<rparr>)"

definition cli_main :: "peer \<Rightarrow> string list \<Rightarrow> outcome result" where
  \<comment> \<open>\<open>argv\<close> starts with the name of the program\<close>
  "cli_main p argv =
     (let argc = length argv; (fd, err) = Connect p in
      if fd < 0 then Inr \<lparr>o_sent = [], o_stdout = [], o_stderr = err, o_status = 1\<rparr>
      else if argc \<ge> 2 \<and> argv ! 1 = ''infer'' then cli_infer p argv
      else if argc \<ge> 3 \<and> argv ! 1 = ''npu_load'' then Inr (cli_npu_load p argv)
      else if argc \<ge> 3 \<and> argv ! 1 = ''npu_infer'' then cli_npu_infer p argv
      else if argc \<ge> 3 \<and> argv ! 1 = ''create_session'' then Inr (session_command ''CREATE_SESSION'' p argv)
      else if argc \<ge> 3 \<and> argv ! 1 = ''kill_session'' then Inr (session_command ''KILL_SESSION'' p argv)
      else if argc \<ge> 3 \<and> argv ! 1 = ''set_hot_limit'' then Inr (session_command ''SET_HOT_LIMIT'' p argv)
      else if argc \<ge> 3 \<and> argv ! 1 = ''set_cold_limit'' then Inr (session_command ''SET_COLD_LIMIT'' p argv)
      else Inr (cli_hello p))"

end
