(* ===== verification/Protocol.thy ===== *)
theory Protocol
  imports Daemon_Client Cli
begin

text \<open>
  The two ends of the socket put together: the messages of the client as the daemon reads them, and
  the reply lines of the daemon as the client prints them.
\<close>

subsection \<open>Prompts\<close>

fun split_lines :: "string \<Rightarrow> string list" where
  "split_lines [] = [[]]"
| "split_lines (c # s) =
     (if c = newline then [] # split_lines s
      else case split_lines s of [] \<Rightarrow> [[c]] | l # ls \<Rightarrow> (c # l) # ls)"

definition safe_prompt :: "string \<Rightarrow> bool" where
  \<comment> \<open>no line starts with the end marker, and each fits the buffer of the daemon\<close>
  "safe_prompt p \<longleftrightarrow> nul \<notin> set p \<and> list_all (\<lambda>l. length l < 4095 \<and> \<not> starts_with ''END'' l) (split_lines p)"

lemma unlines_split: "unlines (split_lines s) = s @ [newline]"
  by (induction s) (auto split: list.splits)

lemma split_lines_set: "l \<in> set (split_lines s) \<Longrightarrow> set l \<subseteq> set s - {newline}"
  by (induction s arbitrary: l) (fastforce split: list.splits if_splits)+

lemma read_prompt_lines:
  assumes "\<And>l. l \<in> set ls \<Longrightarrow> set l \<inter> {newline, nul} = {} \<and> length l < 4095 \<and> \<not> starts_with ''END'' l"
    and "set junk \<inter> {newline, nul} = {}" "length junk < 4092"
  shows "read_prompt p (unlines ls @ ''END'' @ junk @ newline # r) = (p @ unlines ls, r)"
  using assms(1)
proof (induction ls arbitrary: p)
  case Nil
  have "fgets 4096 ((''END'' @ junk) @ newline # r) = Some ((''END'' @ junk) @ [newline], r)"
    by (rule fgets_line) (use assms(2,3) in auto)
  moreover have "c_str ((''END'' @ junk) @ [newline]) = (''END'' @ junk) @ [newline]"
    by (rule c_str_id) (use assms(2) in auto)
  ultimately show ?case by (simp add: read_prompt.simps [of p])
next
  case (Cons l ls)
  let ?r = "unlines ls @ ''END'' @ junk @ newline # r"
  have l: "set l \<inter> {newline, nul} = {}" "length l < 4095" "\<not> starts_with ''END'' l" using Cons.prems by auto
  have f: "fgets 4096 (l @ newline # ?r) = Some (l @ [newline], ?r)"
    using l by (intro fgets_line) auto
  have c: "c_str (l @ [newline]) = l @ [newline]" using l(1) by (intro c_str_id) auto
  have "starts_with ''END'' (l @ [newline]) \<longleftrightarrow> starts_with ''END'' l"
    using l(1) by (cases l; cases "tl l"; cases "tl (tl l)") auto
  then have "read_prompt p (l @ newline # ?r) = read_prompt (p @ l @ [newline]) ?r"
    using f c l(3) by (simp add: read_prompt.simps [of p])
  then show ?case using Cons.IH [of "p @ l @ [newline]"] Cons.prems by simp
qed

lemma read_safe_prompt:
  assumes "safe_prompt p"
  shows "read_prompt [] (p @ newline # ''END'' @ newline # r) = (p @ [newline], r)"
proof -
  have "set l \<inter> {newline, nul} = {} \<and> length l < 4095 \<and> \<not> starts_with ''END'' l" if "l \<in> set (split_lines p)" for l
    using that assms split_lines_set [OF that] by (auto simp: safe_prompt_def list_all_iff)
  from read_prompt_lines [of "split_lines p" "[]", OF this] show ?thesis by (simp add: unlines_split)
qed

lemma safe_prompt_c_str: "safe_prompt p \<Longrightarrow> c_str p = p"
  by (simp add: safe_prompt_def c_str_id)

subsection \<open>Arguments\<close>

definition int32 :: "int \<Rightarrow> bool" where "int32 i \<longleftrightarrow> - (2 ^ 31) \<le> i \<and> i < 2 ^ 31"

lemma not_digit_sep: "\<not> is_digit (CHR '' '')" "\<not> is_digit newline"
  by (simp_all add: is_digit_def)

lemma scan_int_space: "scan_int (CHR '' '' # s) = scan_int s"
  by (simp add: scan_int_def is_space_def)

lemma sscanf_d_show:
  assumes "int32 i" "r = [] \<or> \<not> is_digit (hd r)"
  shows "sscanf_d (show_int i @ r) = Some (i, r)" "sscanf_d (CHR '' '' # show_int i @ r) = Some (i, r)"
  using assms scan_int_show [of r i] by (simp_all add: sscanf_d_def scan_int_space int32_def to_int32_clamp)

lemma infer_args_show:
  assumes "int32 i" "int32 n"
  shows "infer_args (show_int i @ '' '' @ show_int n @ [newline]) = (i, n)"
  using sscanf_d_show(1) [OF assms(1), of "'' '' @ show_int n @ [newline]"]
    sscanf_d_show(2) [OF assms(2), of "[newline]"] not_digit_sep
  by (simp add: infer_args_def)

lemma show_int_safe: "set (show_int i) \<inter> {newline, nul, CHR '' ''} = {}"
  using show_int_chars [of _ i] digit_not_other by (fastforce simp: is_digit_def)

lemma strtoul_show: "n < 2 ^ 64 \<Longrightarrow> strtoul (show_int (int n) @ [newline]) = of_nat n"
  using scan_int_show [of "[newline]" "int n"] not_digit_sep by (simp add: strtoul_def)

definition plain_word :: "string \<Rightarrow> bool" where
  "plain_word w \<longleftrightarrow> w \<noteq> [] \<and> length w \<le> 511 \<and> list_all (\<lambda>c. \<not> is_space c \<and> c \<noteq> nul) w"

lemma sscanf_s_word:
  assumes "plain_word w" "is_space c"
  shows "sscanf_s 511 (w @ c # r) = Some (w, c # r)" "sscanf_s 511 (CHR '' '' # w @ c # r) = Some (w, c # r)"
proof -
  obtain x xs where x: "w = x # xs" "\<not> is_space x" using assms(1) by (cases w) (auto simp: plain_word_def)
  have t: "takeWhile (\<lambda>c. \<not> is_space c) (w @ c # r) = w"
    using assms by (simp add: plain_word_def list_all_iff takeWhile_append2)
  have "dropWhile is_space (w @ c # r) = w @ c # r" using x by simp
  moreover have "is_space (CHR '' '')" by (simp add: is_space_def)
  ultimately show "sscanf_s 511 (w @ c # r) = Some (w, c # r)"
    "sscanf_s 511 (CHR '' '' # w @ c # r) = Some (w, c # r)"
    using t assms(1) by (simp_all add: sscanf_s_def plain_word_def)
qed

lemma npu_load_args_show:
  assumes "plain_word m" "plain_word b" "int32 c" "int32 t"
  shows "npu_load_args (m @ '' '' @ b @ '' '' @ show_int c @ '' '' @ show_int t @ [newline]) = (m, b, c, t)"
proof -
  have sp: "is_space (CHR '' '')" by (simp add: is_space_def)
  show ?thesis
    using sscanf_s_word(1) [OF assms(1) sp, of "b @ '' '' @ show_int c @ '' '' @ show_int t @ [newline]"]
      sscanf_s_word(2) [OF assms(2) sp, of "show_int c @ '' '' @ show_int t @ [newline]"]
      sscanf_d_show(2) [OF assms(3), of "'' '' @ show_int t @ [newline]"]
      sscanf_d_show(2) [OF assms(4), of "[newline]"] not_digit_sep
    by (simp add: npu_load_args_def)
qed

subsection \<open>One command line\<close>

lemma client_loop_line:
  assumes "set l \<inter> {newline, nul} = {}" "length l < 4095"
  shows "client_loop e en (l @ newline # r) d =
    bindR (handle_command e en (l @ [newline]) r d) (\<lambda>(r', d'). client_loop e en r' d')"
proof -
  have "fgets 4096 (l @ newline # r) = Some (l @ [newline], r)" using assms by (intro fgets_line) auto
  moreover have "c_str (l @ [newline]) = l @ [newline]" using assms(1) by (intro c_str_id) auto
  ultimately show ?thesis by (simp add: client_loop.simps [of e en "l @ newline # r"])
qed

lemma client_loop_end [simp]: "client_loop e en [] d = Inr d"
  by (simp add: client_loop.simps)

lemma digits_length_bound: "n < 10 ^ Suc k \<Longrightarrow> length (digits n) \<le> Suc k"
proof (induction k arbitrary: n)
  case (Suc k)
  show ?case
  proof (cases "n < 10")
    case False
    then have "n div 10 < 10 ^ Suc k" using Suc.prems by (simp add: less_mult_imp_div_less mult.commute)
    then show ?thesis using Suc.IH [of "n div 10"] False by (simp add: digits.simps [of n])
  qed (simp add: digits.simps [of n])
qed (subst digits.simps; simp)

lemma show_int_length: "int32 i \<Longrightarrow> length (show_int i) \<le> 11"
proof -
  assume i: "int32 i"
  then have "nat \<bar>i\<bar> < 10 ^ Suc 9" by (simp add: int32_def nat_less_iff abs_less_iff)
  from digits_length_bound [OF this] show ?thesis
    by (cases i rule: show_int_cases) (simp_all add: abs_if)
qed

lemma infer_command:
  assumes "int32 i" "int32 n" "c_str p = p"
  shows "client_loop e en (infer_message i p n) d =
    bindR (cmd_infer e (show_int i @ '' '' @ show_int n @ [newline]) (p @ newline # ''END'' @ [newline]) d)
      (\<lambda>(r, d'). client_loop e en r d')"
proof -
  have m: "infer_message i p n = (''INFER '' @ show_int i @ '' '' @ show_int n) @ newline # p @ newline # ''END'' @ [newline]"
    using assms(3) by (simp add: infer_message_def)
  have "set (''INFER '' @ show_int i @ '' '' @ show_int n) \<inter> {newline, nul} = {}"
    using show_int_safe [of i] show_int_safe [of n] by auto
  moreover have "length (''INFER '' @ show_int i @ '' '' @ show_int n) < 4095"
    using show_int_length [OF assms(1)] show_int_length [OF assms(2)] by simp
  ultimately have "client_loop e en (infer_message i p n) d =
    bindR (handle_command e en ((''INFER '' @ show_int i @ '' '' @ show_int n) @ [newline])
      (p @ newline # ''END'' @ [newline]) d) (\<lambda>(r', d'). client_loop e en r' d')"
    unfolding m by (rule client_loop_line)
  then show ?thesis by (simp add: handle_command_def)
qed

lemma infer_message_run:
  assumes "int32 i" "int32 n" "safe_prompt p" "engine_isReady (d_engine d)"
  shows "client_loop e en (infer_message i p n) d =
    bindR (infer e i p n False token_line (d_engine d) (d_hist d) (d_out d))
      (\<lambda>(ok, g', w', out').
         Inr (puts (if ok then ''DONE'' else ''ERROR SESSION_NOT_FOUND'')
           (d\<lparr>d_engine := g', d_hist := w', d_out := out'\<rparr>)))"
proof -
  have a: "infer_args (show_int i @ '' '' @ show_int n @ [newline]) = (i, n)"
    using assms(1,2) by (rule infer_args_show)
  have p: "read_prompt [] (p @ newline # ''END'' @ [newline]) = (p @ [newline], [])"
    using read_safe_prompt [OF assms(3), of "[]"] by simp
  show ?thesis
    unfolding infer_command [OF assms(1,2) safe_prompt_c_str [OF assms(3)]] cmd_infer_def Let_def a p
    using assms(4)
    by (cases "infer e i p n False token_line (d_engine d) (d_hist d) (d_out d)") (auto split: prod.splits)
qed

lemma npu_infer_message_run:
  assumes "int32 n" "safe_prompt p" "npu_isReady (d_npu d)"
  shows "client_loop e en (npu_infer_message p n) d =
    bindR (npu_infer en p n token_line (d_npu d) (d_npuHist d) (d_out d))
      (\<lambda>(ok, w', out').
         Inr (puts (if ok then ''DONE'' else ''ERROR NPU_INFER_FAILED'') (d\<lparr>d_npuHist := w', d_out := out'\<rparr>)))"
proof -
  have m: "npu_infer_message p n = (''NPU_INFER '' @ show_int n) @ newline # p @ newline # ''END'' @ [newline]"
    using safe_prompt_c_str [OF assms(2)] by (simp add: npu_infer_message_def)
  have "set (''NPU_INFER '' @ show_int n) \<inter> {newline, nul} = {}" using show_int_safe [of n] by auto
  moreover have "length (''NPU_INFER '' @ show_int n) < 4095" using show_int_length [OF assms(1)] by simp
  ultimately have l: "client_loop e en (npu_infer_message p n) d =
    bindR (handle_command e en ((''NPU_INFER '' @ show_int n) @ [newline])
      (p @ newline # ''END'' @ [newline]) d) (\<lambda>(r', d'). client_loop e en r' d')"
    unfolding m by (rule client_loop_line)
  have a: "atoi (show_int n @ [newline]) = n"
    using assms(1) not_digit_sep by (intro atoi_show) (simp_all add: int32_def)
  have p: "read_prompt [] (p @ newline # ''END'' @ [newline]) = (p @ [newline], [])"
    using read_safe_prompt [OF assms(2), of "[]"] by simp
  have "handle_command e en ((''NPU_INFER '' @ show_int n) @ [newline]) (p @ newline # ''END'' @ [newline]) d =
    cmd_npu_infer en (show_int n @ [newline]) (p @ newline # ''END'' @ [newline]) d"
    by (simp add: handle_command_def)
  then show ?thesis
    unfolding l cmd_npu_infer_def Let_def a p
    using assms(3)
    by (cases "npu_infer en p n token_line (d_npu d) (d_npuHist d) (d_out d)") (auto split: prod.splits)
qed

lemma atoi_int32: "int32 (atoi s)"
  using to_int32_bounds by (simp add: atoi_def int32_def split: option.splits)

subsection \<open>The response as it is printed\<close>

lemma response_token:
  assumes "length t \<le> 3000"
  shows "response_loop (''TOKEN '' @ base64Encode t @ newline # r) out = response_loop r (out @ c_str t)"
proof -
  have c: "c_str (''TOKEN '' @ base64Encode t @ [newline]) = ''TOKEN '' @ base64Encode t @ [newline]"
    using b64.enc_safe [of t] by (intro c_str_id) auto
  have "c_str (base64Encode t @ [newline]) = base64Encode t @ [newline]"
    using b64.enc_safe [of t] by (intro c_str_id) auto
  then have d: "base64Decode (chomp (base64Encode t @ [newline])) = t"
    using b64.token_line_decode [of t] by simp
  have "response_line (c_str (''TOKEN '' @ base64Encode t @ [newline])) out = Inr (True, out @ c_str t)"
    unfolding c using d by (simp add: response_line_def)
  then show ?thesis
    using b64.token_line_read [OF assms, of r]
    by (simp add: response_loop.simps [of "_ # _"])
qed

lemma response_tokens:
  assumes "\<And>t. t \<in> set ts \<Longrightarrow> length t \<le> 3000"
  shows "response_loop (unlines (map (\<lambda>t. ''TOKEN '' @ base64Encode t) ts) @ r) out =
    response_loop r (out @ concat (map c_str ts))"
  using assms
proof (induction ts arbitrary: out)
  case (Cons t ts)
  have "length t \<le> 3000" using Cons.prems by simp
  from response_token [OF this] Cons.IH Cons.prems show ?case by simp
qed simp

lemma response_last:
  assumes "set l \<inter> {newline, nul} = {}" "length l < 4095"
    and "response_line (l @ [newline]) out = Inr (False, out')"
  shows "response_loop (l @ newline # r) out = Inr out'"
proof -
  have "fgets 4096 (l @ newline # r) = Some (l @ [newline], r)" using assms by (intro fgets_line) auto
  moreover have "c_str (l @ [newline]) = l @ [newline]" using assms(1) by (intro c_str_id) auto
  ultimately show ?thesis using assms(3) by (simp add: response_loop.simps [of "l @ newline # r"])
qed

definition verdict :: "bool \<Rightarrow> string \<Rightarrow> string" where
  "verdict ok failure = (if ok then ''DONE'' else ''ERROR '' @ failure)"

definition shown_verdict :: "bool \<Rightarrow> string \<Rightarrow> string" where
  \<comment> \<open>how the client prints the last line of a response\<close>
  "shown_verdict ok failure = [newline] @ (if ok then ''[DONE]'' else ''[ERROR] '' @ failure) @ [newline]"

lemma response_shown:
  assumes "piece_in_buffer e" and "set failure \<inter> {newline, nul} = {}" "length failure < 4000"
  shows "response_loop (unlines (token_lines e m toks @ [verdict ok failure])) [] =
    Inr (concat (map (\<lambda>t. c_str (piece_text e m t)) toks) @ shown_verdict ok failure)"
proof -
  have "response_loop (verdict ok failure @ [newline]) out = Inr (out @ shown_verdict ok failure)" for out
    using assms(2,3)
    by (intro response_last [where r = "[]"]) (auto simp: verdict_def shown_verdict_def response_line_def)
  moreover have len: "length (piece_text e m t) \<le> 3000" for t
    using piece_text_length [OF assms(1), of m t] by simp
  moreover have "response_loop (unlines (map (\<lambda>t. ''TOKEN '' @ base64Encode t) (map (piece_text e m) toks)) @ r) out =
      response_loop r (out @ concat (map c_str (map (piece_text e m) toks)))" for r out
    by (rule response_tokens) (use len in auto)
  ultimately show ?thesis by (simp add: token_lines_def comp_def)
qed

definition daemon_reply :: "llama_env \<Rightarrow> llama_env \<Rightarrow> daemon \<Rightarrow> string \<Rightarrow> string" where
  \<comment> \<open>what the daemon writes on a connection on which it is sent \<open>msg\<close>\<close>
  "daemon_reply e en d msg =
     (case client_loop e en msg (d\<lparr>d_out := []\<rparr>) of Inl f \<Rightarrow> [] | Inr d' \<Rightarrow> d_out d')"

definition connected :: "llama_env \<Rightarrow> llama_env \<Rightarrow> daemon \<Rightarrow> peer \<Rightarrow> bool" where
  "connected e en d p \<longleftrightarrow> 0 \<le> p_socket p \<and> 0 \<le> p_connect p \<and> p_fdopen p \<and> p_reply p = daemon_reply e en d"

lemma connected_main:
  assumes "connected e en d p"
  shows "cli_main p [prog, ''infer'', i, prompt, n] =
      print_response p (infer_message (atoi i) prompt (atoi n))"
    and "cli_main p [prog, ''npu_infer'', prompt, n] =
      print_response p (npu_infer_message prompt (atoi n))"
  using assms
  by (simp_all add: cli_main_def Connect_def connected_def cli_infer_def cli_npu_infer_def)

lemma sent_line [simp]: "o_sent (SendAndReadLine p msg) = msg"
  by (simp add: SendAndReadLine_def split: prod.splits)

lemma cli_main_npu_load:
  assumes "0 \<le> p_socket p" "0 \<le> p_connect p"
  shows "cli_main p [prog, ''npu_load'', m, b, c, t] = Inr (SendAndReadLine p (npu_load_message m b c t))"
  using assms by (simp add: cli_main_def Connect_def cli_npu_load_def)

lemma cli_main_session:
  assumes "0 \<le> p_socket p" "0 \<le> p_connect p"
  shows "cli_main p [prog, ''create_session'', x] = Inr (SendAndReadLine p (''CREATE_SESSION '' @ x @ [newline]))"
    and "cli_main p [prog, ''kill_session'', x] = Inr (SendAndReadLine p (''KILL_SESSION '' @ x @ [newline]))"
    and "cli_main p [prog, ''set_hot_limit'', x] = Inr (SendAndReadLine p (''SET_HOT_LIMIT '' @ x @ [newline]))"
  using assms by (simp_all add: cli_main_def Connect_def session_command_def)

end
