(* ===== verification/Requests.thy ===== *)
theory Requests
  imports Protocol Daemon_Props
begin

text \<open>
  The line protocol as a language of requests.  What a connection means is a list of requests that
  depends on the bytes alone, not on the state of the daemon; serving the connection is running the
  list.  On top of it the contract of the daemon: an abstract server over the cache of session ids,
  which the daemon refines request by request, replies included.
\<close>

subsection \<open>Requests and how they are read\<close>

datatype request =
    ReqCreate int
  | ReqKill int
  | ReqHotLimit size_t
  | ReqColdLimit size_t
  | ReqInfer int int string \<comment> \<open>session, \<open>maxTokens\<close>, prompt\<close>
  | ReqNpuLoad string string int int
  | ReqNpuInfer int string
  | ReqHello
  | ReqOther

definition read_body :: "string \<Rightarrow> string \<times> string" where
  "read_body s = (case read_prompt [] s of (text, r) \<Rightarrow> (chomp text, r))"

definition parse_request :: "string \<Rightarrow> string \<Rightarrow> request \<times> string" where
  "parse_request cmd s =
     (if starts_with ''CREATE_SESSION '' cmd then (ReqCreate (atoi (drop 15 cmd)), s)
      else if starts_with ''KILL_SESSION '' cmd then (ReqKill (atoi (drop 13 cmd)), s)
      else if starts_with ''SET_HOT_LIMIT '' cmd then (ReqHotLimit (strtoul (drop 14 cmd)), s)
      else if starts_with ''SET_COLD_LIMIT '' cmd then (ReqColdLimit (strtoul (drop 15 cmd)), s)
      else if starts_with ''INFER '' cmd then
        (case infer_args (drop 6 cmd) of (i, n) \<Rightarrow> (case read_body s of (p, r) \<Rightarrow> (ReqInfer i n p, r)))
      else if starts_with ''NPU_LOAD '' cmd then
        (case npu_load_args (drop 9 cmd) of (m, b, c, t) \<Rightarrow> (ReqNpuLoad m b c t, s))
      else if starts_with ''NPU_INFER '' cmd then
        (case read_body s of (p, r) \<Rightarrow> (ReqNpuInfer (atoi (drop 10 cmd)) p, r))
      else if starts_with ''HELLO'' cmd then (ReqHello, s)
      else (ReqOther, s))"

lemma parse_request_shorter: "length (snd (parse_request cmd s)) \<le> length s"
  using read_prompt_shorter [of "[]" s]
  by (auto simp: parse_request_def read_body_def split: prod.splits)

function parse_requests :: "string \<Rightarrow> request list" where
  "parse_requests s =
     (case fgets 4096 s of
        None \<Rightarrow> []
      | Some (line, r) \<Rightarrow>
          (case parse_request (c_str line) r of (q, r') \<Rightarrow> q # parse_requests r'))"
  by pat_completeness auto
termination
proof (relation "measure length", goal_cases)
  case (2 s lr l r q r')
  then have "r' = snd (parse_request (c_str l) r)" "fgets 4096 s = Some (l, r)" by (auto dest: sym)
  then show ?case
    using fgets_shorter [of 4096 s l r] parse_request_shorter [of "c_str l" r] by simp
qed simp

declare parse_requests.simps [simp del]

subsection \<open>What a request does\<close>

fun exec_request :: "llama_env \<Rightarrow> llama_env \<Rightarrow> request \<Rightarrow> daemon \<Rightarrow> daemon result" where
  "exec_request e en (ReqCreate i) d =
     (if \<not> d_ready d then Inr (puts ''ERROR engine not ready'' d)
      else bindR (with_sessions (\<lambda>s w. Inr (createSession e i s w)) d) (\<lambda>(ok, d').
        Inr (puts (if ok then ''OK'' else ''ERROR ALREADY_EXISTS'') d')))"
| "exec_request e en (ReqKill i) d =
     bindR (with_sessions (killSession i) d) (\<lambda>(ok, d').
       Inr (puts (if ok then ''OK'' else ''ERROR NOT_FOUND'') d'))"
| "exec_request e en (ReqHotLimit n) d =
     bindR (with_sessions (\<lambda>s w. bindR (setHotLimit e n s w) (\<lambda>(s', w'). Inr ((), s', w'))) d)
       (\<lambda>(u, d'). Inr (puts ''OK'' d'))"
| "exec_request e en (ReqColdLimit n) d =
     bindR (with_sessions (\<lambda>s w. bindR (setColdLimit n s w) (\<lambda>(s', w'). Inr ((), s', w'))) d)
       (\<lambda>(u, d'). Inr (puts ''OK'' d'))"
| "exec_request e en (ReqInfer i n p) d =
     (if \<not> d_ready d then Inr (puts ''ERROR engine not ready'' d)
      else bindR (infer e i p n False token_line (d_engine d) (d_hist d) (d_out d)) (\<lambda>(ok, g', w', out').
        Inr (puts (if ok then ''DONE'' else ''ERROR SESSION_NOT_FOUND'')
          (d\<lparr>d_engine := g', d_hist := w', d_out := out'\<rparr>))))"
| "exec_request e en (ReqNpuLoad m b c t) d =
     (case npu_load en m b c t (d_npu d) (d_npuHist d) of (ok, g', w') \<Rightarrow>
        Inr (puts (if ok then ''OK'' else ''ERROR NPU_LOAD_FAILED'') (d\<lparr>d_npu := g', d_npuHist := w'\<rparr>)))"
| "exec_request e en (ReqNpuInfer n p) d =
     (if \<not> npu_isReady (d_npu d) then Inr (puts ''ERROR NPU_NOT_READY'' d)
      else bindR (npu_infer en p n token_line (d_npu d) (d_npuHist d) (d_out d)) (\<lambda>(ok, w', out').
        Inr (puts (if ok then ''DONE'' else ''ERROR NPU_INFER_FAILED'') (d\<lparr>d_npuHist := w', d_out := out'\<rparr>))))"
| "exec_request e en ReqHello d = Inr (puts ''HELLO from miniv_ai'' d)"
| "exec_request e en ReqOther d = Inr d"

lemma exec_session_requests:
  "cmd_create_session e arg d = exec_request e en (ReqCreate (atoi arg)) d"
  "cmd_kill_session arg d = exec_request e en (ReqKill (atoi arg)) d"
  "cmd_set_hot_limit e arg d = exec_request e en (ReqHotLimit (strtoul arg)) d"
  "cmd_set_cold_limit arg d = exec_request e en (ReqColdLimit (strtoul arg)) d"
  by (simp_all add: cmd_create_session_def cmd_kill_session_def cmd_set_hot_limit_def cmd_set_cold_limit_def
      d_ready_def Let_def)

lemma exec_infer_request:
  assumes "infer_args arg = (i, n)" "read_body s = (p, r)"
  shows "cmd_infer e arg s d = bindR (exec_request e en (ReqInfer i n p) d) (\<lambda>d'. Inr (r, d'))"
  using assms
  by (cases "infer e i p n False token_line (d_engine d) (d_hist d) (d_out d)")
    (auto simp: cmd_infer_def d_ready_def read_body_def split: prod.splits)

lemma exec_npu_load_request:
  "npu_load_args arg = (m, b, c, t) \<Longrightarrow> exec_request e en (ReqNpuLoad m b c t) d = Inr (cmd_npu_load en arg d)"
  by (simp add: cmd_npu_load_def split: prod.splits)

lemma exec_npu_infer_request:
  assumes "read_body s = (p, r)"
  shows "cmd_npu_infer en arg s d = bindR (exec_request e en (ReqNpuInfer (atoi arg) p) d) (\<lambda>d'. Inr (r, d'))"
  using assms
  by (cases "npu_infer en p (atoi arg) token_line (d_npu d) (d_npuHist d) (d_out d)")
    (auto simp: cmd_npu_infer_def read_body_def split: prod.splits)

lemma handle_request:
  assumes "parse_request cmd s = (q, r)"
  shows "handle_command e en cmd s d = bindR (exec_request e en q d) (\<lambda>d'. Inr (r, d'))"
  using assms
  by (auto simp: handle_command_def parse_request_def exec_session_requests [where e = e and en = en]
      exec_infer_request [where en = en] exec_npu_load_request [where e = e] exec_npu_infer_request [where e = e]
      simp del: exec_request.simps(1-7) split: if_splits prod.splits)

lemma client_loop_requests:
  "client_loop e en s d = runR (exec_request e en) (parse_requests s) d"
proof (induction s arbitrary: d rule: parse_requests.induct)
  case (1 s)
  show ?case
  proof (cases "fgets 4096 s")
    case None
    then show ?thesis by (simp add: client_loop.simps [of e en s] parse_requests.simps [of s])
  next
    case (Some lr)
    obtain l r q r' where lr: "lr = (l, r)" "parse_request (c_str l) r = (q, r')" by (metis surj_pair)
    note IH = 1 [OF Some lr(1) [symmetric] lr(2) [symmetric]]
    show ?thesis
      using Some lr IH
      by (cases "exec_request e en q d")
        (simp_all add: client_loop.simps [of e en s] parse_requests.simps [of s] handle_request [OF lr(2)])
  qed
qed

subsection \<open>The abstract server\<close>

text \<open>
  What the daemon promises for each request, over the abstract cache: the reply lines, and how the
  ids it knows, the HOT ones and the swapped ones may change.
\<close>

definition token_reply :: "string \<Rightarrow> string" where
  "token_reply t = ''TOKEN '' @ base64Encode t"

inductive serve_step :: "request \<Rightarrow> lru \<Rightarrow> string list \<Rightarrow> lru \<Rightarrow> bool" where
  create: "lru_step (Create i) a b \<Longrightarrow>
    serve_step (ReqCreate i) a [if i \<in> l_ids a then ''ERROR ALREADY_EXISTS'' else ''OK''] b"
| kill: "lru_step (Kill i) a b \<Longrightarrow>
    serve_step (ReqKill i) a [if i \<in> l_ids a then ''OK'' else ''ERROR NOT_FOUND''] b"
| hot_limit: "lru_step (SetHotLimit n) a b \<Longrightarrow> serve_step (ReqHotLimit n) a [''OK''] b"
| cold_limit: "lru_step (SetColdLimit n) a b \<Longrightarrow> serve_step (ReqColdLimit n) a [''OK''] b"
| infer_done: "lru_step (Activate i) a b \<Longrightarrow> i \<in> l_ids a \<Longrightarrow> i \<in> set (l_hot b) \<Longrightarrow> int (length ts) \<le> n \<Longrightarrow>
    serve_step (ReqInfer i n p) a (map token_reply ts @ [''DONE'']) b"
| infer_failed: "lru_step (Activate i) a b \<Longrightarrow> serve_step (ReqInfer i n p) a [''ERROR SESSION_NOT_FOUND''] b"
| npu_load: "serve_step (ReqNpuLoad m p c t) a [if ok then ''OK'' else ''ERROR NPU_LOAD_FAILED''] a"
| npu_done: "length ts \<le> nat n \<Longrightarrow> serve_step (ReqNpuInfer n p) a (map token_reply ts @ [''DONE'']) a"
| npu_failed: "l \<in> {''ERROR NPU_NOT_READY'', ''ERROR NPU_INFER_FAILED''} \<Longrightarrow> serve_step (ReqNpuInfer n p) a [l] a"
| hello: "serve_step ReqHello a [''HELLO from miniv_ai''] a"
| other: "serve_step ReqOther a [] a"

inductive serve_run :: "request list \<Rightarrow> lru \<Rightarrow> string list \<Rightarrow> lru \<Rightarrow> bool" where
  none: "serve_run [] a [] a"
| next_request: "serve_step q a ls b \<Longrightarrow> serve_run qs b ms c \<Longrightarrow> serve_run (q # qs) a (ls @ ms) c"

lemma wf_abs: "sm_inv s \<Longrightarrow> lru_wf (abs_lru s)"
  using inv_hot_distinct [of s] inv_cold_distinct [of s] inv_disjoint [of s] inv_hot_ids [of s] inv_cold_ids [of s]
  by (auto simp: lru_wf_def abs_lru_def simp del: set_map)

inductive_cases lru_recordE: "lru_step (Record i ts) a b"

lemma record_last:
  \<comment> \<open>recording tokens of the session used last changes nothing the cache can see\<close>
  assumes "lru_step (Record i ts) a b" "lru_wf a" "l_hot a = us @ [i]"
  shows "b = a"
  using assms by (auto simp: lru_wf_def remove_id elim!: lru_recordE)

lemma token_lines_reply: "token_lines e m toks = map token_reply (map (piece_text e m) toks)"
  by (simp add: token_lines_def token_reply_def)

lemma infer_on_keeps:
  assumes "sm_inv s" "infer_on (activateForInfer e) (recordTokens e) e m i p n flag f s w out = Inr (ok, s', w', out')"
  shows "sm_inv s'"
proof -
  obtain r s1 w1 where p: "prefill (activateForInfer e) (recordTokens e) e m i p s w = Inr (r, s1, w1)"
    using assms(2) by (auto simp: infer_on_def bindR_Inr_iff)
  have "sm_inv s1" using smk.prefill_keeps [OF assms(1) p] .
  moreover have "sm_inv s'" if "recordTokens e i ts s1 w2 = Inr (s', w')" for ts w2
    using record_spec [OF \<open>sm_inv s1\<close>, of e i ts w2] that by auto
  ultimately show ?thesis
    using assms(2) p by (auto simp: infer_on_def bindR_Inr_iff split: option.splits if_splits)
qed

lemma infer_sim:
  assumes inv: "sm_inv s"
    and x: "infer_on (activateForInfer e) (recordTokens e) e m i p n flag token_line s w out = Inr (ok, s', w', out')"
  shows "lru_step (Activate i) (abs_lru s) (abs_lru s')"
    and "ok \<Longrightarrow> i \<in> l_ids (abs_lru s) \<and> i \<in> set (l_hot (abs_lru s')) \<and>
      (\<exists>ts. out' = out @ unlines (map token_reply ts) \<and> int (length ts) \<le> n)"
    and "\<not> ok \<Longrightarrow> out' = out"
proof -
  obtain ctx s1 w1 where a: "activateForInfer e i s w = Inr (ctx, s1, w1)"
    using x by (auto simp: infer_on_def prefill_def bindR_Inr_iff)
  note S1 = activate_sim [OF inv a] smk.activate_keeps [OF inv a]
  have "lru_step (Activate i) (abs_lru s) (abs_lru s') \<and>
    (ok \<longrightarrow> i \<in> l_ids (abs_lru s) \<and> i \<in> set (l_hot (abs_lru s')) \<and>
      (\<exists>ts. out' = out @ unlines (map token_reply ts) \<and> int (length ts) \<le> n)) \<and> (\<not> ok \<longrightarrow> out' = out)"
  proof (cases ok)
    case False
    then have "s' = s1" "out' = out"
      using x a by (auto simp: infer_on_def prefill_def Let_def bindR_Inr_iff split: option.splits if_splits)
    then show ?thesis using S1(1) False by simp
  next
    case True
    then obtain c ts w2 s2 w3 gen w4 where c: "ctx = Some c"
      and R1: "recordTokens e i ts s1 w2 = Inr (s2, w3)" and n: "0 \<le> n"
      and L: "infer_loop e m c flag token_line (nat n) ([], w3, out) = Inr (gen, w4, out')"
      and R2: "recordTokens e i gen s2 w4 = Inr (s', w')"
      using x a by (auto simp: infer_on_def prefill_def Let_def bindR_Inr_iff split: option.splits if_splits)
    have S2: "lru_step (Record i ts) (abs_lru s1) (abs_lru s2)" "sm_inv s2"
      using record_sim [OF S1(2) R1] record_spec [OF S1(2), of e i ts w2] R1 by auto
    have S3: "lru_step (Record i gen) (abs_lru s2) (abs_lru s')" by (rule record_sim [OF S2(2) R2])
    have hot: "i \<in> set (l_hot (abs_lru s1))"
      using activate_owner [OF inv a [unfolded c]] inv_hot_ids [OF S1(2), of i] by (auto simp: abs_lru_def)
    from activated_last [OF S1(1) wf_abs [OF inv] this] hot
    obtain us where us: "l_hot (abs_lru s1) = us @ [i]" by (metis append_butlast_last_id list.set_cases list.simps(3))
    have "abs_lru s2 = abs_lru s1" by (rule record_last [OF S2(1) wf_abs [OF S1(2)] us])
    moreover from this have "abs_lru s' = abs_lru s2"
      using record_last [OF S3 wf_abs [OF S2(2)]] us by simp
    moreover have "i \<in> l_ids (abs_lru s)"
    proof (rule ccontr)
      assume "i \<notin> l_ids (abs_lru s)"
      then have "activateForInfer e i s w = Inr (None, s, w)" by (auto simp: abs_lru_def activateForInfer_def domIff)
      then show False using a c by simp
    qed
    moreover have "\<exists>ts. out' = out @ unlines (map token_reply ts) \<and> int (length ts) \<le> n"
      using infer_loop_output [OF L] n by (auto simp: emit_token_line token_lines_reply intro!: exI [of _ "map (piece_text e m) gen"])
    ultimately show ?thesis using S1(1) hot True by simp
  qed
  then show "lru_step (Activate i) (abs_lru s) (abs_lru s')"
    and "ok \<Longrightarrow> i \<in> l_ids (abs_lru s) \<and> i \<in> set (l_hot (abs_lru s')) \<and>
      (\<exists>ts. out' = out @ unlines (map token_reply ts) \<and> int (length ts) \<le> n)"
    and "\<not> ok \<Longrightarrow> out' = out" by blast+
qed

definition holds :: "daemon \<Rightarrow> session_manager \<Rightarrow> bool" where
  \<comment> \<open>the CPU engine is loaded and has this session manager, in a consistent state\<close>
  "holds d s \<longleftrightarrow> le_sessions (d_engine d) = Some s \<and> le_model (d_engine d) \<noteq> None \<and> sm_inv s"

lemma holds_ready: "holds d s \<Longrightarrow> d_ready d"
  by (simp add: holds_def d_ready_def engine_isReady_def)

lemma with_sessions_holds:
  assumes "holds d s" "with_sessions call d = Inr (a, d')"
    and c: "\<And>w a s' w'. call s w = Inr (a, s', w') \<Longrightarrow> sm_exec e c (s, w) = Inr (s', w')"
  obtains s' w' where "call s (d_hist d) = Inr (a, s', w')" "holds d' s'" "d_out d' = d_out d"
    "lru_step c (abs_lru s) (abs_lru s')"
proof -
  obtain s' w' where x: "call s (d_hist d) = Inr (a, s', w')"
    and d': "d' = d\<lparr>d_engine := (d_engine d)\<lparr>le_sessions := Some s'\<rparr>, d_hist := w'\<rparr>"
    using assms(1,2) by (auto simp: holds_def with_sessions_def bindR_Inr_iff)
  have inv: "sm_inv s" using assms(1) by (simp add: holds_def)
  show thesis
    using that [OF x] d' assms(1) exec_inv [OF inv c [OF x]] sm_exec_sim [OF inv c [OF x]] by (simp add: holds_def)
qed

lemma exec_request_sim:
  assumes h: "holds d s" and x: "exec_request e en q d = Inr d'"
  shows "\<exists>s' ls. holds d' s' \<and> serve_step q (abs_lru s) ls (abs_lru s') \<and> d_out d' = d_out d @ unlines ls"
proof (cases q)
  case (ReqCreate i)
  then obtain ok d1 where c: "with_sessions (\<lambda>s w. Inr (createSession e i s w)) d = Inr (ok, d1)"
    and d': "d' = puts (if ok then ''OK'' else ''ERROR ALREADY_EXISTS'') d1"
    using x holds_ready [OF h] by (auto simp: bindR_Inr_iff)
  obtain s' w' where s': "createSession e i s (d_hist d) = (ok, s', w')" "holds d1 s'" "d_out d1 = d_out d"
    "lru_step (Create i) (abs_lru s) (abs_lru s')"
    by (rule with_sessions_holds [OF h c, of e "Create i"]) auto
  have "ok \<longleftrightarrow> i \<notin> l_ids (abs_lru s)" using s'(1) by (auto simp: createSession_def Let_def abs_lru_def domIff now_ms_def split: if_splits)
  then show ?thesis
    using serve_step.create [OF s'(4)] s' d' ReqCreate by (intro exI [of _ s']) (auto simp: puts_def holds_def)
next
  case (ReqKill i)
  then obtain ok d1 where c: "with_sessions (killSession i) d = Inr (ok, d1)"
    and d': "d' = puts (if ok then ''OK'' else ''ERROR NOT_FOUND'') d1" using x by (auto simp: bindR_Inr_iff)
  obtain s' w' where s': "killSession i s (d_hist d) = Inr (ok, s', w')" "holds d1 s'" "d_out d1 = d_out d"
    "lru_step (Kill i) (abs_lru s) (abs_lru s')"
    by (rule with_sessions_holds [OF h c, of e "Kill i"]) auto
  have "ok \<longleftrightarrow> i \<in> l_ids (abs_lru s)"
    using s'(1) by (auto simp: killSession_def bindR_Inr_iff abs_lru_def split: option.splits if_splits)
  then show ?thesis
    using serve_step.kill [OF s'(4)] s' d' ReqKill by (intro exI [of _ s']) (auto simp: puts_def holds_def)
next
  case (ReqHotLimit n)
  then obtain d1 where c: "with_sessions (\<lambda>s w. bindR (setHotLimit e n s w) (\<lambda>(s', w'). Inr ((), s', w'))) d = Inr ((), d1)"
    and d': "d' = puts ''OK'' d1" using x by (auto simp: bindR_Inr_iff)
  obtain s' w' where s': "holds d1 s'" "d_out d1 = d_out d" "lru_step (SetHotLimit n) (abs_lru s) (abs_lru s')"
    by (rule with_sessions_holds [OF h c, of e "SetHotLimit n"]) (auto simp: bindR_Inr_iff)
  then show ?thesis
    using serve_step.hot_limit [OF s'(3)] d' ReqHotLimit by (intro exI [of _ s']) (auto simp: puts_def holds_def)
next
  case (ReqColdLimit n)
  then obtain d1 where c: "with_sessions (\<lambda>s w. bindR (setColdLimit n s w) (\<lambda>(s', w'). Inr ((), s', w'))) d = Inr ((), d1)"
    and d': "d' = puts ''OK'' d1" using x by (auto simp: bindR_Inr_iff)
  obtain s' w' where s': "holds d1 s'" "d_out d1 = d_out d" "lru_step (SetColdLimit n) (abs_lru s) (abs_lru s')"
    by (rule with_sessions_holds [OF h c, of e "SetColdLimit n"]) (auto simp: bindR_Inr_iff)
  then show ?thesis
    using serve_step.cold_limit [OF s'(3)] d' ReqColdLimit by (intro exI [of _ s']) (auto simp: puts_def holds_def)
next
  case (ReqInfer i n p)
  then obtain ok g' w' out' where c: "infer e i p n False token_line (d_engine d) (d_hist d) (d_out d) = Inr (ok, g', w', out')"
    and d': "d' = puts (if ok then ''DONE'' else ''ERROR SESSION_NOT_FOUND'') (d\<lparr>d_engine := g', d_hist := w', d_out := out'\<rparr>)"
    using x holds_ready [OF h] by (auto simp: bindR_Inr_iff)
  obtain m s' where y: "infer_on (activateForInfer e) (recordTokens e) e m i p n False token_line s (d_hist d) (d_out d)
      = Inr (ok, s', w', out')" and g': "g' = (d_engine d)\<lparr>le_sessions := Some s'\<rparr>"
    using c h by (auto simp: infer_def holds_def bindR_Inr_iff)
  have inv: "sm_inv s" "sm_inv s'"
    using h infer_on_keeps [OF _ y] by (simp_all add: holds_def)
  note S = infer_sim [OF inv(1) y]
  have h': "holds d' s'" using h inv(2) by (simp add: d' g' puts_def holds_def)
  show ?thesis
  proof (cases ok)
    case True
    then obtain ts where "out' = d_out d @ unlines (map token_reply ts)" "int (length ts) \<le> n" using S(2) by blast
    then show ?thesis
      using serve_step.infer_done [OF S(1)] S(2) True h' d' ReqInfer
      by (intro exI [of _ s'] exI [of _ "map token_reply ts @ [''DONE'']"]) (auto simp: puts_def)
  next
    case False
    then show ?thesis
      using serve_step.infer_failed [OF S(1)] S(3) h' d' ReqInfer
      by (intro exI [of _ s'] exI [of _ "[''ERROR SESSION_NOT_FOUND'']"]) (auto simp: puts_def)
  qed
next
  case (ReqNpuLoad m p c t)
  then obtain ok g' w' where d': "d' = puts (if ok then ''OK'' else ''ERROR NPU_LOAD_FAILED'') (d\<lparr>d_npu := g', d_npuHist := w'\<rparr>)"
    using x by (auto split: prod.splits)
  then show ?thesis
    using serve_step.npu_load [of m p c t "abs_lru s" ok] h ReqNpuLoad
    by (intro exI [of _ s]) (auto simp: puts_def holds_def)
next
  case (ReqNpuInfer n p)
  show ?thesis
  proof (cases "npu_isReady (d_npu d)")
    case False
    then show ?thesis
      using serve_step.npu_failed [of "''ERROR NPU_NOT_READY''" n p "abs_lru s"] h x ReqNpuInfer
      by (intro exI [of _ s] exI [of _ "[''ERROR NPU_NOT_READY'']"]) (auto simp: puts_def holds_def)
  next
    case True
    then obtain m where m: "ne_model (d_npu d) = Some m" by (auto simp: npu_isReady_def)
    obtain ok w' out' where c: "npu_infer en p n token_line (d_npu d) (d_npuHist d) (d_out d) = Inr (ok, w', out')"
      and d': "d' = puts (if ok then ''DONE'' else ''ERROR NPU_INFER_FAILED'') (d\<lparr>d_npuHist := w', d_out := out'\<rparr>)"
      using x True ReqNpuInfer by (auto simp: bindR_Inr_iff)
    obtain toks where T: "out' = d_out d @ unlines (token_lines en m toks)" "length toks \<le> nat n" "\<not> ok \<longrightarrow> toks = []"
      using npu_infer_tokens [OF c m] by blast
    have h': "holds d' s" using h by (simp add: d' puts_def holds_def)
    show ?thesis
    proof (cases ok)
      case True
      then show ?thesis
        using serve_step.npu_done [of "map (piece_text en m) toks" n p "abs_lru s"] T h' d' ReqNpuInfer
        by (intro exI [of _ s] exI [of _ "token_lines en m toks @ [''DONE'']"]) (auto simp: puts_def token_lines_reply)
    next
      case False
      then show ?thesis
        using serve_step.npu_failed [of "''ERROR NPU_INFER_FAILED''" n p "abs_lru s"] T h' d' ReqNpuInfer
        by (intro exI [of _ s] exI [of _ "[''ERROR NPU_INFER_FAILED'']"]) (auto simp: puts_def token_lines_def)
    qed
  qed
next
  case ReqHello
  then show ?thesis
    using serve_step.hello x h by (intro exI [of _ s] exI [of _ "[''HELLO from miniv_ai'']"]) (auto simp: puts_def holds_def)
next
  case ReqOther
  then show ?thesis using serve_step.other x h by (intro exI [of _ s] exI [of _ "[]"]) auto
qed

lemma run_requests_sim:
  assumes "holds d s" "runR (exec_request e en) qs d = Inr d'"
  shows "\<exists>s' ls. holds d' s' \<and> serve_run qs (abs_lru s) ls (abs_lru s') \<and> d_out d' = d_out d @ unlines ls"
  using assms
proof (induction qs arbitrary: d s)
  case Nil
  then show ?case using serve_run.none by (intro exI [of _ s] exI [of _ "[]"]) simp
next
  case (Cons q qs)
  then obtain d1 where x: "exec_request e en q d = Inr d1" "runR (exec_request e en) qs d1 = Inr d'"
    by (auto simp: bindR_Inr_iff)
  from exec_request_sim [OF Cons.prems(1) x(1)] obtain s1 ls where
    1: "holds d1 s1" "serve_step q (abs_lru s) ls (abs_lru s1)" "d_out d1 = d_out d @ unlines ls" by blast
  from Cons.IH [OF 1(1) x(2)] obtain s' ms where
    2: "holds d' s'" "serve_run qs (abs_lru s1) ms (abs_lru s')" "d_out d' = d_out d1 @ unlines ms" by blast
  then show ?case
    using serve_run.next_request [OF 1(2) 2(2)] 1(3) by (intro exI [of _ s'] exI [of _ "ls @ ms"]) simp
qed

subsection \<open>Requests as a client writes them\<close>

fun render :: "request \<Rightarrow> string" where
  "render (ReqCreate i) = ''CREATE_SESSION '' @ show_int i @ [newline]"
| "render (ReqKill i) = ''KILL_SESSION '' @ show_int i @ [newline]"
| "render (ReqHotLimit n) = ''SET_HOT_LIMIT '' @ show_int (uint n) @ [newline]"
| "render (ReqColdLimit n) = ''SET_COLD_LIMIT '' @ show_int (uint n) @ [newline]"
| "render (ReqInfer i n p) = infer_message i p n"
| "render (ReqNpuLoad m b c t) = npu_load_message m b (show_int c) (show_int t)"
| "render (ReqNpuInfer n p) = npu_infer_message p n"
| "render ReqHello = ''HELLO'' @ [newline]"
| "render ReqOther = [newline]"

fun plain_request :: "request \<Rightarrow> bool" where
  \<comment> \<open>numbers in range, prompts without the end marker, paths that are words\<close>
  "plain_request (ReqCreate i) = int32 i"
| "plain_request (ReqKill i) = int32 i"
| "plain_request (ReqInfer i n p) = (int32 i \<and> int32 n \<and> safe_prompt p)"
| "plain_request (ReqNpuLoad m b c t) = (plain_word m \<and> plain_word b \<and> int32 c \<and> int32 t)"
| "plain_request (ReqNpuInfer n p) = (int32 n \<and> safe_prompt p)"
| "plain_request q = True"

lemma session_line:
  assumes "int32 i" "set word \<inter> {newline, nul} = {}" "length word < 100"
  shows "set (word @ show_int i) \<inter> {newline, nul} = {}" "length (word @ show_int i) < 4095"
    and "atoi (show_int i @ [newline]) = i"
  using assms show_int_safe [of i] show_int_length [OF assms(1)] not_digit_sep
    atoi_show [of "[newline]" i] by (auto simp: int32_def)

lemma plain_word_safe:
  assumes "plain_word w" shows "set w \<inter> {newline, nul} = {}" "length w \<le> 511"
proof -
  have "is_space newline" by (simp add: is_space_def)
  then show "set w \<inter> {newline, nul} = {}" "length w \<le> 511"
    using assms unfolding plain_word_def list_all_iff by blast+
qed

lemma parse_line:
  assumes "set l \<inter> {newline, nul} = {}" "length l < 4095"
  shows "parse_requests (l @ newline # s) =
    (case parse_request (l @ [newline]) s of (q, r) \<Rightarrow> q # parse_requests r)"
proof -
  have "fgets 4096 (l @ newline # s) = Some (l @ [newline], s)" using assms by (intro fgets_line) auto
  moreover have "c_str (l @ [newline]) = l @ [newline]" using assms(1) by (intro c_str_id) auto
  ultimately show ?thesis by (simp add: parse_requests.simps [of "l @ newline # s"])
qed

lemma read_plain_body:
  assumes "safe_prompt p" shows "read_body (p @ newline # ''END'' @ newline # s) = (p, s)"
  using read_safe_prompt [OF assms, of s] by (simp add: read_body_def)

lemma digits_length: "n < 2 ^ 64 \<Longrightarrow> length (digits n) \<le> 20"
  using digits_length_bound [of n 19] by simp

lemma show_uint:
  fixes n :: size_t
  shows "strtoul (show_int (uint n) @ [newline]) = n" "length (show_int (uint n)) \<le> 20"
proof -
  have "unat n < 2 ^ 64" by (rule order_less_le_trans [OF unsigned_less]) simp
  from strtoul_show [OF this] digits_length [OF this]
  show "strtoul (show_int (uint n) @ [newline]) = n" "length (show_int (uint n)) \<le> 20"
    by (simp_all add: show_int_def nat_uint_eq)
qed

lemma parse_render:
  assumes "plain_request q" shows "parse_requests (render q @ s) = q # parse_requests s"
proof (cases q)
  case (ReqCreate i)
  then show ?thesis
    using session_line [of i "''CREATE_SESSION ''"] assms parse_line [of "''CREATE_SESSION '' @ show_int i" s]
    by (simp add: parse_request_def)
next
  case (ReqKill i)
  then show ?thesis
    using session_line [of i "''KILL_SESSION ''"] assms parse_line [of "''KILL_SESSION '' @ show_int i" s]
    by (simp add: parse_request_def)
next
  case (ReqHotLimit n)
  then show ?thesis
    using show_uint [of n] show_int_safe [of "uint n"] parse_line [of "''SET_HOT_LIMIT '' @ show_int (uint n)" s]
    by (simp add: parse_request_def)
next
  case (ReqColdLimit n)
  then show ?thesis
    using show_uint [of n] show_int_safe [of "uint n"] parse_line [of "''SET_COLD_LIMIT '' @ show_int (uint n)" s]
    by (simp add: parse_request_def)
next
  case (ReqInfer i n p)
  then have v: "int32 i" "int32 n" "safe_prompt p" using assms by simp_all
  show ?thesis
    using ReqInfer show_int_safe [of i] show_int_safe [of n] show_int_length [OF v(1)] show_int_length [OF v(2)]
      parse_line [of "''INFER '' @ show_int i @ '' '' @ show_int n" "p @ newline # ''END'' @ newline # s"]
      infer_args_show [OF v(1,2)] read_plain_body [OF v(3), of s] safe_prompt_c_str [OF v(3)]
    by (simp add: parse_request_def infer_message_def)
next
  case (ReqNpuLoad m b c t)
  then have v: "plain_word m" "plain_word b" "int32 c" "int32 t" using assms by simp_all
  have w: "set m \<inter> {newline, nul} = {}" "set b \<inter> {newline, nul} = {}" "length m \<le> 511" "length b \<le> 511"
    using plain_word_safe [OF v(1)] plain_word_safe [OF v(2)] by simp_all
  then have "c_str m = m" "c_str b = b" "c_str (show_int c) = show_int c" "c_str (show_int t) = show_int t"
    using show_int_safe [of c] show_int_safe [of t] by (auto intro!: c_str_id)
  then show ?thesis
    using ReqNpuLoad w show_int_safe [of c] show_int_safe [of t] show_int_length [OF v(3)] show_int_length [OF v(4)]
      parse_line [of "''NPU_LOAD '' @ m @ '' '' @ b @ '' '' @ show_int c @ '' '' @ show_int t" s]
      npu_load_args_show [OF v]
    by (simp add: parse_request_def npu_load_message_def)
next
  case (ReqNpuInfer n p)
  then have v: "int32 n" "safe_prompt p" using assms by simp_all
  have "atoi (show_int n @ [newline]) = n"
    using v(1) not_digit_sep by (intro atoi_show) (simp_all add: int32_def)
  then show ?thesis
    using ReqNpuInfer show_int_safe [of n] show_int_length [OF v(1)]
      parse_line [of "''NPU_INFER '' @ show_int n" "p @ newline # ''END'' @ newline # s"]
      read_plain_body [OF v(2), of s] safe_prompt_c_str [OF v(2)]
    by (simp add: parse_request_def npu_infer_message_def)
next
  case ReqHello
  then show ?thesis using parse_line [of "''HELLO''" s] by (simp add: parse_request_def)
next
  case ReqOther
  then show ?thesis using parse_line [of "[]" s] by (simp add: parse_request_def)
qed

subsection \<open>Properties\<close>

text \<open>
  C5: The daemon refines the abstract server.  Whatever bytes a client sends to a loaded daemon, if
  serving them does not fault then the reply lines and the changes of the session cache are those of
  a run of the abstract server on the requests the bytes stand for; what the requests are depends on
  the bytes alone.
\<close>

theorem daemon_refines_server:
  assumes "daemon_ok e d" "le_sessions (d_engine d) = Some s" and "client_loop e en input d = Inr d'"
  shows "\<exists>s' ls. le_sessions (d_engine d') = Some s' \<and>
    serve_run (parse_requests input) (abs_lru s) ls (abs_lru s') \<and> d_out d' = d_out d @ unlines ls"
proof -
  have "holds d s" using assms(1,2) by (simp add: holds_def daemon_ok_def engine_ok_def sm_good_def)
  from run_requests_sim [OF this assms(3) [unfolded client_loop_requests]] show ?thesis
    by (auto simp: holds_def)
qed

theorem daemon_refines_server_witness:
  "\<exists>s s' ls (d' :: daemon). serve_run [ReqHello, ReqKill 2, ReqOther, ReqInfer 1 2 ''hi'', ReqNpuInfer 1 []] (abs_lru s) ls (abs_lru s') \<and>
     ls \<noteq> [] \<and> le_sessions (d_engine d') = Some s' \<and> d_out d' = unlines ls"
proof -
  let ?e = "demo_env 60"
  have "parse_requests demo_input = [ReqHello, ReqKill 2, ReqOther, ReqInfer 1 2 ''hi'', ReqNpuInfer 1 []] \<and>
    with_engine (\<lambda>g w. case client_loop ?e ?e demo_input (serving g w) of Inl f \<Rightarrow> False | Inr d' \<Rightarrow> d_out d' \<noteq> [])"
    by code_simp
  then have p: "parse_requests demo_input = [ReqHello, ReqKill 2, ReqOther, ReqInfer 1 2 ''hi'', ReqNpuInfer 1 []]"
    and "with_engine (\<lambda>g w. case client_loop ?e ?e demo_input (serving g w) of Inl f \<Rightarrow> False | Inr d' \<Rightarrow> d_out d' \<noteq> [])"
    by blast+
  from this(2) obtain g w s where d: "engine_ok ?e g w" "le_sessions g = Some s"
    and o: "case client_loop ?e ?e demo_input (serving g w) of Inl f \<Rightarrow> False | Inr d' \<Rightarrow> d_out d' \<noteq> []"
    by (rule with_engineE) blast
  obtain d' where r: "client_loop ?e ?e demo_input (serving g w) = Inr d'"
    by (cases "client_loop ?e ?e demo_input (serving g w)") (use o in auto)
  have s: "le_sessions (d_engine (serving g w)) = Some s" "d_out (serving g w) = []" using d(2) by (simp_all add: serving_def)
  from daemon_refines_server [OF serving_ok [OF d(1)] s(1) r] obtain s' ls
    where x: "le_sessions (d_engine d') = Some s'" "d_out d' = unlines ls"
      "serve_run (parse_requests demo_input) (abs_lru s) ls (abs_lru s')" unfolding s(2) by auto
  have "ls \<noteq> []" using x(2) o r by auto
  then show ?thesis
    using x(1,2) x(3) [unfolded p]
    by blast
qed

text \<open>
  C16: Requests written by a client one after the other are read back as exactly these requests, and
  the daemon executes them in that order: numbers are in range, paths are words, and no line of a
  prompt starts with the end marker.
\<close>

theorem requests_round_trip:
  assumes "list_all plain_request qs"
  shows "parse_requests (concat (map render qs)) = qs \<and>
    client_loop e en (concat (map render qs)) d = runR (exec_request e en) qs d"
proof -
  have "parse_requests (concat (map render qs)) = qs"
    using assms
  proof (induction qs)
    case Nil
    then show ?case by (simp add: parse_requests.simps)
  next
    case (Cons q qs)
    then show ?case by (simp add: parse_render)
  qed
  then show ?thesis by (simp add: client_loop_requests)
qed

theorem requests_round_trip_witness:
  "parse_requests (concat (map render [ReqCreate 7, ReqInfer 7 (- 1) (''a'' @ [newline] @ ''b''), ReqNpuLoad ''m'' ''d'' 16 4, ReqColdLimit 100]))
     = [ReqCreate 7, ReqInfer 7 (- 1) (''a'' @ [newline] @ ''b''), ReqNpuLoad ''m'' ''d'' 16 4, ReqColdLimit 100]"
proof -
  have "safe_prompt (''a'' @ [newline] @ ''b'')" by code_simp
  then have "list_all plain_request [ReqCreate 7, ReqInfer 7 (- 1) (''a'' @ [newline] @ ''b''), ReqNpuLoad ''m'' ''d'' 16 4, ReqColdLimit 100]"
    by (simp add: int32_def plain_word_def is_space_def)
  from requests_round_trip [OF this] show ?thesis by blast
qed

end
