(* ===== verification/Process.thy ===== *)
theory Process
  imports Requests Hal_Service
begin

text \<open>
  The process as a whole: the main thread, which serves the control socket, and the binder service
  with its threads work on the same engine.  A step is a call or a thread turn of the service, or a
  turn of the main thread: one request, or one step of an inference, of the same steps
  (\<open>infer_turn\<close>) that the threads of the service take, or the line that ends it.
\<close>

subsection \<open>State and steps\<close>

datatype job =
    Listening \<comment> \<open>at the top of the command loop\<close>
  | Serving int int string infer_phase \<comment> \<open>in \<open>INFER\<close>: session, \<open>maxTokens\<close>, prompt and the phase of \<open>infer\<close>\<close>

record process =
  p_service :: hal \<comment> \<open>with the engine both share\<close>
  p_npu :: npu_engine
  p_npuHist :: history
  p_output :: string \<comment> \<open>written on the socket\<close>
  p_requests :: "request list" \<comment> \<open>what the client has sent and the main thread not yet read\<close>
  p_job :: job

definition as_daemon :: "process \<Rightarrow> daemon" where
  "as_daemon p =
     \<lparr>d_engine = h_engine (p_service p), d_hist = h_hist (p_service p), d_npu = p_npu p,
      d_npuHist = p_npuHist p, d_out = p_output p\<rparr>"

definition with_daemon :: "daemon \<Rightarrow> process \<Rightarrow> process" where
  "with_daemon d p =
     p\<lparr>p_service := (p_service p)\<lparr>h_engine := d_engine d, h_hist := d_hist d\<rparr>,
       p_npu := d_npu d, p_npuHist := d_npuHist d, p_output := d_out d\<rparr>"

definition begin_infer :: "int \<Rightarrow> int \<Rightarrow> string \<Rightarrow> process \<Rightarrow> process" where
  \<comment> \<open>the \<open>INFER\<close> command up to the call of \<open>infer\<close>\<close>
  "begin_infer i n prompt p =
     (if \<not> d_ready (as_daemon p) then with_daemon (puts ''ERROR engine not ready'' (as_daemon p)) p
      else p\<lparr>p_job := Serving i n prompt Start\<rparr>)"

definition done_reply :: "bool \<Rightarrow> string" where
  "done_reply ok = (if ok then ''DONE'' else ''ERROR SESSION_NOT_FOUND'')"

definition main_turn :: "llama_env \<Rightarrow> llama_env \<Rightarrow> process \<Rightarrow> process result" where
  "main_turn e en p =
     (let d = as_daemon p in
      case p_job p of
        Listening \<Rightarrow>
          (case p_requests p of
             [] \<Rightarrow> Inr p
           | q # qs \<Rightarrow>
               let p' = p\<lparr>p_requests := qs\<rparr> in
               (case q of
                  ReqInfer i n prompt \<Rightarrow> Inr (begin_infer i n prompt p')
                | _ \<Rightarrow> bindR (exec_request e en q d) (\<lambda>d'. Inr (with_daemon d' p'))))
      | Serving i n prompt (Returned ok) \<Rightarrow>
          Inr (with_daemon (puts (done_reply ok) d) p\<lparr>p_job := Listening\<rparr>)
      | Serving i n prompt ph \<Rightarrow>
          bindR (infer_turn e i prompt n None token_line ph (d_engine d) (d_hist d) (d_out d)) (\<lambda>(ph', g', w', out').
            Inr (with_daemon (d\<lparr>d_engine := g', d_hist := w', d_out := out'\<rparr>) p
                   \<lparr>p_job := Serving i n prompt ph'\<rparr>)))"

datatype proc_step =
    Service hal_call
  | Main

fun proc_exec :: "llama_env \<Rightarrow> llama_env \<Rightarrow> proc_step \<Rightarrow> process \<Rightarrow> process result" where
  "proc_exec e en (Service c) p = bindR (hal_step e c (p_service p)) (\<lambda>h. Inr (p\<lparr>p_service := h\<rparr>))"
| "proc_exec e en Main p = main_turn e en p"

definition process_start :: "daemon \<Rightarrow> request list \<Rightarrow> process" where
  "process_start d qs =
     \<lparr>p_service = hal_start (d_engine d) (d_hist d), p_npu = d_npu d, p_npuHist = d_npuHist d,
      p_output = d_out d, p_requests = qs, p_job = Listening\<rparr>"

subsection \<open>The main thread by itself\<close>

lemma with_as_daemon [simp]: "as_daemon (with_daemon d p) = d" "with_daemon (as_daemon p) p = p"
  "with_daemon d (with_daemon d' p) = with_daemon d p"
  by (simp_all add: as_daemon_def with_daemon_def)

lemma with_daemon_fields [simp]:
  "p_requests (with_daemon d p) = p_requests p" "p_job (with_daemon d p) = p_job p"
  "as_daemon (p\<lparr>p_requests := qs\<rparr>) = as_daemon p" "as_daemon (p\<lparr>p_job := j\<rparr>) = as_daemon p"
  "with_daemon d (p\<lparr>p_requests := qs\<rparr>) = with_daemon d p\<lparr>p_requests := qs\<rparr>"
  "with_daemon d (p\<lparr>p_job := j\<rparr>) = with_daemon d p\<lparr>p_job := j\<rparr>"
  by (simp_all add: as_daemon_def with_daemon_def)

lemma main_turn_serving:
  assumes "p_job p = Serving i n prompt ph" "\<And>ok. ph \<noteq> Returned ok"
  shows "main_turn e en p =
    bindR (infer_turn e i prompt n None token_line ph (d_engine (as_daemon p)) (d_hist (as_daemon p)) (d_out (as_daemon p)))
      (\<lambda>(ph', g', w', out').
        Inr (with_daemon (as_daemon p\<lparr>d_engine := g', d_hist := w', d_out := out'\<rparr>) p\<lparr>p_job := Serving i n prompt ph'\<rparr>))"
proof (cases ph)
  case (Returned ok)
  then show ?thesis using assms(2) by blast
qed (use assms(1) in \<open>simp_all add: main_turn_def Let_def\<close>)

lemma main_turn_returned:
  "p_job p = Serving i n prompt (Returned ok) \<Longrightarrow>
    main_turn e en p = Inr (with_daemon (puts (done_reply ok) (as_daemon p)) p\<lparr>p_job := Listening\<rparr>)"
  by (simp add: main_turn_def Let_def)

definition main_run :: "llama_env \<Rightarrow> llama_env \<Rightarrow> nat \<Rightarrow> process \<Rightarrow> process result" where
  "main_run e en n p = runR (proc_exec e en) (replicate n Main) p"

lemma main_run_simps [simp]:
  "main_run e en 0 p = Inr p"
  "main_run e en (Suc n) p = bindR (main_turn e en p) (main_run e en n)"
  by (auto simp: main_run_def bindR_def fun_eq_iff split: sum.splits)

lemma main_run_add: "main_run e en (m + n) p = bindR (main_run e en m p) (main_run e en n)"
  by (simp add: main_run_def replicate_add runR_append) (simp add: bindR_def main_run_def split: sum.split)

lemma main_run_last: "main_run e en (Suc n) p = bindR (main_run e en n p) (main_turn e en)"
  using main_run_add [of e en n 1 p] by (simp add: bindR_def split: sum.splits)

lemma same_sessions: "le_sessions g = Some s \<Longrightarrow> g\<lparr>le_sessions := Some s\<rparr> = g"
  by simp

lemma serving_run:
  assumes "infer_left n ph \<le> k" "le_sessions (d_engine (as_daemon p)) = Some s" "le_model (d_engine (as_daemon p)) = Some m"
    and "p_job p = Serving i n prompt ph"
  shows "\<exists>j \<le> k. main_run e en (Suc j) p =
    bindR (infer_steps (infer_turn_on (activateForInfer e) (recordTokens e) e m i prompt n None token_line) k
        (ph, s, d_hist (as_daemon p), d_out (as_daemon p)))
      (\<lambda>(ph', s', w', out'). Inr (with_daemon (puts (done_reply (ph' = Returned True))
        (as_daemon p\<lparr>d_engine := (d_engine (as_daemon p))\<lparr>le_sessions := Some s'\<rparr>, d_hist := w', d_out := out'\<rparr>)) p
          \<lparr>p_job := Listening\<rparr>))"
  using assms
proof (induction k arbitrary: ph p s)
  case 0
  then obtain ok where "ph = Returned ok" by (auto simp: left_0)
  then show ?case
    using 0 by (intro exI [of _ 0]) (simp add: main_turn_returned puts_def same_sessions)
next
  case (Suc k)
  let ?d = "as_daemon p" let ?on = "infer_turn_on (activateForInfer e) (recordTokens e) e m i prompt n None token_line"
  show ?case
  proof (cases "\<exists>ok. ph = Returned ok")
    case True
    then show ?thesis
      using Suc.prems
      by (intro exI [of _ 0]) (auto simp: main_turn_returned steps_returned puts_def same_sessions)
  next
    case False
    then have turn: "main_turn e en p = bindR (?on ph s (d_hist ?d) (d_out ?d)) (\<lambda>(ph', s', w', out').
        Inr (with_daemon (?d\<lparr>d_engine := (d_engine ?d)\<lparr>le_sessions := Some s'\<rparr>, d_hist := w', d_out := out'\<rparr>) p
          \<lparr>p_job := Serving i n prompt ph'\<rparr>))"
      using main_turn_serving [OF Suc.prems(4), of e en] Suc.prems(2,3)
      by (simp add: infer_turn_def bindR_def split: sum.split)
    show ?thesis
    proof (cases "?on ph s (d_hist ?d) (d_out ?d)")
      case (Inl f)
      then show ?thesis using turn by (intro exI [of _ 0]) simp
    next
      case (Inr r)
      obtain ph1 s1 w1 out1 where r: "r = (ph1, s1, w1, out1)" by (metis prod_cases4)
      let ?d1 = "?d\<lparr>d_engine := (d_engine ?d)\<lparr>le_sessions := Some s1\<rparr>, d_hist := w1, d_out := out1\<rparr>"
      let ?p = "with_daemon ?d1 p\<lparr>p_job := Serving i n prompt ph1\<rparr>"
      have "infer_left n ph1 \<le> k" using turn_left [OF Inr [unfolded r]] Suc.prems(1) by simp
      from Suc.IH [OF this, of ?p s1] Suc.prems(3) obtain j where j: "j \<le> k" "main_run e en (Suc j) ?p =
          bindR (infer_steps ?on k (ph1, s1, w1, out1)) (\<lambda>(ph', s', w', out').
            Inr (with_daemon (puts (done_reply (ph' = Returned True))
              (?d1\<lparr>d_engine := (d_engine ?d1)\<lparr>le_sessions := Some s'\<rparr>, d_hist := w', d_out := out'\<rparr>)) p\<lparr>p_job := Listening\<rparr>))"
        by auto
      have "main_run e en (Suc (Suc j)) p = main_run e en (Suc j) ?p"
        unfolding main_run_simps(2) [of _ _ "Suc j" p] using turn Inr r by simp
      then show ?thesis unfolding j(2) using j(1) Inr r by (intro exI [of _ "Suc j"]) simp
    qed
  qed
qed

fun turns :: "request \<Rightarrow> nat" where
  \<comment> \<open>at most this many turns serve a request\<close>
  "turns (ReqInfer i n p) = 4 * nat n + 6"
| "turns q = 1"

lemma infer_turns:
  assumes "p_job p = Listening"
  shows "\<exists>j \<le> 4 * nat n + 5. main_run e en j (begin_infer i n prompt p) =
     bindR (exec_request e en (ReqInfer i n prompt) (as_daemon p)) (\<lambda>d'. Inr (with_daemon d' p))"
proof (cases "d_ready (as_daemon p)")
  case False
  then show ?thesis by (intro exI [of _ 0]) (simp add: begin_infer_def)
next
  case ready: True
  let ?d = "as_daemon p" let ?g = "d_engine ?d" let ?p = "p\<lparr>p_job := Serving i n prompt Start\<rparr>"
  have p: "begin_infer i n prompt p = ?p" "as_daemon ?p = ?d" using ready by (simp_all add: begin_infer_def)
  obtain m where m: "le_model ?g = Some m" using ready by (auto simp: d_ready_def engine_isReady_def)
  have idle: "q\<lparr>p_job := Listening\<rparr> = q" if "p_job q = Listening" for q :: process using that by simp
  show ?thesis
  proof (cases "le_sessions ?g")
    case None
    then show ?thesis
      using ready p main_turn_serving [of ?p i n prompt Start e en]
      by (intro exI [of _ 1]) (simp add: infer_def infer_turn_def)
  next
    case (Some s)
    let ?on = "infer_on (activateForInfer e) (recordTokens e) e m i prompt n False token_line s (d_hist ?d) (d_out ?d)"
    obtain j where "j \<le> 4 * nat n + 4" and run: "main_run e en (Suc j) ?p =
        bindR (bindR ?on (\<lambda>(ok, s', w', out'). Inr (Returned ok, s', w', out')))
          (\<lambda>(ph', s', w', out'). Inr (with_daemon (puts (done_reply (ph' = Returned True))
            (?d\<lparr>d_engine := ?g\<lparr>le_sessions := Some s'\<rparr>, d_hist := w', d_out := out'\<rparr>)) p))"
      using serving_run [of n Start "4 * nat n + 4" ?p s m i prompt e en] Some m
      unfolding steps_infer_on [OF order_refl] by (auto simp: idle assms simp del: main_run_simps(2))
    show ?thesis
      unfolding p(1) using \<open>j \<le> 4 * nat n + 4\<close> Some m ready
      by (intro exI [of _ "Suc j"], cases ?on)
        (auto simp: run infer_def done_reply_def puts_def simp del: main_run_simps(2))
  qed
qed

lemma main_turn_other:
  assumes "p_job p = Listening" "p_requests p = q # qs" "\<And>i n prompt. q \<noteq> ReqInfer i n prompt"
  shows "main_turn e en p = bindR (exec_request e en q (as_daemon p)) (\<lambda>d'. Inr (with_daemon d' p\<lparr>p_requests := qs\<rparr>))"
  using assms by (cases q; simp add: main_turn_def Let_def)+

lemma main_turn_infer:
  assumes "p_job p = Listening" "p_requests p = ReqInfer i n prompt # qs"
  shows "main_turn e en p = Inr (begin_infer i n prompt (p\<lparr>p_requests := qs\<rparr>))"
  using assms by (simp add: main_turn_def Let_def)

lemma request_turns:
  assumes "p_job p = Listening" "p_requests p = q # qs"
  shows "\<exists>j \<le> turns q. main_run e en j p =
    bindR (exec_request e en q (as_daemon p)) (\<lambda>d'. Inr (with_daemon d' p\<lparr>p_requests := qs\<rparr>))"
proof (cases "\<exists>i n prompt. q = ReqInfer i n prompt")
  case True
  then obtain i n prompt where q: "q = ReqInfer i n prompt" by blast
  have "p_job (p\<lparr>p_requests := qs\<rparr>) = Listening" using assms(1) by simp
  from infer_turns [OF this, of n e en i prompt] obtain j where "j \<le> 4 * nat n + 5"
    "main_run e en j (begin_infer i n prompt (p\<lparr>p_requests := qs\<rparr>)) =
     bindR (exec_request e en q (as_daemon p)) (\<lambda>d'. Inr (with_daemon d' p\<lparr>p_requests := qs\<rparr>))" using q by auto
  then show ?thesis
    using q main_turn_infer [OF assms(1)] assms(2) by (intro exI [of _ "Suc j"]) simp
next
  case False
  then have "turns q = 1" by (cases q) auto
  then show ?thesis
    using False main_turn_other [OF assms] by (intro exI [of _ 1]) (simp add: bindR_def split: sum.split)
qed

lemma listening_run:
  assumes "p_job p = Listening" "p_requests p = []" shows "main_run e en k p = Inr p"
  using assms by (induction k) (auto simp: main_turn_def Let_def)

lemma main_run_fault: "main_run e en j p = Inl f \<Longrightarrow> j \<le> k \<Longrightarrow> main_run e en k p = Inl f"
  using main_run_add [of e en j "k - j" p] by simp

lemma main_run_requests:
  assumes "p_job p = Listening" "sum_list (map turns (p_requests p)) \<le> k"
  shows "main_run e en k p =
    bindR (runR (exec_request e en) (p_requests p) (as_daemon p)) (\<lambda>d'. Inr (with_daemon d' p\<lparr>p_requests := []\<rparr>))"
  using assms
proof (induction "p_requests p" arbitrary: p k)
  case Nil
  then show ?case using listening_run [of p e en k] by (simp add: with_daemon_def as_daemon_def)
next
  case (Cons q qs)
  have r: "p_requests p = q # qs" using Cons(2) by simp
  from request_turns [OF Cons.prems(1) r, of e en] obtain j where j: "j \<le> turns q"
    "main_run e en j p = bindR (exec_request e en q (as_daemon p)) (\<lambda>d'. Inr (with_daemon d' p\<lparr>p_requests := qs\<rparr>))" by blast
  have k: "turns q + sum_list (map turns qs) \<le> k" using Cons.prems(2) r by simp
  show ?case
  proof (cases "exec_request e en q (as_daemon p)")
    case (Inl f)
    then show ?thesis using main_run_fault [of e en j p f k] j k Inl r by simp
  next
    case (Inr d)
    let ?p = "with_daemon d p\<lparr>p_requests := qs\<rparr>"
    have "main_run e en k p = main_run e en (k - j) ?p"
      using main_run_add [of e en j "k - j" p] j k Inr by simp
    also have "\<dots> = bindR (runR (exec_request e en) qs d) (\<lambda>d'. Inr (with_daemon d' p\<lparr>p_requests := []\<rparr>))"
      using Cons.hyps(1) [of ?p "k - j"] Cons.prems(1) j(1) k by simp
    finally show ?thesis using Inr r by simp
  qed
qed

subsection \<open>Properties\<close>

lemma accept_clients:
  assumes "list_all (\<lambda>(fd, dup, input). 0 \<le> dup) cs"
  shows "accept_loop e en True (map (\<lambda>(fd, dup, input). Client fd True dup True input False) cs) d =
    bindR (runR (exec_request e en) (concat (map (\<lambda>(fd, dup, input). parse_requests input) cs)) d) (\<lambda>d'. Inr (None, d'))"
  using assms
proof (induction cs arbitrary: d)
  case (Cons c cs)
  obtain fd dup input where c: "c = (fd, dup, input)" by (cases c) auto
  then have "0 \<le> dup" using Cons.prems by simp
  then have h: "HandleClient e en fd True dup True input d =
      bindR (runR (exec_request e en) (parse_requests input) d) (\<lambda>d'. Inr ([dup, fd], d'))"
    by (simp add: HandleClient_def client_loop_requests)
  show ?case
    using Cons c by (cases "runR (exec_request e en) (parse_requests input) d") (simp_all add: h runR_append)
qed simp

text \<open>
  The turns of the main thread, when no other thread runs, are the sequential program: with the
  requests of any number of clients, one after the other, enough turns (at most four times \<open>maxTokens\<close>
  and six for an inference, one for any other request) bring the process to the state, the history of
  library calls and the output in which \<open>accept_loop\<close> has served these clients, and it faults exactly if
  \<open>accept_loop\<close> does.  The steps of an inference (\<open>infer_turn_on\<close>) and \<open>infer\<close> are two translations of
  the same lines, which this compares; a request that is not an inference is one turn of
  \<open>exec_request\<close>, and for these the theorem is about \<open>parse_requests\<close> and the loop.
\<close>

theorem main_thread_serves:
  assumes "list_all (\<lambda>(fd, dup, input). 0 \<le> dup) cs"
    and "qs = concat (map (\<lambda>(fd, dup, input). parse_requests input) cs)" and "sum_list (map turns qs) \<le> k"
  shows "main_run e en k (process_start d qs) =
    bindR (accept_loop e en True (map (\<lambda>(fd, dup, input). Client fd True dup True input False) cs) d)
      (\<lambda>(status, d'). Inr (process_start d' []))"
proof -
  have start: "as_daemon (process_start d qs) = d" "with_daemon d' (process_start d qs)\<lparr>p_requests := []\<rparr> = process_start d' []"
    "p_job (process_start d qs) = Listening" "p_requests (process_start d qs) = qs" for d d' qs
    by (simp_all add: process_start_def as_daemon_def with_daemon_def hal_start_def)
  have "main_run e en k (process_start d qs) = bindR (runR (exec_request e en) qs d) (\<lambda>d'. Inr (process_start d' []))"
    using main_run_requests [of "process_start d qs" k e en] assms(3) unfolding start by simp
  also have "\<dots> = bindR (accept_loop e en True (map (\<lambda>(fd, dup, input). Client fd True dup True input False) cs) d)
      (\<lambda>(status, d'). Inr (process_start d' []))"
    unfolding accept_clients [OF assms(1)] assms(2) by (simp add: bindR_def split: sum.split)
  finally show ?thesis .
qed

theorem main_thread_serves_witness:
  "\<exists>g w d'. demo_engine = Inr (g, w) \<and>
     main_run (demo_env 60) (demo_env 60) 15 (process_start (serving g w) [ReqHello, ReqInfer 1 2 ''hi'']) = Inr (process_start d' []) \<and>
     d_out d' = ''HELLO from miniv_ai'' @ [newline] @ ''TOKEN Cw=='' @ [newline] @ ''TOKEN Dg=='' @ [newline] @ ''DONE'' @ [newline] \<and>
     engine_tokens (d_engine d') 1 = Some [7, 104, 105, 11, 14]"
proof -
  let ?e = "demo_env 60" let ?qs = "[ReqHello, ReqInfer 1 2 ''hi'']"
  let ?cs = "[(7, 8, ''HELLO'' @ [newline]), (7, 8, ''INFER 1 2'' @ [newline] @ ''hi'' @ [newline] @ ''END'' @ [newline])] :: (int \<times> int \<times> string) list"
  let ?run = "\<lambda>g w. accept_loop ?e ?e True (map (\<lambda>(fd, dup, input). Client fd True dup True input False) ?cs) (serving g w)"
  let ?out = "''HELLO from miniv_ai'' @ [newline] @ ''TOKEN Cw=='' @ [newline] @ ''TOKEN Dg=='' @ [newline] @ ''DONE'' @ [newline]"
  have q: "?qs = concat (map (\<lambda>(fd, dup, input). parse_requests input) ?cs)" by code_simp
  have "with_engine (\<lambda>g w. case ?run g w of Inl f \<Rightarrow> False | Inr (st, d') \<Rightarrow>
      d_out d' = ?out \<and> engine_tokens (d_engine d') 1 = Some [7, 104, 105, 11, 14])" by code_simp
  then obtain g w where d: "demo_engine = Inr (g, w)"
    and o: "case ?run g w of Inl f \<Rightarrow> False | Inr (st, d') \<Rightarrow> d_out d' = ?out \<and> engine_tokens (d_engine d') 1 = Some [7, 104, 105, 11, 14]"
    by (rule with_engineE) blast
  obtain st d' where r: "?run g w = Inr (st, d')" using o by (cases "?run g w") auto
  have "list_all (\<lambda>(fd :: int, dup, input :: string). 0 \<le> dup) ?cs" "sum_list (map turns ?qs) \<le> 15" by simp_all
  from main_thread_serves [OF this(1) q this(2), of ?e ?e "serving g w"] show ?thesis using o d unfolding r by auto
qed

end
