(* ===== verification/Hal_Contexts.thy ===== *)
theory Hal_Contexts
  imports Hal_Props
begin

text \<open>
  The threads of the service decode on contexts that belong to the session manager, which any other
  call may free.  What a client has to observe so that this never happens, and what happens to a
  client that does not.
\<close>

subsection \<open>The context of a session\<close>

definition ctx_of :: "session_manager \<Rightarrow> int \<Rightarrow> ctx option" where
  "ctx_of s i = Option.bind (mSessions s i) m_ctx"

definition room :: "session_manager \<Rightarrow> bool" where
  \<comment> \<open>there are no more sessions than may be HOT\<close>
  "room s \<longleftrightarrow> card (dom (mSessions s)) \<le> unat (mHotLimit s)"

lemma inv_finite: "sm_inv s \<Longrightarrow> finite (dom (mSessions s))"
  by (simp add: sm_inv_def inv_on_def)

lemma ctx_of_hot: "sm_inv s \<Longrightarrow> ctx_of s i = Some c \<Longrightarrow> \<exists>m. mSessions s i = Some m \<and> m_state m = HOT \<and> m_ctx m = Some c"
  using inv_meta [of s i] by (auto simp: ctx_of_def meta_ok_def bind_eq_Some_conv)

lemma ctx_of_live:
  assumes "res_inv s w" "ctx_of s i = Some c" shows "c \<in> live w"
proof -
  have "c \<in> ctxs s" using assms(2) by (auto simp: ctx_of_def ctxs_def bind_eq_Some_conv)
  then show ?thesis using assms(1) by (simp add: res_inv_def res_on_def)
qed

lemma kill_frees:
  assumes inv: "sm_inv s" and c: "ctx_of s i = Some c"
  shows "\<exists>s'. killSession i s w = Inr (True, s', LlamaFree c # w)"
proof -
  obtain m where m: "mSessions s i = Some m" "m_state m = HOT" "m_ctx m = Some c" using ctx_of_hot [OF assms] by blast
  show ?thesis
    using inv by (cases rule: kill_cases [where i = i and w = w]) (use m in \<open>auto simp: swapped_def\<close>)
qed

lemma room_hot:
  assumes "sm_inv s" "room s" "mSessions s i = Some m" "m_state m = COLD"
  shows "length (mHotLru s) < unat (mHotLimit s)"
proof -
  have "set (ids (mHotLru s)) \<subseteq> dom (mSessions s) - {i}"
    using inv_hot_ids [OF assms(1)] assms(3,4) by (fastforce simp: dom_def)
  then have "card (set (ids (mHotLru s))) \<le> card (dom (mSessions s) - {i})"
    using inv_finite [OF assms(1)] by (intro card_mono) auto
  also have "\<dots> < card (dom (mSessions s))"
    using inv_finite [OF assms(1)] assms(3) by (intro psubset_card_mono) auto
  finally show ?thesis
    using assms(2) distinct_card [OF inv_hot_distinct [OF assms(1)]] by (simp add: room_def)
qed

subsection \<open>What the calls leave alone\<close>

definition frames :: "session_manager \<Rightarrow> session_manager \<Rightarrow> bool" where
  \<comment> \<open>no session is created or destroyed and no context taken from its session\<close>
  "frames s s' \<longleftrightarrow> dom (mSessions s') = dom (mSessions s) \<and> mHotLimit s' = mHotLimit s \<and>
     (\<forall>j c. ctx_of s j = Some c \<longrightarrow> ctx_of s' j = Some c)"

lemma frames_trans: "frames s t \<Longrightarrow> frames t u \<Longrightarrow> frames s u"
  by (simp add: frames_def)

lemma frames_refl [simp]: "frames s s"
  by (simp add: frames_def)

lemma frames_room: "frames s s' \<Longrightarrow> room s \<Longrightarrow> room s'"
  by (simp add: frames_def room_def)

lemma frames_put:
  assumes "mSessions s i = Some m" "mHotLimit s' = mHotLimit s" "mSessions s' = (mSessions s)(i \<mapsto> m')"
    and "m_ctx m = None \<or> m_ctx m' = m_ctx m"
  shows "frames s s'"
  using assms by (auto simp: frames_def ctx_of_def)

lemma record_frames: "recordTokens e i ts s w = Inr (s', w') \<Longrightarrow> frames s s'"
  by (auto simp: recordTokens_def touchHot_def now_ms_def Let_def bindR_Inr_iff
      intro!: frames_put split: option.splits if_splits)

lemma swapIn_frames:
  assumes "swapIn e i c s w = Inr (ok, s', w')"
  shows "frames s s'" and "ctx_of s' i = ctx_of s i"
  using assms
  by (auto simp: swapIn_def Let_def ctx_of_def bindR_Inr_iff intro!: frames_put split: option.splits if_splits prod.splits)

lemma make_hot_frames:
  "make_hot e i c s w = Inr (s', w') \<Longrightarrow> ctx_of s i = None \<Longrightarrow> frames s s'"
  by (auto simp: make_hot_def now_ms_def Let_def ctx_of_def intro!: frames_put split: option.splits)

lemma activate_frames:
  assumes inv: "sm_inv s" and r: "room s" and a: "activateForInfer e i s w = Inr (res, s', w')"
  shows "frames s s'"
  using inv
proof (cases rule: activate_spec [where e = e and i = i and w = w])
  case (hot m c)
  then show ?thesis using a by (auto simp: touched_def intro!: frames_put)
next
  case (cold m k s1 w1 r' s2 w2)
  have "evictHotIfNeeded e i s w = Inr (s, w)"
    using room_hot [OF inv r cold(1,2)] by (simp add: evictHotIfNeeded.simps [of e i s w])
  with a cold(1,2) have "s' = s \<or> (\<exists>c ok s2 w2 w3.
      (s2 = s \<or> swapIn e i c s w2 = Inr (ok, s2, w3)) \<and> (s' = s2 \<or> (\<exists>w3 w4. make_hot e i c s2 w3 = Inr (s', w4))))"
    by (auto simp: activateForInfer_def Let_def bindR_Inr_iff split: option.splits if_splits) blast+
  moreover have "ctx_of s i = None"
    using inv_meta [OF inv cold(1)] cold(1,2) by (simp add: ctx_of_def meta_ok_def)
  ultimately show ?thesis
    by (auto intro: make_hot_frames swapIn_frames)
      (metis frames_trans make_hot_frames swapIn_frames)
qed (use a in auto)


lemma activate_ctx:
  "sm_inv s \<Longrightarrow> activateForInfer e i s w = Inr (Some c, s', w') \<Longrightarrow> ctx_of s' i = Some c"
  using activate_owner by (fastforce simp: ctx_of_def)

lemma activate_room_total:
  \<comment> \<open>with room there is no eviction, and so no dangling reference\<close>
  assumes inv: "sm_inv s" and r: "room s"
  shows "\<exists>res s' w'. activateForInfer e i s w = Inr (res, s', w')"
proof (cases "activateForInfer e i s w")
  case (Inl f)
  show ?thesis
    using inv
  proof (cases rule: activate_spec [where e = e and i = i and w = w])
    case (dangling m)
    then show ?thesis using room_hot [OF inv r dangling(1)] by (simp add: swapped_def)
  qed (use Inl in auto)
qed (metis prod_cases3)

definition uses_own :: "session_manager \<Rightarrow> int \<Rightarrow> infer_phase \<Rightarrow> bool" where
  \<comment> \<open>the context an inference is using is that of its session\<close>
  "uses_own s i ph \<longleftrightarrow> (\<forall>c. phase_ctx ph = Some c \<longrightarrow> ctx_of s i = Some c)"

lemma uses_own_frames: "frames s s' \<Longrightarrow> uses_own s i ph \<Longrightarrow> uses_own s' i ph"
  by (auto simp: uses_own_def frames_def)

lemma infer_turn_safe:
  assumes good: "sm_good e s w" and r: "room s" and own: "uses_own s i ph" and n: "0 \<le> n"
  shows "case infer_turn_on (activateForInfer e) (recordTokens e) e m i prompt n cancel f ph s w out of
      Inl x \<Rightarrow> x = LengthError \<and> \<not> piece_fits e
    | Inr (ph', s', w', out') \<Rightarrow> sm_good e s' w' \<and> frames s s' \<and> uses_own s' i ph'"
proof -
  let ?turn = "infer_turn_on (activateForInfer e) (recordTokens e) e m i prompt n cancel f ph s w out"
  have inv: "sm_inv s" using good by (simp add: sm_good_def)
  have live: "c \<in> live w" if "phase_ctx ph = Some c" for c
    using own that ctx_of_live good by (auto simp: uses_own_def sm_good_def)
  obtain ctx s1 w1 where act: "activateForInfer e i s w = Inr (ctx, s1, w1)" using activate_room_total [OF inv r] by blast
  obtain sr wr where rec: "recordTokens e i ts s w = Inr (sr ts, wr ts)" for ts
    using record_spec [OF inv, of e i _ w] by metis
  note F = record_frames [OF rec] and A = activate_frames [OF inv r act] activate_ctx [OF inv, of e i w _ s1 w1]
  show ?thesis
  proof (cases ?turn)
    case (Inl x)
    then have "x = LengthError \<and> \<not> piece_fits e"
      using act rec n
      by (cases rule: infer_phase_cases [of ph]) (auto simp: piece_fits_def not_le split: if_splits intro: exI)
    then show ?thesis using Inl by simp
  next
    case (Inr y)
    obtain ph' s' w' out' where y: "?turn = Inr (ph', s', w', out')" using Inr by (metis prod_cases4)
    have fr: "frames s s'"
      using y act rec F A(1) by (cases rule: infer_phase_cases [of ph]) (auto split: if_splits)
    have "uses_own s' i ph'"
      using y act rec uses_own_frames [OF fr own] A(2)
      by (cases rule: infer_phase_cases [of ph]) (auto simp: uses_own_def split: option.splits if_splits)
    then show ?thesis using y fr smp.turn_inv [OF good live y] by simp
  qed
qed

subsection \<open>The discipline of the clients\<close>

definition disciplined :: "(int \<times> ctx) set \<Rightarrow> hal_call \<Rightarrow> hal \<Rightarrow> bool" where
  \<comment> \<open>a session is destroyed only after the last callback of its streams, there are never more
    sessions than may be HOT, and \<open>maxTokens\<close> is not negative.  \<open>H\<close>: the sessions, with their
    contexts, that are in use outside the service\<close>
  "disciplined H c h \<longleftrightarrow>
     (case c of
        CallCreateSession i \<Rightarrow>
          (case le_sessions (h_engine h) of
             None \<Rightarrow> True
           | Some s \<Rightarrow> mSessions s i \<noteq> None \<or> card (dom (mSessions s)) < unat (mHotLimit s))
      | CallDestroySession i \<Rightarrow> 
          i \<notin> fst ` H \<and> (\<forall>t \<in> set (h_threads h). th_session t = i \<longrightarrow> th_phase t = Exited)
      | CallInferStream i prompt n \<Rightarrow> 0 \<le> n
      | _ \<Rightarrow> True)"

definition holds_ctx :: "session_manager \<Rightarrow> hal_thread \<Rightarrow> bool" where
  "holds_ctx s t \<longleftrightarrow> 0 \<le> th_maxTokens t \<and> (\<forall>ph. th_phase t = Inferring ph \<longrightarrow> uses_own s (th_session t) ph)"

definition hal_safe :: "(int \<times> ctx) set \<Rightarrow> llama_env \<Rightarrow> hal \<Rightarrow> bool" where
  \<comment> \<open>every thread that decodes does so on the context of its session, and so do the users in \<open>H\<close>\<close>
  "hal_safe H e h \<longleftrightarrow> hal_inv h \<and> engine_ok e (h_engine h) (h_hist h) \<and> ctx_safe (h_hist h) \<and>
     (\<forall>s. le_sessions (h_engine h) = Some s \<longrightarrow> room s \<and>
       (\<forall>t \<in> set (h_threads h). holds_ctx s t) \<and> (\<forall>(i, c) \<in> H. ctx_of s i = Some c))"

lemma holds_frames: "frames s s' \<Longrightarrow> holds_ctx s t \<Longrightarrow> holds_ctx s' t"
  by (auto simp: holds_ctx_def intro: uses_own_frames)

lemma hal_safe_reply [simp]: "hal_safe H e (h\<lparr>h_replies := rs\<rparr>) = hal_safe H e h"
  by (simp add: hal_safe_def hal_inv_reply)

lemma hal_safe_sessions:
  assumes "hal_safe H e h" "hal_inv h'" "le_sessions (h_engine h) = Some s"
    and "h_engine h' = (h_engine h)\<lparr>le_sessions := Some s'\<rparr>" "sm_good e s' (h_hist h')" "room s'"
    and "\<And>t. t \<in> set (h_threads h') \<Longrightarrow> holds_ctx s' t"
    and "\<And>i c. (i, c) \<in> H \<Longrightarrow> ctx_of s' i = Some c"
  shows "hal_safe H e h'"
  using assms by (auto simp: hal_safe_def engine_ok_def sm_good_def res_inv_def dest: res_onD(3))

lemma create_safe:
  assumes "hal_safe H e h" "disciplined H (CallCreateSession i) h" "hal_createSession e i h = Inr h'"
  shows "hal_safe H e h'"
proof (cases "le_sessions (h_engine h)")
  case None
  then show ?thesis
    using assms
    by (auto simp: hal_createSession_def hal_safe_def engine_ok_def engine_isReady_def hal_inv_reply split: if_splits)
next
  case (Some s)
  have inv: "hal_inv h'" using create_hal assms(1,3) by (auto simp: hal_safe_def)
  have g: "sm_good e s (h_hist h)" "room s" "engine_isReady (h_engine h)"
    and T: "\<And>t. t \<in> set (h_threads h) \<Longrightarrow> holds_ctx s t" "\<And>i c. (i, c) \<in> H \<Longrightarrow> ctx_of s i = Some c"
    using assms(1) Some by (auto simp: hal_safe_def engine_ok_def engine_isReady_def)
  obtain ok s' w' where c: "createSession e i s (h_hist h) = (ok, s', w')" by (metis prod_cases3)
  have good: "sm_good e s' w'"
    using g(1) create_inv [OF _ c] create_res [OF _ c] by (auto simp: sm_good_def)
  have lim: "mHotLimit s' = mHotLimit s" and ctx: "\<And>j d. ctx_of s j = Some d \<Longrightarrow> ctx_of s' j = Some d"
    and dom: "dom (mSessions s') = insert i (dom (mSessions s))"
    using c by (auto simp: createSession_def now_ms_def Let_def ctx_of_def split: if_splits)
  have "room s'"
    using g(2) assms(2) Some dom lim inv_finite [of s] g(1)
    by (auto simp: disciplined_def room_def sm_good_def card_insert_if dest: insert_absorb)
  moreover have "holds_ctx s' t" if "t \<in> set (h_threads h)" for t
    using T(1) [OF that] ctx by (auto simp: holds_ctx_def uses_own_def)
  ultimately show ?thesis
    using assms(3) Some g(3) c good inv T(2) ctx
    by (intro hal_safe_sessions [OF assms(1) inv Some, of s']) (auto simp: hal_createSession_def)
qed

lemma destroy_safe:
  assumes "hal_safe H e h" "disciplined H (CallDestroySession i) h" "hal_destroySession i h = Inr h'"
  shows "hal_safe H e h'"
proof (cases "le_sessions (h_engine h)")
  case None
  then show ?thesis
    using assms
    by (auto simp: hal_destroySession_def hal_safe_def engine_ok_def engine_isReady_def hal_inv_reply split: if_splits)
next
  case (Some s)
  have inv: "hal_inv h'" using destroy_hal [of h i] assms(1,3) by (auto simp: hal_safe_def)
  have g: "sm_inv s" "res_inv s (h_hist h)" "fresh_init e" "room s" "engine_isReady (h_engine h)"
    and T: "\<And>t. t \<in> set (h_threads h) \<Longrightarrow> holds_ctx s t" "\<And>i c. (i, c) \<in> H \<Longrightarrow> ctx_of s i = Some c"
    using assms(1) Some by (auto simp: hal_safe_def engine_ok_def sm_good_def engine_isReady_def)
  obtain ok s' w' where k: "killSession i s (h_hist h) = Inr (ok, s', w')"
    using kill_total [OF g(1)] by blast
  have S: "mSessions s' = (mSessions s)(i := None)" "mHotLimit s' = mHotLimit s"
    using g(1) by (cases rule: kill_cases [where i = i and w = "h_hist h"]; use k in \<open>auto simp: fun_upd_idem\<close>)+
  have "card (dom (mSessions s')) \<le> card (dom (mSessions s))"
    using S(1) inv_finite [OF g(1)] by (auto intro: card_mono)
  then have "room s'" using g(4) S(2) by (simp add: room_def)
  moreover have "sm_good e s' w'" using kill_res [OF g(1,2) k] g(3) by (simp add: sm_good_def)
  moreover have "holds_ctx s' t" if "t \<in> set (h_threads h)" for t
    using T(1) [OF that] that assms(2) S(1) by (auto simp: holds_ctx_def uses_own_def disciplined_def ctx_of_def)
  moreover have H: "ctx_of s' j = Some c" if "(j, c) \<in> H" for j c
  proof -
    have "j \<noteq> i" using that assms(2) by (force simp: disciplined_def)
    then show ?thesis using T(2) [OF that] S(1) by (simp add: ctx_of_def)
  qed
  ultimately show ?thesis
    using assms(3) Some g(5) k inv T(2) H
    by (intro hal_safe_sessions [OF assms(1) inv Some, of s']) (auto simp: hal_destroySession_def)
qed

lemma turn_safe:
  assumes safe: "hal_safe H e h"
  shows "case thread_turn e k h of Inl f \<Rightarrow> f = LengthError \<and> \<not> piece_fits e | Inr h' \<Rightarrow> hal_safe H e h'"
proof -
  have inv: "hal_inv h" using safe by (simp add: hal_safe_def)
  have inv': "hal_inv h'" if "thread_turn e k h = Inr h'" for h'
    using thread_turn_spec [OF inv, of e k] that by simp
  have T: "holds_ctx s t" if "le_sessions (h_engine h) = Some s" "t \<in> set (h_threads h)" for s t
    using safe that by (simp add: hal_safe_def)
  have quiet: "hal_safe H e h'"
    if "thread_turn e k h = Inr h'" "h_engine h' = h_engine h" "h_hist h' = h_hist h"
      "h_threads h' = (h_threads h)[k := t']" "k < length (h_threads h)" "\<And>ph. th_phase t' \<noteq> Inferring ph"
      "th_maxTokens t' = th_maxTokens (h_threads h ! k)" for h' t'
  proof -
    have "h_threads h ! k \<in> set (h_threads h)" using that(5) by simp
    then have "holds_ctx s t'" if "le_sessions (h_engine h) = Some s" for s
      using T [OF that] \<open>th_maxTokens t' = _\<close> \<open>\<And>ph. th_phase t' \<noteq> Inferring ph\<close> by (auto simp: holds_ctx_def)
    then show ?thesis
      using safe that inv' [OF that(1)] T
      by (auto simp: hal_safe_def dest!: set_update_subset_insert [THEN subsetD])
  qed
  show ?thesis
  proof (cases rule: thread_turn_cases [of h k])
    case (inferring ph)
    let ?t = "h_threads h ! k"
    have t: "?t \<in> set (h_threads h)" using inferring(1) by simp
    then have "engine_isReady (h_engine h)" using inv inferring(2) by (auto simp: hal_inv_def)
    then obtain s m where g: "le_sessions (h_engine h) = Some s" "le_model (h_engine h) = Some m" "sm_good e s (h_hist h)"
      using engine_ready_sessions safe unfolding hal_safe_def by blast
    have r: "room s" and H: "\<And>i c. (i, c) \<in> H \<Longrightarrow> ctx_of s i = Some c" using safe g(1) by (auto simp: hal_safe_def)
    have own: "uses_own s (th_session ?t) ph" "0 \<le> th_maxTokens ?t" using T [OF g(1) t] inferring(2) by (auto simp: holds_ctx_def)
    let ?turn = "infer_turn_on (activateForInfer e) (recordTokens e) e m (th_session ?t) (th_prompt ?t)
        (th_maxTokens ?t) (Some (h_cells h ! th_flag ?t)) (thread_callback (th_session ?t)) ph s (h_hist h) (th_calls ?t)"
    note S = infer_turn_safe [OF g(3) r own, of m "th_prompt ?t" "Some (h_cells h ! th_flag ?t)" "thread_callback (th_session ?t)" "th_calls ?t"]
    show ?thesis
    proof (cases ?turn)
      case (Inl x)
      then show ?thesis using S inferring_turn [OF inferring, of e] g by (simp add: infer_turn_def Let_def)
    next
      case (Inr y)
      obtain ph' s' w' calls where x: "?turn = Inr (ph', s', w', calls)" using Inr by (metis prod_cases4)
      then have s': "sm_good e s' w'" "frames s s'" "uses_own s' (th_session ?t) ph'" using S by simp_all
      let ?u = "?t\<lparr>th_phase := Inferring ph', th_calls := calls\<rparr>"
      let ?h = "h\<lparr>h_engine := (h_engine h)\<lparr>le_sessions := Some s'\<rparr>, h_hist := w', h_threads := (h_threads h)[k := ?u]\<rparr>"
      have turn: "thread_turn e k h = Inr ?h" using inferring_turn [OF inferring, of e] g x by (simp add: infer_turn_def Let_def)
      have "holds_ctx s' u" if "u \<in> set (h_threads ?h)" for u
        using that s'(3) own(2) holds_frames [OF s'(2) T [OF g(1)]]
        by (auto simp: holds_ctx_def dest!: set_update_subset_insert [THEN subsetD])
      then have "hal_safe H e ?h"
        using s' H frames_room [OF s'(2) r] by (intro hal_safe_sessions [OF safe inv' [OF turn] g(1), of s']) (auto simp: frames_def)
      then show ?thesis using turn by simp
    qed
  next
    case (returned ok)
    then show ?thesis
      using quiet [of _ "(h_threads h ! k)\<lparr>th_phase := Erased ok\<rparr>"] by (auto simp: thread_turn_def Let_def)
  next
    case (erased ok)
    then show ?thesis
      using quiet [of _ "(h_threads h ! k)\<lparr>th_phase := Exited, th_calls := calls\<rparr>" for calls] by (auto simp: thread_turn_def Let_def)
  qed (use safe in \<open>simp_all add: thread_turn_def Let_def\<close>)
qed

interpretation safe_clients: guarded_machine "hal_step e" "hal_safe H e" "disciplined H"
  "\<lambda>f. f = LengthError \<and> \<not> piece_fits e" for e H
proof unfold_locales
  fix h c h'
  assume inv: "hal_safe H e h" and g: "disciplined H c h" and s: "hal_step e c h = Inr h'"
  show "hal_safe H e h'"
  proof (cases c)
    case (CallInferStream i p n)
    have "hal_inv h'" using s CallInferStream infer_hal inv by (auto simp: hal_safe_def)
    then show ?thesis
      using inv s g CallInferStream
      by (auto simp: hal_safe_def hal_inferStream_def miniv_next_req_id_def Let_def disciplined_def holds_ctx_def uses_own_def
          split: if_splits)
  next
    case (CallCancel i)
    have "hal_inv h'" using s CallCancel cancel_hal inv by (auto simp: hal_safe_def)
    then show ?thesis
      using inv s CallCancel by (auto simp: hal_safe_def hal_cancel_def split: option.splits)
  next
    case (Turn k)
    then show ?thesis using s turn_safe [OF inv, of k] by auto
  next
    case (CallCreateSession i)
    then show ?thesis using s g inv by (auto intro: create_safe)
  next
    case (CallDestroySession i)
    then show ?thesis using s g inv by (auto intro: destroy_safe)
  qed (use inv s in \<open>auto simp: hal_isReady_def hal_getModelInfo_def\<close>)
next
  fix h c f
  assume inv: "hal_safe H e h" and g: "disciplined H c h" and s: "hal_step e c h = Inl f"
  have "hal_inv h" using inv by (simp add: hal_safe_def)
  then show "f = LengthError \<and> \<not> piece_fits e"
  proof (cases c)
    case (CallCreateSession i)
    have "engine_shape (h_engine h)" using \<open>hal_inv h\<close> by (simp add: hal_inv_def)
    then show ?thesis
      using s CallCreateSession
      by (cases rule: engine_shape_cases) (auto simp: hal_createSession_def engine_isReady_def split: if_splits prod.splits)
  next
    case (CallDestroySession i)
    then show ?thesis using s destroy_hal [OF \<open>hal_inv h\<close>, of i] by auto
  next
    case (Turn k)
    then show ?thesis using s turn_safe [OF inv, of k] by auto
  qed (use s in auto)
qed

lemma hal_safe_start:
  assumes "engine_ok e g w" "ctx_safe w" and "\<And>s. le_sessions g = Some s \<Longrightarrow> room s"
  shows "hal_safe {} e (hal_start g w)"
  using assms hal_inv_start [OF assms(1)] by (simp add: hal_safe_def hal_start_def)

subsection \<open>Instances\<close>

lemma exec_dom:
  assumes "sm_inv s" "sm_exec e c (s, w) = Inr (s', w')"
  shows "dom (mSessions s') \<subseteq> dom (mSessions s) \<union> {i. c = Create i}"
  using lru_step_ids [OF sm_exec_sim [OF assms]] by (simp add: abs_lru_def)

lemma run_dom:
  assumes "sm_inv s" "runR (sm_exec e) cs (s, w) = Inr (s', w')"
  shows "dom (mSessions s') \<subseteq> dom (mSessions s) \<union> {i. Create i \<in> set cs}"
  using assms
proof (induction cs arbitrary: s w)
  case (Cons c cs)
  obtain s1 w1 where x: "sm_exec e c (s, w) = Inr (s1, w1)" "runR (sm_exec e) cs (s1, w1) = Inr (s', w')"
    using Cons.prems(2) by (auto simp: bindR_Inr_iff)
  from Cons.IH [OF exec_inv [OF Cons.prems(1) x(1)] x(2)] exec_dom [OF Cons.prems(1) x(1)] show ?case by auto
qed simp

lemma demo_dom:
  assumes "demo_engine = Inr (g, w)" "le_sessions g = Some s"
  shows "dom (mSessions s) \<subseteq> {1, 2}"
proof -
  let ?e = "demo_env 60"
  have z: "le_model (LLMEngine demo_ctx_params) = None" "le_sessions (LLMEngine demo_ctx_params) = None"
    "live [] = {}" "ctx_safe []" by (simp_all add: LLMEngine_def)
  from load_spec [OF demo_fresh [of 60] z, of "[]" "''model.gguf''" 16 4] obtain ok g1 w1
    where L: "load ?e [] ''model.gguf'' 16 4 (LLMEngine demo_ctx_params) [] = Inr (ok, g1, w1)"
      "engine_ok ?e g1 w1" "engine_isReady g1 = ok"
      "ok \<longrightarrow> (\<exists>s. le_sessions g1 = Some s \<and> mSessions s = Map.empty)" by blast
  from assms L(1) obtain s1 where s1: "le_sessions g1 = Some s1"
    and r: "runR (sm_exec ?e) [Create 1, Create 2, Activate 1, Record 1 [7]] (s1, w1) = Inr (s, w)"
    by (auto simp: demo_engine_def bindR_Inr_iff simp del: runR.simps split: option.splits)
  have "sm_inv s1" using L(2) s1 by (simp add: engine_ok_def sm_good_def)
  moreover have "mSessions s1 = Map.empty"
    using L(2-4) s1 by (auto simp: engine_ok_def engine_isReady_def)
  ultimately show ?thesis using run_dom [OF _ r] by auto
qed

lemma demo_safe:
  assumes "demo_engine = Inr (g, w)"
  shows "engine_ok (demo_env 60) g w" "ctx_safe w" "\<And>s. le_sessions g = Some s \<Longrightarrow> room s"
proof -
  show ok: "engine_ok (demo_env 60) g w" by (rule demo_engine_ok(1) [OF assms])
  obtain s m where s: "le_sessions g = Some s" "sm_good (demo_env 60) s w"
    using engine_ready_sessions [OF demo_engine_ok [OF assms]] .
  show "ctx_safe w" using s(2) by (auto simp: sm_good_def res_inv_def dest: res_onD(3))
  have "with_engine (\<lambda>g w. case le_sessions g of None \<Rightarrow> False | Some s \<Rightarrow> mHotLimit s = 3)" by code_simp
  then have "mHotLimit s = 3" unfolding with_engine_def assms sum.case prod.case s(1) option.case .
  moreover have "card (dom (mSessions s)) \<le> card {1, 2 :: int}"
    by (rule card_mono [OF _ demo_dom [OF assms s(1)]]) simp
  ultimately show "room s'" if "le_sessions g = Some s'" for s'
    using that s(1) by (simp add: room_def)
qed

lemma demo_run_safe:
  assumes "hal_run cs = Inr h"
    and "\<And>g w. demo_engine = Inr (g, w) \<Longrightarrow> guardedR (hal_step (demo_env 60)) (disciplined {}) cs (hal_start g w)"
  shows "hal_safe {} (demo_env 60) h"
proof -
  obtain g w where d: "demo_engine = Inr (g, w)" "runR (hal_step (demo_env 60)) cs (hal_start g w) = Inr h"
    using assms(1) by (auto simp: hal_run_def bindR_Inr_iff)
  have "hal_safe {} (demo_env 60) (hal_start g w)"
    using hal_safe_start demo_safe [OF d(1)] by blast
  from safe_clients.guarded_run_keeps [OF this assms(2) [OF d(1)] d(2)] show ?thesis .
qed

lemma demo_create:
  assumes "demo_engine = Inr (g, w)" shows "disciplined {} (CallCreateSession i) (hal_start g w)"
proof -
  have "with_engine (\<lambda>g w. case le_sessions g of None \<Rightarrow> False | Some s \<Rightarrow> mHotLimit s = 3)" by code_simp
  then have "mHotLimit s = 3" if "le_sessions g = Some s" for s
    unfolding with_engine_def assms sum.case prod.case that option.case .
  moreover have "card (dom (mSessions s)) \<le> card {1, 2 :: int}" if "le_sessions g = Some s" for s
    by (rule card_mono [OF _ demo_dom [OF assms that]]) simp
  ultimately show ?thesis by (fastforce simp: disciplined_def hal_start_def split: option.split)
qed

fun quiet_call :: "hal_call \<Rightarrow> bool" where
  \<comment> \<open>disciplined in every state\<close>
  "quiet_call (CallCreateSession i) = False"
| "quiet_call (CallDestroySession i) = False"
| "quiet_call (CallInferStream i prompt n) = (0 \<le> n)"
| "quiet_call c = True"

lemma quiet_guarded: "list_all quiet_call cs \<Longrightarrow> guardedR (hal_step e) (disciplined H) cs h"
proof (induction cs arbitrary: h)
  case (Cons c cs)
  have "disciplined H c h" for h using Cons.prems by (cases c) (auto simp: disciplined_def)
  then show ?case using Cons by (auto split: sum.split)
qed simp

lemma create_engine_ok:
  assumes "engine_ok e (h_engine h) (h_hist h)" "hal_createSession e i h = Inr h'"
  shows "engine_ok e (h_engine h') (h_hist h')"
proof (cases "engine_isReady (h_engine h)")
  case True
  obtain s m where g: "le_sessions (h_engine h) = Some s" "le_model (h_engine h) = Some m" "sm_good e s (h_hist h)"
    using engine_ready_sessions [OF assms(1) True] .
  obtain ok s' w' where c: "createSession e i s (h_hist h) = (ok, s', w')" by (metis prod_cases3)
  have "sm_good e s' w'" using g(3) create_inv [OF _ c] create_res [OF _ c] by (auto simp: sm_good_def)
  then show ?thesis using assms True g(1,2) c by (auto simp: hal_createSession_def engine_ok_def)
qed (use assms in \<open>auto simp: hal_createSession_def\<close>)

subsection \<open>What happens without it\<close>

fun until_use :: "bool \<Rightarrow> infer_phase \<Rightarrow> nat option" where
  \<comment> \<open>the step, counted from 1, that next passes the context to the library, in a thread whose cancel flag
    has this value\<close>
  "until_use flag (Activated c) = Some 1"
| "until_use flag (Checked c k gen) = Some 1"
| "until_use flag (Emitted c k gen tok) = Some 1"
| "until_use flag (Sampled c k gen tok piece) = Some 2"
| "until_use flag (Decoding c (Suc k) gen) = (if flag then None else Some 2)"
| "until_use flag ph = None"

lemma use_at_once:
  assumes "infer_turn_on activate rec e m i prompt n cancel f ph s w out = Inr (ph', s', w', out')"
    and "phase_ctx ph = Some c" "until_use b ph = Some 1"
  shows "s' = s" and "c \<notin> live w \<Longrightarrow> \<not> ctx_safe w'"
  using assms by (cases rule: infer_phase_cases [of ph]; auto split: if_splits)+

lemma use_next:
  assumes "infer_turn_on activate rec e m i prompt n cancel f ph s w out = Inr (ph', s', w', out')"
    and "phase_ctx ph = Some c" "until_use (cancel = Some True) ph = Some 2"
  shows "s' = s" "live w' = live w" "phase_ctx ph' = Some c" "until_use b ph' = Some 1"
  using assms by (cases rule: infer_phase_cases [of ph]; auto split: if_splits option.splits)+

lemma until_use_cases: "until_use b ph = Some n \<Longrightarrow> n = 1 \<or> n = 2"
  by (cases rule: infer_phase_cases [of ph]) (auto split: if_splits)

lemma turns_until_use:
  \<comment> \<open>a thread that goes on with its context, up to its use\<close>
  assumes "k < length (h_threads h)" "th_phase (h_threads h ! k) = Inferring ph" "phase_ctx ph = Some c"
    and "until_use (h_cells h ! th_flag (h_threads h ! k)) ph = Some n"
    and "runR (hal_step e) (replicate n (Turn k)) h = Inr h'"
  shows "le_sessions (h_engine h') = le_sessions (h_engine h) \<and> (c \<notin> live (h_hist h) \<longrightarrow> \<not> ctx_safe (h_hist h'))"
proof -
  have once: "le_sessions (h_engine h') = le_sessions (h_engine h) \<and> (c \<notin> live (h_hist h) \<longrightarrow> \<not> ctx_safe (h_hist h'))"
    if k: "k < length (h_threads h)" "th_phase (h_threads h ! k) = Inferring ph" and c: "phase_ctx ph = Some c" "until_use b ph = Some 1"
      and x: "thread_turn e k h = Inr h'" for h ph b
  proof -
    have ok: "\<And>ok. ph \<noteq> Returned ok" using c(1) by auto
    show ?thesis
    proof (rule inferring_turnE [OF k ok x refl], goal_cases)
      case (1 s m ph' s' w' calls)
      then show ?case using use_at_once [OF 1(3) c] by simp
    qed
  qed
  have ok: "\<And>ok. ph \<noteq> Returned ok" using assms(3) by auto
  consider "n = 1" | "n = 2" using until_use_cases [OF assms(4)] by blast
  then show ?thesis
  proof cases
    case 1
    then show ?thesis using once [OF assms(1-3)] assms(4,5) by (simp add: bindR_Inr_iff)
  next
    case 2
    obtain h1 where h1: "thread_turn e k h = Inr h1" "thread_turn e k h1 = Inr h'"
      using assms(5) 2 by (auto simp: bindR_Inr_iff eval_nat_numeral)
    show ?thesis
    proof (rule inferring_turnE [OF assms(1,2) ok h1(1) refl], goal_cases)
      case (1 s m ph' s' w' calls)
      have u: "until_use (Some (h_cells h ! th_flag (h_threads h ! k)) = Some True) ph = Some 2" using assms(4) 2 by simp
      note N = use_next [OF 1(3) assms(3) u]
      have "le_sessions (h_engine h') = le_sessions (h_engine h1) \<and> (c \<notin> live (h_hist h1) \<longrightarrow> \<not> ctx_safe (h_hist h'))"
        by (rule once [OF _ _ N(3,4) h1(2)]) (simp_all add: 1(4) assms(1))
      then show ?case using 1(1,4) N(1,2) by simp
    qed
  qed
qed

text \<open>
  C23: Destroying a session while one of its streams decodes frees the context under the thread: the
  next step of the thread that uses its context passes the freed context to the library, in every
  state the service can have been brought to safely.  The step comes at once if the thread is about to
  decode or to sample, and after the check of the flag, or the callback, if it is about to do these.
\<close>

theorem destroyed_while_decoding:
  assumes "hal_safe H e h" "k < length (h_threads h)" "th_phase (h_threads h ! k) = Inferring ph"
    and "until_use (h_cells h ! th_flag (h_threads h ! k)) ph = Some n"
    and "runR (hal_step e) (CallDestroySession (th_session (h_threads h ! k)) # replicate n (Turn k)) h = Inr h'"
  shows "ctx_safe (h_hist h) \<and> \<not> ctx_safe (h_hist h')"
proof -
  define t where "t = h_threads h ! k"
  obtain h1 where h1: "hal_destroySession (th_session t) h = Inr h1" "runR (hal_step e) (replicate n (Turn k)) h1 = Inr h'"
    using assms(5) by (auto simp: bindR_Inr_iff t_def)
  have T: "t \<in> set (h_threads h)" "th_phase t = Inferring ph" using assms(2,3) by (simp_all add: t_def)
  then have "engine_isReady (h_engine h)" using assms(1) by (auto simp: hal_safe_def hal_inv_def)
  then obtain s m where g: "le_sessions (h_engine h) = Some s" "le_model (h_engine h) = Some m"
    "sm_inv s" "res_inv s (h_hist h)"
    using engine_ready_sessions assms(1) unfolding hal_safe_def by (metis sm_good_def)
  obtain c where ph: "phase_ctx ph = Some c" using assms(4) by (cases rule: infer_phase_cases [of ph]) auto
  have c: "ctx_of s (th_session t) = Some c" using assms(1) g(1) T ph by (auto simp: hal_safe_def holds_ctx_def uses_own_def)
  from kill_frees [OF g(3) c] obtain s' where k: "killSession (th_session t) s (h_hist h) = Inr (True, s', LlamaFree c # h_hist h)" by blast
  then have H: "h_hist h1 = LlamaFree c # h_hist h" "h_threads h1 = h_threads h" "h_cells h1 = h_cells h"
    using h1(1) g \<open>engine_isReady (h_engine h)\<close> by (auto simp: hal_destroySession_def)
  have "\<not> ctx_safe (h_hist h')"
    using turns_until_use [of k h1 ph c n e h'] h1(2) H assms(2-4) ph by simp
  then show ?thesis using g(4) by (auto simp: res_inv_def dest: res_onD(3))
qed

theorem destroyed_while_decoding_witness:
  "\<exists>h h'. hal_run [CallInferStream 1 ''a'' 3, Turn 0, Turn 0, Turn 0] = Inr h \<and>
     runR (hal_step (demo_env 60)) [CallDestroySession 1, Turn 0, Turn 0] h = Inr h' \<and> \<not> ctx_safe (h_hist h')"
proof -
  let ?e = "demo_env 60"
  let ?cs = "[CallInferStream 1 ''a'' 3, Turn 0, Turn 0, Turn 0]"
  have "hal_observe (\<lambda>h. h_cells h = [False] \<and> (case h_threads h of
      [t] \<Rightarrow> th_session t = 1 \<and> th_flag t = 0 \<and> (case th_phase t of Inferring (Decoding c n gen) \<Rightarrow> 0 < n | _ \<Rightarrow> False)
    | _ \<Rightarrow> False) \<and> fault_of (runR (hal_step ?e) [CallDestroySession 1, Turn 0, Turn 0] h) = None) ?cs" by code_simp
  then obtain h where d: "hal_run ?cs = Inr h"
    and o: "h_cells h = [False]" "case h_threads h of
      [t] \<Rightarrow> th_session t = 1 \<and> th_flag t = 0 \<and> (case th_phase t of Inferring (Decoding c n gen) \<Rightarrow> 0 < n | _ \<Rightarrow> False)
    | _ \<Rightarrow> False" "fault_of (runR (hal_step ?e) [CallDestroySession 1, Turn 0, Turn 0] h) = None"
    by (elim hal_observeE conjE) blast
  obtain t c n gen where t: "h_threads h = [t]" "th_session t = 1" "th_flag t = 0" "th_phase t = Inferring (Decoding c (Suc n) gen)"
    using o(2) by (auto split: list.splits phase.splits infer_phase.splits dest!: gr0_implies_Suc)
  obtain h' where r: "runR (hal_step ?e) [CallDestroySession 1, Turn 0, Turn 0] h = Inr h'"
    using o(3) by (cases "runR (hal_step ?e) [CallDestroySession 1, Turn 0, Turn 0] h") auto
  have "hal_safe {} ?e h" using d by (rule demo_run_safe) (simp add: disciplined_def split: sum.splits)
  from destroyed_while_decoding [OF this, of 0 "Decoding c (Suc n) gen" 2 h'] show ?thesis
    using t o(1) d r by (simp add: eval_nat_numeral)
qed

subsection \<open>Evicted under a thread\<close>

lemma kill_ctx_of: "killSession i s w = Inr (ok, s', w') \<Longrightarrow> ctx_of s' j = Some c \<Longrightarrow> ctx_of s j = Some c"
  by (auto simp: killSession_def ctx_of_def bindR_Inr_iff split: option.splits if_splits)

lemma swapOut_keeps_inv:
  assumes inv: "sm_inv s" and v: "v \<in> set (ids (mHotLru s))" and x: "swapOut e v s w = Inr (ok, s', w')"
  shows "sm_inv s'"
proof -
  obtain m where m: "mSessions s v = Some m" "m_state m = HOT" using inv_hot_ids [OF inv, of v] v by auto
  show ?thesis using inv m by (cases rule: swapOut_cases [where e = e and w = w]) (use x in auto)
qed

lemma swapOut_ctx_of:
  assumes inv: "sm_inv s" and v: "v \<in> set (ids (mHotLru s))"
    and x: "swapOut e v s w = Inr (ok, s', w')" and c: "ctx_of s' j = Some c"
  shows "ctx_of s j = Some c"
proof -
  obtain m where m: "mSessions s v = Some m" "m_state m = HOT" using inv_hot_ids [OF inv, of v] v by auto
  show ?thesis
    using inv m
  proof (cases rule: swapOut_mid [where e = e and w = w])
    case (mid d res k w1)
    show ?thesis
    proof (cases res)
      case None
      then show ?thesis using mid x c m by (auto simp: ctx_of_def split: if_splits)
    next
      case (Some b)
      have "evictColdIfNeeded v (swapped_out v m k b s) (LlamaFree d # w1) = Inr (s', w')"
        using x unfolding mid(7) [OF Some] by (auto simp: bindR_Inr_iff)
      then have "\<forall>j c. ctx_of s' j = Some c \<longrightarrow> ctx_of s j = Some c"
        unfolding evictColdIfNeeded_def
      proof (rule evictCold_loop_rule [where P = "\<lambda>s2 w2. \<forall>j c. ctx_of s2 j = Some c \<longrightarrow> ctx_of s j = Some c"])
        show "\<forall>j c. ctx_of (swapped_out v m k b s) j = Some c \<longrightarrow> ctx_of s j = Some c"
          by (auto simp: swapped_out_def ctx_of_def split: if_splits)
      qed (blast dest: kill_ctx_of)
      then show ?thesis using c by blast
    qed
  qed
qed

lemma activate_ctx_of:
  \<comment> \<open>activation makes a context for its own session only\<close>
  assumes inv: "sm_inv s" and x: "activateForInfer e i s w = Inr (r, s', w')" and c: "ctx_of s' j = Some c" and "j \<noteq> i"
  shows "ctx_of s j = Some c"
  using inv
proof (cases rule: activate_spec [where e = e and i = i and w = w])
  case (hot m d)
  then show ?thesis using x c by (auto simp: touched_def ctx_of_def split: if_splits)
next
  case (cold m k s1 w1 r' s2 w2)
  have "sm_inv s1 \<and> (\<forall>j c. ctx_of s1 j = Some c \<longrightarrow> ctx_of s j = Some c)"
    using cold(3)
  proof (rule evictHot_rule [where P = "\<lambda>s2 w2. sm_inv s2 \<and> (\<forall>j c. ctx_of s2 j = Some c \<longrightarrow> ctx_of s j = Some c)"])
    fix v vs s2 w2 ok s3 w3
    assume p: "sm_inv s2 \<and> (\<forall>j c. ctx_of s2 j = Some c \<longrightarrow> ctx_of s j = Some c)" "hot_victims i s2 = v # vs"
      and o: "swapOut e v s2 w2 = Inr (ok, s3, w3)"
    have v: "v \<in> set (ids (mHotLru s2))" using hot_victims_hd [OF p(2)] by blast
    show "sm_inv s3 \<and> (\<forall>j c. ctx_of s3 j = Some c \<longrightarrow> ctx_of s j = Some c)"
      using swapOut_keeps_inv [OF _ v o] swapOut_ctx_of [OF _ v o] p(1) by blast
  qed (use inv in simp)
  moreover have "ctx_of s1 j = Some c"
    using x cold(1-3) c \<open>j \<noteq> i\<close>
    by (auto simp: activateForInfer_def swapIn_def make_hot_def now_ms_def ctx_of_def Let_def bindR_Inr_iff
        split: option.splits if_splits prod.splits)
  ultimately show ?thesis by blast
qed (use x c in auto)

lemma activate_evicts:
  \<comment> \<open>the least recently used HOT session has lost its context; nobody has it, or the activated session does\<close>
  assumes good: "sm_good e s w" and i: "mSessions s i = Some m" "m_state m = COLD"
    and full: "unat (mHotLimit s) \<le> length (mHotLru s)" "snd (hd (mHotLru s)) = v" "- 1 \<notin> set (ids (mHotLru s))"
    and save: "saves_succeed e" and c: "ctx_of s v = Some c"
    and x: "activateForInfer e i s w = Inr (r, s', w')"
  shows "ctx_of s' v = None \<and> (c \<notin> live w' \<or> ctx_of s' i = Some c)"
proof -
  have inv: "sm_inv s" "res_inv s w" "fresh_init e" using good by (simp_all add: sm_good_def)
  have "0 < unat (mHotLimit s)" using inv(1) by (simp add: sm_inv_def inv_on_def word_le_nat_alt)
  then obtain p l where l: "mHotLru s = p # l" "snd p = v" using full(1,2) by (cases "mHotLru s") auto
  have notin: "i \<notin> set (ids (mHotLru s))" using inv_hot_ids [OF inv(1), of i] i by auto
  then have vi: "v \<noteq> i" and "hot_victims i s = v # ids l" using l by (auto simp: hot_victims_def intro: filter_True)
  have "v \<notin> set (ids (mHotLru s'))"
    using inv(1)
  proof (cases rule: activate_spec [where e = e and i = i and w = w])
    case (cold m' k s1 w1 r' s2 w2)
    have "length (mHotLru s1) < length (mHotLru s)" using cold(5) save full(1,3) by simp
    then have "k \<noteq> 0" unfolding cold(4) by (cases k) auto
    then have "v \<notin> set (ids (mHotLru s1))"
      unfolding cold(4) \<open>hot_victims i s = _\<close> by (cases k) auto
    then show ?thesis using x cold(6,9) vi by (auto split: if_splits)
  qed (use i x in auto)
  moreover have inv': "sm_inv s'" "res_inv s' w'" using activate_res [OF inv x] by simp_all
  ultimately have v: "ctx_of s' v = None" using ctx_of_hot [OF inv'(1), of v] inv_hot_ids [OF inv'(1), of v] by fastforce
  have "ctx_of s' i = Some c" if "c \<in> live w'"
  proof -
    have "c \<in> ctxs s'" using that inv'(2) by (simp add: res_inv_def res_on_def)
    then obtain j mj where "mSessions s' j = Some mj" "m_ctx mj = Some c" by (auto simp: ctxs_def)
    then have j: "ctx_of s' j = Some c" by (simp add: ctx_of_def)
    have "j = v" if "j \<noteq> i"
      using activate_ctx_of [OF inv(1) x j that] c res_onD(4) [OF inv(2) [unfolded res_inv_def]]
      by (auto simp: ctx_of_def bind_eq_Some_conv)
    then show ?thesis using j v by (cases "j = i") simp_all
  qed
  then show ?thesis using v by blast
qed

text \<open>
  C25: A stream that activates a session while the HOT list is at its limit swaps out the least
  recently used HOT session, even when another stream is decoding on it: when that thread goes on, its
  next step that uses a context passes the freed context to the library or, if the library has given
  the freed context's address to the session just activated, works on the context of that session.
  (The saving of states succeeds, and no HOT session has the id -1.)  With the default limit of three,
  four streams at once are enough: the witness.
\<close>

theorem fourth_stream_frees_context:
  assumes "hal_inv h" "engine_ok e (h_engine h) (h_hist h)" "le_sessions (h_engine h) = Some s" "saves_succeed e"
    and "j < length (h_threads h)" "th_phase (h_threads h ! j) = Inferring Start"
    and "mSessions s (th_session (h_threads h ! j)) = Some m" "m_state m = COLD"
    and "unat (mHotLimit s) \<le> length (mHotLru s)" "- 1 \<notin> set (ids (mHotLru s))"
    and "k < length (h_threads h)" "th_session (h_threads h ! k) = snd (hd (mHotLru s))"
    and "th_phase (h_threads h ! k) = Inferring ph" "phase_ctx ph = Some c" "ctx_of s (th_session (h_threads h ! k)) = Some c"
    and "until_use (h_cells h ! th_flag (h_threads h ! k)) ph = Some n"
    and "runR (hal_step e) (Turn j # replicate n (Turn k)) h = Inr h'"
  shows "\<not> ctx_safe (h_hist h') \<or>
    (\<exists>s'. le_sessions (h_engine h') = Some s' \<and> ctx_of s' (th_session (h_threads h ! j)) = Some c)"
proof -
  let ?t = "h_threads h ! j"
  obtain h1 where h1: "thread_turn e j h = Inr h1" "runR (hal_step e) (replicate n (Turn k)) h1 = Inr h'"
    using assms(17) by (auto simp: bindR_Inr_iff)
  have jk: "j \<noteq> k" using assms(6,13,14) by auto
  have good: "sm_good e s (h_hist h)" using assms(2,3) by (simp add: engine_ok_def)
  show ?thesis
  proof (rule inferring_turnE [OF assms(5,6) _ h1(1) refl], goal_cases)
    case (2 s1 m1 ph' s' w' calls)
    obtain r where a: "activateForInfer e (th_session ?t) s (h_hist h) = Inr (r, s', w')"
      using 2(1,3) assms(3) by (auto simp: bindR_Inr_iff)
    note A = activate_evicts [OF good assms(7,8,9) assms(12) [symmetric] assms(10,4,15) a]
    have h1': "h_hist h1 = w'" "le_sessions (h_engine h1) = Some s'" "h_cells h1 = h_cells h"
      "length (h_threads h1) = length (h_threads h)" "h_threads h1 ! k = h_threads h ! k"
      unfolding 2(4) using jk by simp_all
    have "le_sessions (h_engine h') = le_sessions (h_engine h1) \<and> (c \<notin> live (h_hist h1) \<longrightarrow> \<not> ctx_safe (h_hist h'))"
      by (rule turns_until_use [OF _ _ assms(14) _ h1(2)]) (use assms(11,13,16) h1' in simp_all)
    then show ?case using A h1'(1,2) by auto
  qed simp
qed

definition three_streams :: "hal_call list" where
  \<comment> \<open>sessions 1, 2 and 3 are HOT, and the thread of session 1 is about to sample\<close>
  "three_streams = [CallCreateSession 3, CallInferStream 1 ''a'' 3, CallInferStream 2 ''b'' 3,
     CallInferStream 3 ''c'' 3, Turn 0, Turn 0, Turn 0, Turn 0, Turn 1, Turn 2]"

lemma three_streams_safe:
  assumes "hal_run three_streams = Inr h" shows "hal_safe {} (demo_env 60) h"
  using assms
proof (rule demo_run_safe)
  fix g w assume "demo_engine = Inr (g, w)"
  from demo_create [OF this, of 3] show "guardedR (hal_step (demo_env 60)) (disciplined {}) three_streams (hal_start g w)"
    unfolding three_streams_def guardedR.simps(2) [of _ _ "CallCreateSession 3"]
    by (auto simp del: hal_step.simps guardedR.simps split: sum.split intro!: quiet_guarded)
qed

theorem fourth_stream_frees_context_witness:
  "\<exists>h h1 h'. hal_run three_streams = Inr h \<and> hal_safe {} (demo_env 60) h \<and>
     runR (hal_step (demo_env 60)) [CallCreateSession 4, CallInferStream 4 ''d'' 3] h = Inr h1 \<and>
     runR (hal_step (demo_env 60)) [Turn 3, Turn 0] h1 = Inr h' \<and> \<not> ctx_safe (h_hist h')"
proof -
  let ?e = "demo_env 60" let ?run = "runR (hal_step ?e) [Turn 3, Turn 0]"
  let ?P = "\<lambda>h. case hal_createSession ?e 4 h of Inl f \<Rightarrow> False | Inr h0 \<Rightarrow> let h1 = hal_inferStream 4 ''d'' 3 h0 in
      map th_session (h_threads h1) = [1, 2, 3, 4] \<and> map th_flag (h_threads h1) = [0, 1, 2, 3] \<and>
      \<not> h_cells h1 ! 0 \<and> th_phase (h_threads h1 ! 3) = Inferring Start \<and>
      (case th_phase (h_threads h1 ! 0) of Inferring (Checked c n gen) \<Rightarrow>
         (case le_sessions (h_engine h1) of None \<Rightarrow> False
          | Some s \<Rightarrow> ids (mHotLru s) = [1, 2, 3] \<and> mHotLimit s = 3 \<and> ctx_of s 1 = Some c \<and>
              (case mSessions s 4 of None \<Rightarrow> False | Some m \<Rightarrow> m_state m = COLD) \<and>
              (case ?run h1 of Inl f \<Rightarrow> False
               | Inr h' \<Rightarrow> (case le_sessions (h_engine h') of None \<Rightarrow> False | Some s' \<Rightarrow> ctx_of s' 4 \<noteq> Some c)))
       | _ \<Rightarrow> False)"
  have "hal_observe ?P three_streams" by code_simp
  then obtain h where d: "hal_run three_streams = Inr h" and o: "?P h" by (rule hal_observeE)
  obtain h0 where h0: "hal_createSession ?e 4 h = Inr h0" using o by (cases "hal_createSession ?e 4 h") auto
  define h1 where "h1 = hal_inferStream 4 ''d'' 3 h0"
  have t: "map th_session (h_threads h1) = [1, 2, 3, 4]" "map th_flag (h_threads h1) = [0, 1, 2, 3]" "\<not> h_cells h1 ! 0"
      "th_phase (h_threads h1 ! 3) = Inferring Start"
    and y: "case th_phase (h_threads h1 ! 0) of Inferring (Checked c n gen) \<Rightarrow>
         (case le_sessions (h_engine h1) of None \<Rightarrow> False
          | Some s \<Rightarrow> ids (mHotLru s) = [1, 2, 3] \<and> mHotLimit s = 3 \<and> ctx_of s 1 = Some c \<and>
              (case mSessions s 4 of None \<Rightarrow> False | Some m \<Rightarrow> m_state m = COLD) \<and>
              (case ?run h1 of Inl f \<Rightarrow> False
               | Inr h' \<Rightarrow> (case le_sessions (h_engine h') of None \<Rightarrow> False | Some s' \<Rightarrow> ctx_of s' 4 \<noteq> Some c)))
       | _ \<Rightarrow> False"
    using o unfolding h0 sum.case Let_def h1_def [symmetric] by blast+
  obtain c n gen s m h' where x: "th_phase (h_threads h1 ! 0) = Inferring (Checked c n gen)" "le_sessions (h_engine h1) = Some s"
    "ids (mHotLru s) = [1, 2, 3]" "mHotLimit s = 3" "ctx_of s 1 = Some c" "mSessions s 4 = Some m" "m_state m = COLD"
    "?run h1 = Inr h'" "case le_sessions (h_engine h') of None \<Rightarrow> False | Some s' \<Rightarrow> ctx_of s' 4 \<noteq> Some c"
    using y by (auto split: phase.splits infer_phase.splits option.splits sum.splits simp del: runR.simps)
  note safe = three_streams_safe [OF d]
  have inv: "hal_inv h1" unfolding h1_def using create_hal [OF _ h0] safe by (auto simp: hal_safe_def intro: infer_hal)
  have "engine_ok ?e (h_engine h0) (h_hist h0)" by (rule create_engine_ok [OF _ h0]) (use safe in \<open>simp add: hal_safe_def\<close>)
  then have ok: "engine_ok ?e (h_engine h1) (h_hist h1)" by (simp add: h1_def hal_inferStream_def miniv_next_req_id_def Let_def)
  have th: "length (h_threads h1) = 4" "th_session (h_threads h1 ! 3) = 4" "th_session (h_threads h1 ! 0) = 1" "th_flag (h_threads h1 ! 0) = 0"
    using t(1,2) by (auto simp: map_eq_Cons_conv eval_nat_numeral)
  have hot: "unat (mHotLimit s) \<le> length (mHotLru s)" "- 1 \<notin> set (ids (mHotLru s))" "snd (hd (mHotLru s)) = 1"
    using x(3,4) by (auto simp: map_eq_Cons_conv)
  have r: "runR (hal_step ?e) (Turn 3 # replicate 1 (Turn 0)) h1 = Inr h'" using x(8) by simp
  have "\<not> ctx_safe (h_hist h') \<or>
      (\<exists>s'. le_sessions (h_engine h') = Some s' \<and> ctx_of s' (th_session (h_threads h1 ! 3)) = Some c)"
    by (rule fourth_stream_frees_context [OF inv ok x(2) demo_saves _ t(4) _ x(7) hot(1,2) _ _ x(1) _ _ _ r])
      (use th hot(3) x(5,6) t(3) in simp_all)
  then have "\<not> ctx_safe (h_hist h')" using x(9) th(2) by (auto split: option.splits)
  moreover have "runR (hal_step ?e) [CallCreateSession 4, CallInferStream 4 ''d'' 3] h = Inr h1" using h0 by (simp add: h1_def)
  ultimately show ?thesis using d safe x(8) by blast
qed

end
