(* ===== verification/Process_Clients.thy ===== *)
theory Process_Clients
  imports Process Hal_Contexts
begin

text \<open>
  The clients of the control socket and of the binder service share the engine of the process.  The
  discipline under which they are safe together, in every interleaving; what happens without it; and
  how the process can end whatever they do.
\<close>

subsection \<open>The process and its clients\<close>

definition held :: "process \<Rightarrow> (int \<times> ctx) set" where
  \<comment> \<open>the session and the context the main thread is inferring with\<close>
  "held p =
     (case p_job p of Listening \<Rightarrow> {} | Serving i n prompt ph \<Rightarrow> Pair i ` set_option (phase_ctx ph))"

fun polite_request :: "request \<Rightarrow> hal \<Rightarrow> bool" where
  "polite_request (ReqCreate i) h = disciplined {} (CallCreateSession i) h"
| "polite_request (ReqKill i) h = disciplined {} (CallDestroySession i) h"
| "polite_request (ReqHotLimit n) h =
     (case le_sessions (h_engine h) of
        None \<Rightarrow> True
      | Some s \<Rightarrow> card (dom (mSessions s)) < unat (max 1 n))"
| "polite_request (ReqInfer i n prompt) h = (0 \<le> n)"
| "polite_request q h = True"

fun polite :: "proc_step \<Rightarrow> process \<Rightarrow> bool" where
  \<comment> \<open>what the clients of both interfaces have to observe\<close>
  "polite (Service c) p = disciplined (held p) c (p_service p)"
| "polite Main p \<longleftrightarrow> (p_job p = Listening \<longrightarrow> (case p_requests p of [] \<Rightarrow> True | q # qs \<Rightarrow> polite_request q (p_service p)))"

definition proc_safe :: "llama_env \<Rightarrow> process \<Rightarrow> bool" where
  "proc_safe e p \<longleftrightarrow> hal_safe (held p) e (p_service p) \<and> engine_isReady (h_engine (p_service p)) \<and>
     (case p_job p of Listening \<Rightarrow> True | Serving i n prompt ph \<Rightarrow> 0 \<le> n)"

lemma hal_safe_hold:
  "hal_safe H e h \<longleftrightarrow> hal_safe {} e h \<and>
     (\<forall>s. le_sessions (h_engine h) = Some s \<longrightarrow> (\<forall>(i, c) \<in> H. ctx_of s i = Some c))"
  by (auto simp: hal_safe_def)

lemma swap_sessions_safe:
  \<comment> \<open>the main thread has replaced the sessions of the shared engine\<close>
  assumes safe: "hal_safe H e h" and s: "le_sessions (h_engine h) = Some s"
    and good: "sm_good e s' w'" "room s'" and ctx: "\<And>j c. ctx_of s j = Some c \<Longrightarrow> ctx_of s' j = Some c"
    and H': "\<And>i c. (i, c) \<in> H' \<Longrightarrow> ctx_of s' i = Some c"
  shows "hal_safe H' e (h\<lparr>h_engine := (h_engine h)\<lparr>le_sessions := Some s'\<rparr>, h_hist := w'\<rparr>)"
proof -
  let ?h = "h\<lparr>h_engine := (h_engine h)\<lparr>le_sessions := Some s'\<rparr>, h_hist := w'\<rparr>"
  have "sm_inv s'" using good(1) by (simp add: sm_good_def)
  moreover have "hal_inv h" using safe by (simp add: hal_safe_def)
  ultimately have inv: "hal_inv ?h" using s by (intro hal_inv_engine)
  have threads: "holds_ctx s' t" if "t \<in> set (h_threads h)" for t
    using safe s that ctx by (auto simp: hal_safe_def holds_ctx_def uses_own_def)
  have "hal_safe {} e h" using safe by (simp add: hal_safe_hold [of H])
  from hal_safe_sessions [OF this inv s, of s'] good threads have "hal_safe {} e ?h" by simp
  then show ?thesis using H' by (subst hal_safe_hold) auto
qed

lemma proc_safe_parts:
  assumes "proc_safe e p"
  obtains s m where "le_sessions (h_engine (p_service p)) = Some s" "le_model (h_engine (p_service p)) = Some m"
    "sm_good e s (h_hist (p_service p))" "sm_inv s" "room s" "hal_safe (held p) e (p_service p)"
    "\<And>i c. (i, c) \<in> held p \<Longrightarrow> ctx_of s i = Some c"
proof -
  have a: "hal_safe (held p) e (p_service p)" "engine_isReady (h_engine (p_service p))"
    using assms by (simp_all add: proc_safe_def)
  have "engine_ok e (h_engine (p_service p)) (h_hist (p_service p))" using a(1) by (simp add: hal_safe_def)
  from engine_ready_sessions [OF this a(2)] obtain s m where
    "le_sessions (h_engine (p_service p)) = Some s" "le_model (h_engine (p_service p)) = Some m"
    "sm_good e s (h_hist (p_service p))" .
  moreover from this a(1) have "sm_inv s" "room s" "\<And>i c. (i, c) \<in> held p \<Longrightarrow> ctx_of s i = Some c"
    by (auto simp: hal_safe_def sm_good_def)
  ultimately show thesis using that [of s m] a(1) by blast
qed

lemma proc_safe_with:
  assumes "hal_safe (held p') e ((p_service p)\<lparr>h_engine := (h_engine (p_service p))\<lparr>le_sessions := Some s'\<rparr>, h_hist := w'\<rparr>)"
    and "le_model (h_engine (p_service p)) \<noteq> None"
    and "p_service p' = (p_service p)\<lparr>h_engine := (h_engine (p_service p))\<lparr>le_sessions := Some s'\<rparr>, h_hist := w'\<rparr>"
    and "\<And>i n prompt ph. p_job p' = Serving i n prompt ph \<Longrightarrow> 0 \<le> n"
  shows "proc_safe e p'"
  using assms by (auto simp: proc_safe_def engine_isReady_def split: job.split)

subsection \<open>Turns of the main thread\<close>

lemma with_daemon_service:
  "p_service (with_daemon d p) = (p_service p)\<lparr>h_engine := d_engine d, h_hist := d_hist d\<rparr>"
  by (simp add: with_daemon_def)

abbreviation safe_turn :: "llama_env \<Rightarrow> llama_env \<Rightarrow> process \<Rightarrow> bool" where
  \<comment> \<open>the main thread stays safe; only the text of a token that does not fit its buffer stops it\<close>
  "safe_turn e en p \<equiv>
     (case main_turn e en p of Inl f \<Rightarrow> f = LengthError \<and> \<not> (piece_fits e \<and> piece_fits en) | Inr p' \<Rightarrow> proc_safe e p')"

lemma returned_safe:
  assumes safe: "proc_safe e p" and job: "p_job p = Serving i n prompt (Returned ok)"
  shows "safe_turn e en p"
proof -
  have "hal_safe {} e (p_service p)" using safe by (simp add: proc_safe_def held_def job)
  then show ?thesis
    using safe
    by (auto simp: main_turn_returned [OF job] proc_safe_def held_def with_daemon_service puts_def as_daemon_def)
qed

lemma serving_safe:
  assumes safe: "proc_safe e p" and job: "p_job p = Serving i n prompt ph"
  shows "safe_turn e en p"
proof (cases "\<exists>ok. ph = Returned ok")
  case False
  let ?h = "p_service p"
  obtain s m where g: "le_sessions (h_engine ?h) = Some s" "le_model (h_engine ?h) = Some m"
    "sm_good e s (h_hist ?h)" "sm_inv s" "room s" "hal_safe (held p) e ?h"
    and H: "\<And>i c. (i, c) \<in> held p \<Longrightarrow> ctx_of s i = Some c"
    by (rule proc_safe_parts [OF safe]) blast
  have n: "0 \<le> n" using safe job by (simp add: proc_safe_def)
  have own: "uses_own s i ph" using H job by (simp add: uses_own_def held_def)
  let ?turn = "infer_turn_on (activateForInfer e) (recordTokens e) e m i prompt n None token_line ph s (h_hist ?h) (p_output p)"
  note S = infer_turn_safe [OF g(3,5) own n, of m prompt None token_line "p_output p"]
  have turn: "main_turn e en p = bindR ?turn (\<lambda>(ph', s', w', out').
      Inr (with_daemon (as_daemon p\<lparr>d_engine := (h_engine ?h)\<lparr>le_sessions := Some s'\<rparr>, d_hist := w', d_out := out'\<rparr>) p
        \<lparr>p_job := Serving i n prompt ph'\<rparr>))"
    using main_turn_serving [OF job, of e en] False g(1,2) by (simp add: infer_turn_def as_daemon_def bindR_def split: sum.split)
  show ?thesis
  proof (cases ?turn)
    case (Inl f)
    then show ?thesis using S turn by simp
  next
    case (Inr y)
    obtain ph' s' w' out' where x: "?turn = Inr (ph', s', w', out')" using Inr by (metis prod_cases4)
    then have s': "sm_good e s' w'" "frames s s'" "uses_own s' i ph'" using S by simp_all
    let ?p = "with_daemon (as_daemon p\<lparr>d_engine := (h_engine ?h)\<lparr>le_sessions := Some s'\<rparr>, d_hist := w', d_out := out'\<rparr>) p
      \<lparr>p_job := Serving i n prompt ph'\<rparr>"
    have "hal_safe (held ?p) e (?h\<lparr>h_engine := (h_engine ?h)\<lparr>le_sessions := Some s'\<rparr>, h_hist := w'\<rparr>)"
      using s' frames_room [OF s'(2) g(5)]
      by (intro swap_sessions_safe [OF g(6,1)]) (auto simp: frames_def held_def uses_own_def)
    then have "proc_safe e ?p" by (rule proc_safe_with) (use g(2) n in \<open>auto simp: with_daemon_service\<close>)
    then show ?thesis using turn x by simp
  qed
qed (use returned_safe [OF safe] job in blast)

lemma begin_infer_safe:
  assumes "proc_safe e p" "p_job p = Listening" "0 \<le> n"
  shows "proc_safe e (begin_infer i n prompt p)"
  using assms by (auto simp: begin_infer_def proc_safe_def held_def with_daemon_service puts_def as_daemon_def d_ready_def)

lemma setHotLimit_room:
  assumes "sm_inv s" "card (dom (mSessions s)) < unat (max 1 n)"
  shows "setHotLimit e n s w = Inr (s\<lparr>mHotLimit := max 1 n\<rparr>, w)"
proof -
  have "set (ids (mHotLru s)) \<subseteq> dom (mSessions s)" using inv_hot_ids [OF assms(1)] by fastforce
  then have "card (set (ids (mHotLru s))) \<le> card (dom (mSessions s))"
    using inv_finite [OF assms(1)] by (rule card_mono [rotated])
  then have "length (mHotLru s) < unat (max 1 n)"
    using assms(2) distinct_card [OF inv_hot_distinct [OF assms(1)]] by simp
  then show ?thesis by (simp add: setHotLimit_def evictHotIfNeeded.simps [of e "- 1"])
qed

lemma setColdLimit_keeps:
  assumes inv: "sm_inv s" and x: "setColdLimit b s w = Inr (s', w')"
  shows "room s \<Longrightarrow> room s'" "ctx_of s j = Some c \<Longrightarrow> ctx_of s' j = Some c"
proof -
  obtain k where E: "evicted (set (take k (cold_victims (- 1) s))) (s\<lparr>mColdLimitBytes := b\<rparr>) s'"
    by (rule setColdLimit_spec [OF inv, of b w]) (use x in auto)
  let ?K = "set (take k (cold_victims (- 1) s))"
  have K: "?K \<subseteq> set (ids (mColdLru s))" by (auto simp: cold_victims_def dest: in_set_takeD)
  have S: "mSessions s' = mSessions s |` (- ?K)" "mHotLimit s' = mHotLimit s"
    using evictedD [OF E] by (simp_all add: same_config_def)
  have "card (dom (mSessions s')) \<le> card (dom (mSessions s))"
    using inv_finite [OF inv] S(1) by (intro card_mono) (auto simp: restrict_map_def split: if_splits)
  then show "room s'" if "room s" using that S(2) by (simp add: room_def)
  show "ctx_of s' j = Some c" if j: "ctx_of s j = Some c"
  proof -
    obtain m where "mSessions s j = Some m" "m_state m = HOT" using ctx_of_hot [OF inv j] by blast
    then have "j \<notin> ?K" using K inv_cold_ids [OF inv, of j] by (auto simp: swapped_def simp del: set_map)
    then show ?thesis using j S(1) by (simp add: ctx_of_def)
  qed
qed

lemma other_turn_safe:
  assumes safe: "proc_safe e p" and l: "p_job p = Listening" "p_requests p = q # qs" "\<And>i n prompt. q \<noteq> ReqInfer i n prompt"
    and x: "exec_request e en q (as_daemon p) = Inr d'"
    and d': "d_engine d' = (h_engine (p_service p))\<lparr>le_sessions := Some s'\<rparr>"
      "hal_safe {} e ((p_service p)\<lparr>h_engine := d_engine d', h_hist := d_hist d'\<rparr>)"
  shows "safe_turn e en p"
proof -
  have "engine_isReady (h_engine (p_service p))" using safe by (simp add: proc_safe_def)
  then have "proc_safe e (with_daemon d' p\<lparr>p_requests := qs\<rparr>)"
    using d' l(1) by (simp add: proc_safe_def with_daemon_service held_def engine_isReady_def)
  then show ?thesis using main_turn_other [OF l] x by simp
qed

lemma same_engine_turn_safe:
  assumes safe: "proc_safe e p" and l: "p_job p = Listening" "p_requests p = q # qs" "\<And>i n prompt. q \<noteq> ReqInfer i n prompt"
    and x: "exec_request e en q (as_daemon p) = Inr d'"
    and d': "d_engine d' = h_engine (p_service p)" "d_hist d' = h_hist (p_service p)"
  shows "safe_turn e en p"
proof -
  obtain s where "le_sessions (h_engine (p_service p)) = Some s" by (rule proc_safe_parts [OF safe])
  then show ?thesis
    using safe l(1) d' by (intro other_turn_safe [OF safe l x, of s]) (auto simp: proc_safe_def held_def)
qed

lemma listening_safe:
  assumes safe: "proc_safe e p" and l: "p_job p = Listening" "p_requests p = q # qs"
    and polite: "polite_request q (p_service p)"
  shows "safe_turn e en p"
proof -
  let ?h = "p_service p"
  obtain s m where g: "le_sessions (h_engine ?h) = Some s" "le_model (h_engine ?h) = Some m"
    "sm_good e s (h_hist ?h)" "sm_inv s" "room s" "hal_safe (held p) e ?h"
    by (rule proc_safe_parts [OF safe]) blast
  have res: "res_inv s (h_hist ?h)" "fresh_init e" using g(3) by (simp_all add: sm_good_def)
  have ready: "d_ready (as_daemon p)" "engine_isReady (h_engine ?h)"
    using g(2) by (simp_all add: d_ready_def as_daemon_def engine_isReady_def)
  have safe0: "hal_safe {} e ?h" using g(6) l(1) by (simp add: held_def)
  note other = other_turn_safe [OF safe l] and same = same_engine_turn_safe [OF safe l]
  show ?thesis
  proof (cases q)
    case (ReqCreate i)
    obtain ok s' w' where c: "createSession e i s (h_hist ?h) = (ok, s', w')" by (metis prod_cases3)
    have "hal_safe {} e (?h\<lparr>h_engine := (h_engine ?h)\<lparr>le_sessions := Some s'\<rparr>, h_hist := w'\<rparr>)"
      using create_safe [OF safe0, of i] polite c g(1) ready(2) ReqCreate by (simp add: hal_createSession_def)
    then show ?thesis
      using ready c g(1) ReqCreate
      by (intro other) (auto simp: with_sessions_def as_daemon_def puts_def)
  next
    case (ReqKill i)
    obtain ok s' w' where k: "killSession i s (h_hist ?h) = Inr (ok, s', w')" using kill_total [OF g(4)] by blast
    have "hal_safe {} e (?h\<lparr>h_engine := (h_engine ?h)\<lparr>le_sessions := Some s'\<rparr>, h_hist := w'\<rparr>)"
      using destroy_safe [OF safe0, of i] polite k g(1) ready(2) ReqKill by (simp add: hal_destroySession_def)
    then show ?thesis
      using k g(1) ReqKill by (intro other) (auto simp: with_sessions_def as_daemon_def puts_def)
  next
    case (ReqHotLimit n)
    have lim: "card (dom (mSessions s)) < unat (max 1 n)" using polite g(1) ReqHotLimit by simp
    note r = setHotLimit_room [OF g(4) lim, of e "h_hist ?h"]
    have "hal_safe {} e (?h\<lparr>h_engine := (h_engine ?h)\<lparr>le_sessions := Some (s\<lparr>mHotLimit := max 1 n\<rparr>)\<rparr>, h_hist := h_hist ?h\<rparr>)"
      using setHotLimit_res [OF g(4) res(1) r] res(2) lim
      by (intro swap_sessions_safe [OF safe0 g(1)]) (auto simp: sm_good_def room_def ctx_of_def)
    then show ?thesis
      using r g(1) ReqHotLimit by (intro other) (auto simp: with_sessions_def as_daemon_def puts_def)
  next
    case (ReqColdLimit b)
    obtain s' w' where r: "setColdLimit b s (h_hist ?h) = Inr (s', w')"
      by (rule setColdLimit_spec [OF g(4), of b "h_hist ?h"]) blast
    have "hal_safe {} e (?h\<lparr>h_engine := (h_engine ?h)\<lparr>le_sessions := Some s'\<rparr>, h_hist := w'\<rparr>)"
      using setColdLimit_res [OF g(4) res(1) r] res(2) setColdLimit_keeps [OF g(4) r] g(5)
      by (intro swap_sessions_safe [OF safe0 g(1)]) (auto simp: sm_good_def)
    then show ?thesis
      using r g(1) ReqColdLimit by (intro other) (auto simp: with_sessions_def as_daemon_def puts_def)
  next
    case (ReqInfer i n prompt)
    have "proc_safe e (p\<lparr>p_requests := qs\<rparr>)" using safe by (simp add: proc_safe_def held_def)
    then show ?thesis
      using begin_infer_safe [of e "p\<lparr>p_requests := qs\<rparr>" n i prompt] main_turn_infer l ReqInfer polite by simp
  next
    case (ReqNpuLoad a b c t)
    obtain ok g' w' where "npu_load en a b c t (p_npu p) (p_npuHist p) = (ok, g', w')" by (metis prod_cases3)
    then show ?thesis using ReqNpuLoad by (intro same) (auto simp: as_daemon_def puts_def)
  next
    case (ReqNpuInfer n prompt)
    show ?thesis
    proof (cases "npu_isReady (p_npu p)")
      case True
      then have m: "ne_model (p_npu p) \<noteq> None" by (simp add: npu_isReady_def)
      show ?thesis
      proof (cases "npu_infer en prompt n token_line (p_npu p) (p_npuHist p) (p_output p)")
        case (Inl f)
        then show ?thesis
          using npu_infer_fault [OF Inl m] True ReqNpuInfer main_turn_other [OF l, of e en] by (simp add: as_daemon_def)
      next
        case (Inr y)
        then obtain ok w' out' where "npu_infer en prompt n token_line (p_npu p) (p_npuHist p) (p_output p) = Inr (ok, w', out')"
          by (metis prod_cases3)
        then show ?thesis using True ReqNpuInfer by (intro same) (auto simp: as_daemon_def puts_def)
      qed
    next
      case False
      then show ?thesis using ReqNpuInfer by (intro same) (auto simp: as_daemon_def puts_def)
    qed
  next
    case ReqHello
    then show ?thesis by (intro same) (auto simp: as_daemon_def puts_def)
  next
    case ReqOther
    then show ?thesis by (intro same) (auto simp: as_daemon_def)
  qed
qed

lemma main_safe:
  assumes "proc_safe e p" "polite Main p"
  shows "safe_turn e en p"
proof (cases "p_job p")
  case Listening
  show ?thesis
  proof (cases "p_requests p")
    case Nil
    then show ?thesis using assms(1) Listening by (simp add: main_turn_def Let_def)
  next
    case (Cons q qs)
    then show ?thesis using listening_safe [OF assms(1) Listening Cons] assms(2) Listening by simp
  qed
qed (use serving_safe [OF assms(1)] in blast)

subsection \<open>Every interleaving\<close>

lemma hal_step_ready:
  assumes "hal_step e c h = Inr h'" shows "engine_isReady (h_engine h') = engine_isReady (h_engine h)"
proof (cases c)
  case (Turn k)
  then have x: "thread_turn e k h = Inr h'" using assms by simp
  show ?thesis
  proof (cases rule: thread_turn_cases [of h k])
    case (inferring ph)
    show ?thesis by (rule inferring_turnE [OF inferring x refl]) (simp add: engine_isReady_def)
  qed (use x in \<open>simp_all add: thread_turn_def Let_def\<close>, auto)
qed (use assms in \<open>auto simp: hal_isReady_def hal_getModelInfo_def hal_createSession_def hal_destroySession_def
    hal_inferStream_def hal_cancel_def engine_isReady_def Let_def bindR_Inr_iff split: if_splits option.splits prod.splits\<close>)

lemma service_safe:
  assumes "proc_safe e p" "hal_safe (held p) e h" "hal_step e c (p_service p) = Inr h"
  shows "proc_safe e (p\<lparr>p_service := h\<rparr>)"
  using assms hal_step_ready [OF assms(3)] by (simp add: proc_safe_def held_def)

interpretation safe_process: guarded_machine "proc_exec e en" "proc_safe e" polite
  "\<lambda>f. f = LengthError \<and> \<not> (piece_fits e \<and> piece_fits en)" for e en
proof unfold_locales
  fix p st p'
  assume inv: "proc_safe e p" and g: "polite st p" and x: "proc_exec e en st p = Inr p'"
  show "proc_safe e p'"
  proof (cases st)
    case (Service c)
    then obtain h where h: "hal_step e c (p_service p) = Inr h" "p' = p\<lparr>p_service := h\<rparr>" using x by (auto simp: bindR_Inr_iff)
    have "hal_safe (held p) e h"
      using safe_clients.guarded_keeps [OF _ _ h(1), of "held p"] inv g Service by (auto simp: proc_safe_def)
    then show ?thesis using service_safe inv h by blast
  qed (use main_safe [of e p en] inv g x in auto)
next
  fix p st f
  assume inv: "proc_safe e p" and g: "polite st p" and x: "proc_exec e en st p = Inl f"
  show "f = LengthError \<and> \<not> (piece_fits e \<and> piece_fits en)"
  proof (cases st)
    case (Service c)
    then have "hal_step e c (p_service p) = Inl f" using x by (simp add: bindR_Inl_iff)
    from safe_clients.guarded_faults [OF _ _ this, of "held p"] show ?thesis
      using inv g Service by (auto simp: proc_safe_def)
  qed (use main_safe [of e p en] inv g x in auto)
qed

lemma proc_safe_start:
  assumes "engine_ok e (d_engine d) (d_hist d)" "engine_isReady (d_engine d)" "ctx_safe (d_hist d)"
    and "\<And>s. le_sessions (d_engine d) = Some s \<Longrightarrow> room s"
  shows "proc_safe e (process_start d qs)"
  using assms hal_safe_start by (simp add: proc_safe_def process_start_def held_def) (simp add: hal_start_def)

lemma proc_safe_live:
  assumes "proc_safe e p"
  shows "ctx_safe (h_hist (p_service p))"
    and "t \<in> set (h_threads (p_service p)) \<Longrightarrow> th_phase t = Inferring ph \<Longrightarrow> phase_ctx ph = Some c \<Longrightarrow> c \<in> live (h_hist (p_service p))"
    and "p_job p = Serving i n prompt ph \<Longrightarrow> phase_ctx ph = Some c \<Longrightarrow> c \<in> live (h_hist (p_service p))"
proof -
  obtain s where g: "le_sessions (h_engine (p_service p)) = Some s" "sm_good e s (h_hist (p_service p))"
    and safe: "hal_safe (held p) e (p_service p)" and H: "\<And>i c. (i, c) \<in> held p \<Longrightarrow> ctx_of s i = Some c"
    by (rule proc_safe_parts [OF assms]) blast
  have live: "c \<in> live (h_hist (p_service p))" if "ctx_of s i = Some c" for i c
    using that ctx_of_live g(2) by (auto simp: sm_good_def)
  show "ctx_safe (h_hist (p_service p))" using safe by (simp add: hal_safe_def)
  show "t \<in> set (h_threads (p_service p)) \<Longrightarrow> th_phase t = Inferring ph \<Longrightarrow> phase_ctx ph = Some c \<Longrightarrow> c \<in> live (h_hist (p_service p))"
    using live safe g(1) by (auto simp: hal_safe_def holds_ctx_def uses_own_def)
  show "p_job p = Serving i n prompt ph \<Longrightarrow> phase_ctx ph = Some c \<Longrightarrow> c \<in> live (h_hist (p_service p))"
    using live H by (auto simp: held_def)
qed

lemma loaded_safe:
  assumes "fresh_init e" "load e [] path nCtx nThreads (LLMEngine zero) [] = Inr (True, g, w)"
  shows "proc_safe e (process_start (serving g w) qs)"
proof -
  have z: "le_model (LLMEngine zero) = None" "le_sessions (LLMEngine zero) = None" "live [] = {}" "ctx_safe []"
    by (simp_all add: LLMEngine_def)
  from load_spec [OF assms(1) z, of "[]" path nCtx nThreads] assms(2) obtain s
    where g: "engine_ok e g w" "engine_isReady g" "le_sessions g = Some s" "mSessions s = Map.empty" by auto
  then have "ctx_safe w" by (auto simp: engine_ok_def sm_good_def res_inv_def dest: res_onD(3))
  then show ?thesis using g by (intro proc_safe_start) (auto simp: serving_def room_def)
qed

lemma loaded_polite:
  assumes "fresh_init e" "load e [] path nCtx nThreads (LLMEngine zero) [] = Inr (True, g, w)"
  shows "polite_request (ReqCreate i) (hal_start g w)"
proof -
  have z: "le_model (LLMEngine zero) = None" "le_sessions (LLMEngine zero) = None" "live [] = {}" "ctx_safe []"
    by (simp_all add: LLMEngine_def)
  from load_spec [OF assms(1) z, of "[]" path nCtx nThreads] assms(2) obtain s
    where "le_sessions g = Some s" "mSessions s = Map.empty" "mHotLimit s = kDefaultHotLimit" by auto
  then show ?thesis by (simp add: disciplined_def hal_start_def kDefaultHotLimit_def)
qed

subsection \<open>What any client can do\<close>

definition proc_ok :: "process \<Rightarrow> bool" where
  "proc_ok p \<longleftrightarrow> hal_inv (p_service p) \<and> engine_isReady (h_engine (p_service p))"

lemma proc_okE:
  assumes "proc_ok p"
  obtains s m where "le_sessions (h_engine (p_service p)) = Some s" "le_model (h_engine (p_service p)) = Some m"
    "sm_inv s" "holds (as_daemon p) s"
proof -
  have "engine_shape (h_engine (p_service p))" "engine_isReady (h_engine (p_service p))"
    using assms by (auto simp: proc_ok_def hal_inv_def)
  then show thesis
    using that by (cases rule: engine_shape_cases) (auto simp: engine_isReady_def holds_def as_daemon_def)
qed

lemma proc_ok_with:
  assumes "proc_ok p" "le_sessions (d_engine d) = Some s" "le_model (d_engine d) \<noteq> None" "sm_inv s"
    and "p_service p' = (p_service p)\<lparr>h_engine := d_engine d, h_hist := d_hist d\<rparr>"
  shows "proc_ok p'"
  using assms by (auto simp: proc_ok_def hal_inv_def engine_shape_def engine_isReady_def)

lemma exec_request_fault:
  assumes h: "holds d s" and x: "exec_request e en q d = Inl f" and "\<And>i n prompt. q \<noteq> ReqInfer i n prompt"
  shows "f = LengthError"
proof -
  have g: "le_sessions (d_engine d) = Some s" "sm_inv s" "d_ready d"
    using h holds_ready by (auto simp: holds_def)
  have sm: "call \<noteq> Inl f" if "call = sm_exec e c (s, d_hist d)" "\<And>i. c \<noteq> Activate i" for c call
    using sm_exec_fault [OF g(2), of e c "d_hist d" f] that by auto
  have hot: "setHotLimit e n s (d_hist d) \<noteq> Inl f" for n using sm [of _ "SetHotLimit n"] by simp
  have cold: "setColdLimit n s (d_hist d) \<noteq> Inl f" for n using sm [of _ "SetColdLimit n"] by simp
  have kill: "killSession i s (d_hist d) \<noteq> Inl f" for i using kill_total [OF g(2), of i "d_hist d"] by auto
  show ?thesis
  proof (cases q)
    case (ReqNpuInfer n p)
    then show ?thesis
      using x npu_infer_fault [of en p n token_line "d_npu d" "d_npuHist d" "d_out d" f]
      by (auto simp: bindR_Inl_iff npu_isReady_def split: if_splits)
  qed (use x assms(3) g hot cold kill in \<open>auto simp: with_sessions_def bindR_Inl_iff split: prod.splits\<close>)
qed

lemma main_ok:
  assumes ok: "proc_ok p"
  shows "main_turn e en p = Inr p' \<Longrightarrow> proc_ok p'"
    and "main_turn e en p = Inl f \<Longrightarrow> f = DanglingReference \<or> f = LengthError"
proof -
  obtain s m where g: "le_sessions (h_engine (p_service p)) = Some s" "le_model (h_engine (p_service p)) = Some m"
    "sm_inv s" "holds (as_daemon p) s" by (rule proc_okE [OF ok])
  have d: "le_sessions (d_engine (as_daemon p)) = Some s" "le_model (d_engine (as_daemon p)) = Some m"
    using g(1,2) by (simp_all add: as_daemon_def)
  note put = proc_ok_with [OF ok]
  have "(\<forall>p'. main_turn e en p = Inr p' \<longrightarrow> proc_ok p') \<and> (\<forall>f. main_turn e en p = Inl f \<longrightarrow> f = DanglingReference \<or> f = LengthError)"
  proof (cases "p_job p")
    case (Serving i n prompt ph)
    show ?thesis
    proof (cases "\<exists>ok. ph = Returned ok")
      case True
      then show ?thesis using Serving ok by (auto simp: main_turn_returned proc_ok_def with_daemon_service puts_def as_daemon_def)
    next
      case False
      let ?on = "infer_turn_on (activateForInfer e) (recordTokens e) e m i prompt n None token_line ph s
        (d_hist (as_daemon p)) (d_out (as_daemon p))"
      have t: "main_turn e en p = bindR ?on (\<lambda>(ph', s', w', out').
          Inr (with_daemon (as_daemon p\<lparr>d_engine := (d_engine (as_daemon p))\<lparr>le_sessions := Some s'\<rparr>,
            d_hist := w', d_out := out'\<rparr>) p\<lparr>p_job := Serving i n prompt ph'\<rparr>))"
        using main_turn_serving [OF Serving, of e en] False d by (simp add: infer_turn_def bindR_def split: sum.split)
      show ?thesis
      proof (cases ?on)
        case (Inl f)
        then show ?thesis using smk.turn_fault [OF g(3) Inl] t by auto
      next
        case (Inr r)
        obtain ph' s' w' out' where r: "r = (ph', s', w', out')" by (metis prod_cases4)
        let ?d = "as_daemon p\<lparr>d_engine := (d_engine (as_daemon p))\<lparr>le_sessions := Some s'\<rparr>, d_hist := w', d_out := out'\<rparr>"
        have "sm_inv s'" using Inr unfolding r by (rule smk.turn_keeps [OF g(3)])
        then show ?thesis using t Inr r d(2) by (auto simp: with_daemon_service intro!: put [of ?d s'])
      qed
    qed
  next
    case Listening
    show ?thesis
    proof (cases "p_requests p")
      case Nil
      then show ?thesis using ok Listening by (simp add: main_turn_def Let_def)
    next
      case (Cons q qs)
      show ?thesis
      proof (cases "\<exists>i n prompt. q = ReqInfer i n prompt")
        case True
        then obtain i n prompt where "q = ReqInfer i n prompt" by blast
        moreover have "proc_ok (p\<lparr>p_requests := qs\<rparr>)" using ok by (simp add: proc_ok_def)
        ultimately show ?thesis
          using main_turn_infer [OF Listening] Cons
          by (auto simp: begin_infer_def proc_ok_def with_daemon_service puts_def as_daemon_def)
      next
        case False
        then have t: "main_turn e en p = bindR (exec_request e en q (as_daemon p)) (\<lambda>d'. Inr (with_daemon d' p\<lparr>p_requests := qs\<rparr>))"
          using main_turn_other [OF Listening Cons] by blast
        have "proc_ok (with_daemon d' p\<lparr>p_requests := qs\<rparr>)" if x: "exec_request e en q (as_daemon p) = Inr d'" for d'
          using exec_request_sim [OF g(4) x]
          by (auto simp: holds_def with_daemon_service intro!: put [of d'])
        then show ?thesis
          using exec_request_fault [OF g(4)] False t by (auto simp: bindR_Inr_iff bindR_Inl_iff)
      qed
    qed
  qed
  then show "main_turn e en p = Inr p' \<Longrightarrow> proc_ok p'"
    and "main_turn e en p = Inl f \<Longrightarrow> f = DanglingReference \<or> f = LengthError" by blast+
qed

interpretation any_process: machine "proc_exec e en" proc_ok "\<lambda>_. True" "\<lambda>f. f = DanglingReference \<or> f = LengthError" for e en
proof unfold_locales
  show "proc_ok p'" if ok: "proc_ok p" and x: "proc_exec e en st p = Inr p'" for p st p'
  proof (cases st)
    case (Service c)
    then obtain h where "hal_step e c (p_service p) = Inr h" "p' = p\<lparr>p_service := h\<rparr>" using x by (auto simp: bindR_Inr_iff)
    then show ?thesis using ok hal.keeps hal_step_ready by (fastforce simp: proc_ok_def)
  qed (use ok x main_ok(1) in auto)
  show "f = DanglingReference \<or> f = LengthError" if ok: "proc_ok p" and x: "proc_exec e en st p = Inl f" for p st f
  proof (cases st)
    case (Service c)
    then have "hal_step e c (p_service p) = Inl f" using x by (simp add: bindR_Inl_iff)
    then show ?thesis using hal.faults ok by (fastforce simp: proc_ok_def)
  qed (use ok x main_ok(2) in auto)
qed

subsection \<open>Properties\<close>

fun mild_request :: "request \<Rightarrow> bool" where
  \<comment> \<open>polite in every state\<close>
  "mild_request (ReqInfer i n prompt) = (0 \<le> n)"
| "mild_request ReqHello = True"
| "mild_request q = False"

fun mild_step :: "proc_step \<Rightarrow> bool" where
  "mild_step Main = True"
| "mild_step (Service (Turn k)) = True"
| "mild_step (Service (CallInferStream i prompt n)) = (0 \<le> n)"
| "mild_step (Service c) = False"

lemma mild_polite:
  assumes "mild_step st" "list_all mild_request (p_requests p)" shows "polite st p"
proof (cases st)
  case (Service c)
  then show ?thesis using assms(1) by (cases c) (auto simp: disciplined_def)
next
  case Main
  have "polite_request q h" if "mild_request q" for q h using that by (cases q) auto
  then show ?thesis using Main assms(2) by (auto split: list.split)
qed

lemma requests_only_read:
  assumes "proc_exec e en st p = Inr p'" shows "set (p_requests p') \<subseteq> set (p_requests p)"
proof (cases st)
  case Main
  have "p_requests (begin_infer i n prompt q) = p_requests q" for i n prompt q by (simp add: begin_infer_def)
  then show ?thesis
    using assms Main
    by (auto simp: main_turn_def Let_def bindR_Inr_iff split: job.splits infer_phase.splits list.splits request.splits)
qed (use assms in \<open>auto simp: bindR_Inr_iff\<close>)

lemma mild_guarded:
  "list_all mild_step sts \<Longrightarrow> list_all mild_request (p_requests p) \<Longrightarrow> guardedR (proc_exec e en) polite sts p"
proof (induction sts arbitrary: p)
  case (Cons st sts)
  have "guardedR (proc_exec e en) polite sts p'" if "proc_exec e en st p = Inr p'" for p'
    using Cons.IH [of p'] Cons.prems requests_only_read [OF that] by (auto simp: list_all_iff)
  then show ?case using Cons.prems mild_polite by (auto split: sum.split)
qed simp

lemma mild_after_create:
  assumes "polite_request (ReqCreate i) (hal_start g w)" "list_all mild_step sts" "list_all mild_request qs"
  shows "guardedR (proc_exec e en) polite (Main # sts) (process_start (serving g w) (ReqCreate i # qs))"
proof -
  let ?p = "process_start (serving g w) (ReqCreate i # qs)"
  have "polite Main ?p" using assms(1) by (simp add: process_start_def serving_def)
  moreover have "guardedR (proc_exec e en) polite sts p'" if "proc_exec e en Main ?p = Inr p'" for p'
  proof -
    have "main_turn e en ?p = bindR (exec_request e en (ReqCreate i) (as_daemon ?p)) (\<lambda>d'. Inr (with_daemon d' ?p\<lparr>p_requests := qs\<rparr>))"
      by (rule main_turn_other) (simp_all add: process_start_def)
    then have "p_requests p' = qs" using that by (auto simp: bindR_Inr_iff simp del: exec_request.simps)
    then show ?thesis using mild_guarded assms(2,3) by simp
  qed
  ultimately show ?thesis by (simp split: sum.split)
qed

lemma demo_start:
  assumes "demo_engine = Inr (g, w)"
  shows "engine_ok (demo_env 60) (d_engine (serving g w)) (d_hist (serving g w))" "engine_isReady (d_engine (serving g w))"
    "ctx_safe (d_hist (serving g w))" "\<And>s. le_sessions (d_engine (serving g w)) = Some s \<Longrightarrow> room s"
  using demo_engine_ok [OF assms] demo_safe [OF assms] by (simp_all add: serving_def)

lemma demo_process_safe:
  assumes "demo_engine = Inr (g, w)" shows "proc_safe (demo_env 60) (process_start (serving g w) qs)"
  using proc_safe_start demo_start [OF assms] by blast

lemma main_until_use:
  \<comment> \<open>the main thread goes on with its context, up to its use\<close>
  assumes "p_job p = Serving i n prompt ph" "phase_ctx ph = Some c" "until_use False ph = Some k"
    and "runR (proc_exec e en) (replicate k Main) p = Inr p'" "c \<notin> live (h_hist (p_service p))"
  shows "\<not> ctx_safe (h_hist (p_service p'))"
proof -
  have turn: "\<exists>s m ph' s' w' out'. infer_turn_on (activateForInfer e) (recordTokens e) e m i prompt n None token_line ph s
      (h_hist (p_service p)) (p_output p) = Inr (ph', s', w', out') \<and> h_hist (p_service p') = w' \<and> p_job p' = Serving i n prompt ph'"
    if "p_job p = Serving i n prompt ph" "phase_ctx ph = Some c" "main_turn e en p = Inr p'" for p ph p'
  proof -
    have "\<And>ok. ph \<noteq> Returned ok" using that(2) by auto
    note M = main_turn_serving [OF that(1) this, of e en] and x = that(3)
    obtain ph' g' w' out' where
      t: "infer_turn e i prompt n None token_line ph (h_engine (p_service p)) (h_hist (p_service p)) (p_output p) = Inr (ph', g', w', out')"
      and p': "p' = with_daemon (as_daemon p\<lparr>d_engine := g', d_hist := w', d_out := out'\<rparr>) p\<lparr>p_job := Serving i n prompt ph'\<rparr>"
      using x unfolding M bindR_Inr_iff by (auto simp: as_daemon_def)
    show ?thesis by (rule infer_turnE [OF t]) (auto simp: p' with_daemon_service)
  qed
  consider "k = 1" | "k = 2" using until_use_cases [OF assms(3)] by blast
  then show ?thesis
  proof cases
    case 1
    then have "main_turn e en p = Inr p'" using assms(4) by (simp add: bindR_Inr_iff)
    from turn [OF assms(1,2) this] obtain s m ph' s' w' out' where t: "infer_turn_on (activateForInfer e) (recordTokens e) e m i prompt n
        None token_line ph s (h_hist (p_service p)) (p_output p) = Inr (ph', s', w', out')" "h_hist (p_service p') = w'" by blast
    show ?thesis using use_at_once(2) [OF t(1) assms(2)] assms(3,5) 1 t(2) by simp
  next
    case 2
    then obtain p1 where p1: "main_turn e en p = Inr p1" "main_turn e en p1 = Inr p'"
      using assms(4) by (auto simp: bindR_Inr_iff eval_nat_numeral)
    from turn [OF assms(1,2) p1(1)] obtain s m ph' s' w' out' where t: "infer_turn_on (activateForInfer e) (recordTokens e) e m i prompt n
        None token_line ph s (h_hist (p_service p)) (p_output p) = Inr (ph', s', w', out')" "h_hist (p_service p1) = w'"
      "p_job p1 = Serving i n prompt ph'" by blast
    have "until_use (None = Some True) ph = Some 2" using assms(3) 2 by simp
    note N = use_next [OF t(1) assms(2) this]
    from turn [OF t(3) N(3) p1(2)] obtain s m ph2 s2 w2 out2 where u: "infer_turn_on (activateForInfer e) (recordTokens e) e m i prompt n
        None token_line ph' s (h_hist (p_service p1)) (p_output p1) = Inr (ph2, s2, w2, out2)" "h_hist (p_service p') = w2" by blast
    show ?thesis using use_at_once(2) [OF u(1) N(3,4)] assms(5) N(2) t(2) u(2) by simp
  qed
qed

text \<open>
  C24: Destroying, over the binder, the session that the socket client is generating on frees the
  context under the main thread: the next step of the main thread that uses the context passes the
  freed context to the library, from every state the process can have been brought to safely.
\<close>

theorem destroyed_under_main_thread:
  assumes "proc_safe e p" "p_job p = Serving i n prompt ph" "until_use False ph = Some k"
    and "runR (proc_exec e en) (Service (CallDestroySession i) # replicate k Main) p = Inr p'"
  shows "ctx_safe (h_hist (p_service p)) \<and> \<not> ctx_safe (h_hist (p_service p'))"
proof -
  obtain s m where g: "le_sessions (h_engine (p_service p)) = Some s" "le_model (h_engine (p_service p)) = Some m"
    "sm_inv s" and H: "\<And>i c. (i, c) \<in> held p \<Longrightarrow> ctx_of s i = Some c"
    by (rule proc_safe_parts [OF assms(1)]) blast
  obtain c where ph: "phase_ctx ph = Some c" using assms(3) by (cases rule: infer_phase_cases [of ph]) auto
  obtain h where h: "hal_destroySession i (p_service p) = Inr h" "runR (proc_exec e en) (replicate k Main) (p\<lparr>p_service := h\<rparr>) = Inr p'"
    using assms(4) by (auto simp: bindR_Inr_iff)
  have "ctx_of s i = Some c" using H assms(2) ph by (simp add: held_def)
  from kill_frees [OF g(3) this, of "h_hist (p_service p)"] obtain s' where
    "killSession i s (h_hist (p_service p)) = Inr (True, s', LlamaFree c # h_hist (p_service p))" by blast
  then have "h_hist h = LlamaFree c # h_hist (p_service p)"
    using h(1) g(1,2) by (auto simp: hal_destroySession_def engine_isReady_def)
  then have "c \<notin> live (h_hist h)" by simp
  then have "\<not> ctx_safe (h_hist (p_service p'))"
    using main_until_use [OF _ ph assms(3) h(2)] assms(2) by simp
  then show ?thesis using proc_safe_live(1) [OF assms(1)] by blast
qed

theorem destroyed_under_main_thread_witness:
  "\<exists>g w p p'. demo_engine = Inr (g, w) \<and>
     runR (proc_exec (demo_env 60) (demo_env 60)) [Main, Main, Main, Main] (process_start (serving g w) [ReqInfer 1 2 ''hi'']) = Inr p \<and>
     runR (proc_exec (demo_env 60) (demo_env 60)) [Service (CallDestroySession 1), Main, Main] p = Inr p' \<and>
     \<not> ctx_safe (h_hist (p_service p'))"
proof -
  let ?e = "demo_env 60" let ?qs = "[ReqInfer 1 2 ''hi'']" let ?run = "runR (proc_exec ?e ?e)"
  let ?ds = "[Service (CallDestroySession 1), Main, Main]"
  have "with_engine (\<lambda>g w. case ?run [Main, Main, Main, Main] (process_start (serving g w) ?qs) of
      Inl f \<Rightarrow> False
    | Inr p \<Rightarrow> (case p_job p of Serving i n prompt (Decoding c k gen) \<Rightarrow> i = 1 \<and> k = 2 | _ \<Rightarrow> False) \<and>
        fault_of (?run ?ds p) = None)"
    by code_simp
  then obtain g w where d: "demo_engine = Inr (g, w)" and o: "case ?run [Main, Main, Main, Main] (process_start (serving g w) ?qs) of
      Inl f \<Rightarrow> False
    | Inr p \<Rightarrow> (case p_job p of Serving i n prompt (Decoding c k gen) \<Rightarrow> i = 1 \<and> k = 2 | _ \<Rightarrow> False) \<and>
        fault_of (?run ?ds p) = None"
    by (rule with_engineE) blast
  obtain p where r: "?run [Main, Main, Main, Main] (process_start (serving g w) ?qs) = Inr p"
    by (cases "?run [Main, Main, Main, Main] (process_start (serving g w) ?qs)") (use o in auto)
  have x: "case p_job p of Serving i n prompt (Decoding c k gen) \<Rightarrow> i = 1 \<and> k = 2 | _ \<Rightarrow> False"
    "fault_of (?run ?ds p) = None" using o unfolding r by simp_all
  obtain n prompt c gen where j: "p_job p = Serving 1 n prompt (Decoding c (Suc 1) gen)"
    using x(1) by (auto split: job.splits infer_phase.splits)
  obtain p' where r': "?run ?ds p = Inr p'"
    using x(2) by (cases "?run ?ds p") auto
  have "guardedR (proc_exec ?e ?e) polite [Main, Main, Main, Main] (process_start (serving g w) ?qs)"
    by (rule mild_guarded) (simp_all add: process_start_def)
  from safe_process.guarded_run_keeps [OF _ this r] have "proc_safe ?e p"
    using demo_process_safe [OF d] by blast
  from destroyed_under_main_thread [OF this j, of 2 ?e p'] show ?thesis using d r r' by (auto simp: eval_nat_numeral)
qed

end
