(* ===== verification/Races.thy ===== *)
theory Races
  imports Process_Clients
begin

text \<open>
  Steps that are executed at the same time.  The session manager, the sampler and the llama contexts
  have no lock (\<open>daemon/include/session_manager.h\<close> says so), while the main thread, the threads of the
  streams and the binder threads use them: two accesses to one of them that overlap, one of them
  writing, are a data race, and undefined behaviour.  Here a step of the process begins, and is over
  some steps later; a race, and a freed context that is passed to the library, end the run.
\<close>

subsection \<open>Accesses\<close>

datatype agent =
    StreamThread nat
  | MainThread
  | BinderThread nat

datatype resource =
    Manager \<comment> \<open>the \<open>SessionManager\<close>: its map, its lists, its counters\<close>
  | Sampler \<comment> \<open>\<open>mSampler\<close>\<close>
  | Context ctx

datatype access =
    Reads resource
  | Writes resource

fun conflict :: "access \<Rightarrow> access \<Rightarrow> bool" where
  "conflict (Reads r) (Reads q) = False"
| "conflict (Reads r) (Writes q) = (r = q)"
| "conflict (Writes r) (Reads q) = (r = q)"
| "conflict (Writes r) (Writes q) = (r = q)"

definition on_session :: "bool \<Rightarrow> llm_engine \<Rightarrow> int \<Rightarrow> access" where
  \<comment> \<open>a call that only looks the session up, unless it is there (\<open>known\<close>), or unless it is not\<close>
  "on_session known g i =
     (if (Option.bind (le_sessions g) (\<lambda>s. mSessions s i) \<noteq> None) = known then Writes Manager else Reads Manager)"

fun infer_access :: "llm_engine \<Rightarrow> int \<Rightarrow> infer_phase \<Rightarrow> access list" where
  \<comment> \<open>\<open>activateForInfer\<close>, \<open>recordTokens\<close>, \<open>llama_sampler_sample\<close>\<close>
  "infer_access g i Start = [on_session True g i]"
| "infer_access g i (Prefilled c) = [on_session True g i]"
| "infer_access g i (Decoding c 0 gen) = [on_session True g i]"
| "infer_access g i (Checked c k gen) = [Writes Sampler]"
| "infer_access g i ph = []"

fun hal_access :: "hal_call \<Rightarrow> hal \<Rightarrow> access list" where
  \<comment> \<open>the table of cancel flags has its mutex, the flags and the request counter are atomic\<close>
  "hal_access (CallCreateSession i) h = (if engine_isReady (h_engine h) then [on_session False (h_engine h) i] else [])"
| "hal_access (CallDestroySession i) h = (if engine_isReady (h_engine h) then [on_session True (h_engine h) i] else [])"
| "hal_access (Turn k) h =
     (if length (h_threads h) \<le> k then []
      else case th_phase (h_threads h ! k) of
        Inferring ph \<Rightarrow> infer_access (h_engine h) (th_session (h_threads h ! k)) ph
      | _ \<Rightarrow> [])"
| "hal_access c h = []"

fun request_access :: "request \<Rightarrow> llm_engine \<Rightarrow> access list" where
  "request_access (ReqCreate i) g = [on_session False g i]"
| "request_access (ReqKill i) g = [on_session True g i]"
| "request_access (ReqHotLimit n) g = [Writes Manager]"
| "request_access (ReqColdLimit n) g = [Writes Manager]"
| "request_access q g = []"

definition main_access :: "process \<Rightarrow> access list" where
  "main_access p =
     (case p_job p of
        Listening \<Rightarrow> (case p_requests p of [] \<Rightarrow> [] | q # qs \<Rightarrow> request_access q (h_engine (p_service p)))
      | Serving i n prompt ph \<Rightarrow> infer_access (h_engine (p_service p)) i ph)"

fun step_access :: "proc_step \<Rightarrow> process \<Rightarrow> access list" where
  "step_access (Service c) p = hal_access c (p_service p)"
| "step_access Main p = main_access p"

definition context_access :: "history \<Rightarrow> history \<Rightarrow> access list" where
  \<comment> \<open>the contexts passed to the library on the way from one history to the other\<close>
  "context_access w w' = map (Writes \<circ> Context) (List.map_filter used_ctx (take (length w' - length w) w'))"

subsection \<open>Steps with a beginning and an end\<close>

record shared_process =
  r_process :: process
  r_active :: "(agent \<times> access list) list" \<comment> \<open>the accesses in progress\<close>

datatype race_step =
    Begin nat proc_step \<comment> \<open>the number is that of the binder thread, if the step is a binder call\<close>
  | End agent

fun agent_of :: "nat \<Rightarrow> proc_step \<Rightarrow> agent" where
  "agent_of b (Service (Turn k)) = StreamThread k"
| "agent_of b (Service c) = BinderThread b"
| "agent_of b Main = MainThread"

fun race_exec :: "llama_env \<Rightarrow> llama_env \<Rightarrow> race_step \<Rightarrow> shared_process \<Rightarrow> shared_process result" where
  \<comment> \<open>a thread begins one step at a time; while no other access conflicts, it does not matter when in its
    course a step has its effect\<close>
  "race_exec e en (Begin b st) r =
     (if agent_of b st \<in> fst ` set (r_active r) then Inr r
      else bindR (proc_exec e en st (r_process r)) (\<lambda>p'.
        let accesses = step_access st (r_process r) @ context_access (h_hist (p_service (r_process r))) (h_hist (p_service p')) in
        if list_ex (\<lambda>(a, held). list_ex (\<lambda>x. list_ex (conflict x) held) accesses) (r_active r) then Inl DataRace
        else if \<not> ctx_safe (h_hist (p_service p')) then Inl FreedContext
        else Inr (r\<lparr>r_process := p', r_active := (agent_of b st, accesses) # r_active r\<rparr>)))"
| "race_exec e en (End a) r = Inr (r\<lparr>r_active := filter (\<lambda>x. fst x \<noteq> a) (r_active r)\<rparr>)"

definition race_start :: "process \<Rightarrow> shared_process" where
  "race_start p = \<lparr>r_process = p, r_active = []\<rparr>"

fun turn_by_turn :: "race_step list \<Rightarrow> bool" where
  \<comment> \<open>every step is over before the next one begins\<close>
  "turn_by_turn [] = True"
| "turn_by_turn [Begin b st] = True"
| "turn_by_turn (Begin b st # End a # steps) = (a = agent_of b st \<and> turn_by_turn steps)"
| "turn_by_turn steps = False"

fun polite_begin :: "race_step \<Rightarrow> shared_process \<Rightarrow> bool" where
  "polite_begin (Begin b st) r = polite st (r_process r)"
| "polite_begin (End a) r = True"

lemma begin_Inr:
  assumes "race_exec e en (Begin b st) r = Inr r'"
  shows "r' = r \<or> proc_exec e en st (r_process r) = Inr (r_process r') \<and> ctx_safe (h_hist (p_service (r_process r')))"
  using assms by (auto simp: bindR_Inr_iff Let_def simp del: proc_exec.simps split: if_splits)

lemma begin_Inl:
  assumes "race_exec e en (Begin b st) r = Inl f"
  shows "proc_exec e en st (r_process r) = Inl f \<or> f = DataRace \<and> r_active r \<noteq> [] \<or>
    (\<exists>p'. f = FreedContext \<and> proc_exec e en st (r_process r) = Inr p' \<and> \<not> ctx_safe (h_hist (p_service p')))"
  using assms by (auto simp: bindR_Inl_iff Let_def simp del: proc_exec.simps split: if_splits)

subsection \<open>Disciplined clients, and any clients\<close>

interpretation safe_races: guarded_machine "race_exec e en" "\<lambda>r. proc_safe e (r_process r)" polite_begin
  "\<lambda>f. f = DataRace \<or> f = LengthError \<and> \<not> (piece_fits e \<and> piece_fits en)" for e en
proof unfold_locales
  fix r st r'
  assume inv: "proc_safe e (r_process r)" and g: "polite_begin st r" and x: "race_exec e en st r = Inr r'"
  show "proc_safe e (r_process r')"
  proof (cases st)
    case (Begin b s)
    then show ?thesis using begin_Inr [of e en b s r r'] x g inv safe_process.guarded_keeps [OF inv] by auto
  qed (use x inv in auto)
next
  fix r st f
  assume inv: "proc_safe e (r_process r)" and g: "polite_begin st r" and x: "race_exec e en st r = Inl f"
  show "f = DataRace \<or> f = LengthError \<and> \<not> (piece_fits e \<and> piece_fits en)"
  proof (cases st)
    case (Begin b s)
    have "ctx_safe (h_hist (p_service p'))" if "proc_exec e en s (r_process r) = Inr p'" for p'
      using safe_process.guarded_keeps [OF inv _ that] g Begin proc_safe_live(1) by auto
    then show ?thesis
      using begin_Inl [of e en b s r f] x g Begin safe_process.guarded_faults [OF inv] by auto
  qed (use x in auto)
qed

interpretation any_races: machine "race_exec e en" "\<lambda>r. proc_ok (r_process r)" "\<lambda>_. True"
  "\<lambda>f. f = DanglingReference \<or> f = LengthError \<or> f = FreedContext \<or> f = DataRace" for e en
proof unfold_locales
  fix r st r'
  assume inv: "proc_ok (r_process r)" and x: "race_exec e en st r = Inr r'"
  show "proc_ok (r_process r')"
  proof (cases st)
    case (Begin b s)
    then show ?thesis using begin_Inr [of e en b s r r'] x inv any_process.keeps [OF inv] by auto
  qed (use x inv in auto)
next
  fix r st f
  assume inv: "proc_ok (r_process r)" and x: "race_exec e en st r = Inl f"
  show "f = DanglingReference \<or> f = LengthError \<or> f = FreedContext \<or> f = DataRace"
  proof (cases st)
    case (Begin b s)
    then show ?thesis using begin_Inl [of e en b s r f] x any_process.faults [OF inv] by auto
  qed (use x in auto)
qed

lemma proc_safe_ok: "proc_safe e p \<Longrightarrow> proc_ok p"
  by (simp add: proc_safe_def proc_ok_def hal_safe_def)

lemma turn_by_turn_no_race:
  assumes "turn_by_turn steps" "r_active r = []" "proc_ok (r_process r)"
  shows "runR (race_exec e en) steps r \<noteq> Inl DataRace"
  using assms
proof (induction steps arbitrary: r rule: turn_by_turn.induct)
  case (2 b st)
  then show ?case
    using begin_Inl [of e en b st r DataRace] any_process.faults [OF 2(3)]
    by (auto simp: bindR_Inl_iff simp del: race_exec.simps)
next
  case (3 b st a steps)
  have no: "race_exec e en (Begin b st) r \<noteq> Inl DataRace"
    using begin_Inl [of e en b st r DataRace] any_process.faults [OF 3(4)] 3(3) by auto
  show ?case
  proof (cases "race_exec e en (Begin b st) r")
    case (Inr r1)
    obtain accs where act: "r_active r1 = [(agent_of b st, accs)]"
      using Inr 3(3) by (auto simp: bindR_Inr_iff Let_def simp del: proc_exec.simps split: if_splits)
    let ?r = "r1\<lparr>r_active := []\<rparr>"
    have "race_exec e en (End a) r1 = Inr ?r" using act 3(2) by simp
    moreover have "proc_ok (r_process r1)" using any_races.keeps [OF _ _ Inr] 3(4) by simp
    ultimately show ?thesis using 3(1) [of ?r] 3(2) Inr by (simp del: race_exec.simps)
  qed (use no in simp)
qed simp_all

fun mild_race :: "race_step \<Rightarrow> bool" where
  "mild_race (Begin b st) = mild_step st"
| "mild_race (End a) = True"

lemma race_requests:
  assumes "race_exec e en st r = Inr r'" shows "set (p_requests (r_process r')) \<subseteq> set (p_requests (r_process r))"
proof (cases st)
  case (Begin b s)
  then show ?thesis using begin_Inr [of e en b s r r'] requests_only_read assms by fastforce
qed (use assms in auto)

lemma mild_race_guarded:
  "list_all mild_race steps \<Longrightarrow> list_all mild_request (p_requests (r_process r)) \<Longrightarrow> guardedR (race_exec e en) polite_begin steps r"
proof (induction steps arbitrary: r)
  case (Cons st steps)
  have "polite_begin st r" using Cons.prems mild_polite by (cases st) auto
  moreover have "guardedR (race_exec e en) polite_begin steps r'" if "race_exec e en st r = Inr r'" for r'
    using Cons.IH [of r'] Cons.prems race_requests [OF that] by (auto simp: list_all_iff)
  ultimately show ?case by (auto split: sum.split simp del: race_exec.simps)
qed simp

lemma create_race_guarded:
  assumes "polite_request (ReqCreate i) (hal_start g w)" "list_all mild_race steps" "list_all mild_request qs"
  shows "guardedR (race_exec e en) polite_begin (Begin 0 Main # steps) (race_start (process_start (serving g w) (ReqCreate i # qs)))"
proof -
  let ?p = "process_start (serving g w) (ReqCreate i # qs)"
  have "polite Main ?p" using assms(1) by (simp add: process_start_def serving_def)
  moreover have "guardedR (race_exec e en) polite_begin steps r" if "race_exec e en (Begin 0 Main) (race_start ?p) = Inr r" for r
  proof -
    have "agent_of 0 Main \<notin> fst ` set (r_active (race_start ?p))" by (simp add: race_start_def)
    then have turn: "main_turn e en ?p = Inr (r_process r)"
      using that by (auto simp: bindR_Inr_iff Let_def race_start_def split: if_splits)
    have "main_turn e en ?p = bindR (exec_request e en (ReqCreate i) (as_daemon ?p)) (\<lambda>d'. Inr (with_daemon d' ?p\<lparr>p_requests := qs\<rparr>))"
      by (rule main_turn_other) (simp_all add: process_start_def)
    then have "p_requests (r_process r) = qs"
      unfolding turn by (cases "exec_request e en (ReqCreate i) (as_daemon ?p)") (simp_all del: exec_request.simps)
    then show ?thesis using mild_race_guarded assms(2,3) by simp
  qed
  ultimately show ?thesis by (simp add: race_start_def split: sum.split del: race_exec.simps)
qed

subsection \<open>Properties\<close>

text \<open>
  C6: The clients of both interfaces together are safe from the start of the process on if they
  observe the discipline: no client destroys a session that a stream, or an inference on the socket,
  is using, there are never more sessions than may be HOT, and token counts are not negative.  Then,
  whatever the interleaving of binder calls, threads and turns of the main thread, no library call
  receives a freed context, every thread that has got a context from the session manager in \<open>infer\<close>,
  the main thread included, has a live one until it returns, and the process can be ended by two
  faults only: a \<open>length_error\<close>, if the text of some token does not fit the buffer of 256 bytes, and
  a data race, if accesses overlap in time, from which the discipline does not protect (the code has no
  lock); where each step is over before the next begins, there is none.
\<close>

theorem process_clients_are_safe:
  assumes "fresh_init e"
    and "load e [] path nCtx nThreads (LLMEngine zero) [] = Inr (True, g, w)"
    and "guardedR (race_exec e en) polite_begin steps (race_start (process_start (serving g w) qs))"
  shows "case runR (race_exec e en) steps (race_start (process_start (serving g w) qs)) of
      Inl f \<Rightarrow> f = LengthError \<and> \<not> (piece_fits e \<and> piece_fits en) \<or> f = DataRace \<and> \<not> turn_by_turn steps
    | Inr r \<Rightarrow> let p = r_process r in
        ctx_safe (h_hist (p_service p)) \<and>
        (\<forall>t \<in> set (h_threads (p_service p)). \<forall>ph c. th_phase t = Inferring ph \<and> phase_ctx ph = Some c \<longrightarrow>
           c \<in> live (h_hist (p_service p))) \<and>
        (\<forall>i n prompt ph c. p_job p = Serving i n prompt ph \<and> phase_ctx ph = Some c \<longrightarrow> c \<in> live (h_hist (p_service p)))"
proof -
  let ?r = "race_start (process_start (serving g w) qs)"
  have safe: "proc_safe e (r_process ?r)" using loaded_safe [OF assms(1,2)] by (simp add: race_start_def)
  show ?thesis
  proof (cases "runR (race_exec e en) steps ?r")
    case (Inl f)
    have "f \<noteq> DataRace" if "turn_by_turn steps"
      using turn_by_turn_no_race [OF that _ proc_safe_ok [OF safe], of e en] Inl by (auto simp: race_start_def)
    then show ?thesis using safe_races.guarded_run_faults [OF safe assms(3) Inl] Inl by auto
  next
    case (Inr r)
    have "proc_safe e (r_process r)" by (rule safe_races.guarded_run_keeps [OF safe assms(3) Inr])
    then show ?thesis using Inr proc_safe_live [of e "r_process r"] by (simp add: Let_def)
  qed
qed


definition mixed_race :: "race_step list" where
  \<comment> \<open>a stream on the session that the socket client has created; while it decodes, the main thread
    reads the next request\<close>
  "mixed_race = [End MainThread, Begin 0 (Service (CallInferStream 1 ''a'' 1)), End (BinderThread 0),
     Begin 0 (Service (Turn 0)), End (StreamThread 0), Begin 0 (Service (Turn 0)), Begin 0 Main, End MainThread,
     End (StreamThread 0), Begin 0 (Service (Turn 0)), End (StreamThread 0)]"

theorem process_clients_are_safe_witness:
  "\<exists>g w r. load (demo_env 60) [] ''m'' 16 4 (LLMEngine demo_ctx_params) [] = Inr (True, g, w) \<and>
     runR (race_exec (demo_env 60) (demo_env 60)) (Begin 0 Main # mixed_race)
       (race_start (process_start (serving g w) [ReqCreate 1, ReqInfer 1 2 ''hi''])) = Inr r \<and>
     \<not> turn_by_turn (Begin 0 Main # mixed_race) \<and> ctx_safe (h_hist (p_service (r_process r))) \<and>
     (\<exists>t \<in> set (h_threads (p_service (r_process r))). \<exists>c n gen.
       th_phase t = Inferring (Decoding c n gen) \<and> c \<in> live (h_hist (p_service (r_process r))))"
proof -
  let ?e = "demo_env 60" let ?qs = "[ReqCreate 1, ReqInfer 1 2 ''hi'']"
  let ?load = "load ?e [] ''m'' 16 4 (LLMEngine demo_ctx_params) []"
  let ?run = "\<lambda>g w. runR (race_exec ?e ?e) (Begin 0 Main # mixed_race) (race_start (process_start (serving g w) ?qs))"
  have "case ?load of Inl f \<Rightarrow> False | Inr (ok, g, w) \<Rightarrow> ok \<and> (case ?run g w of
      Inl f \<Rightarrow> False
    | Inr r \<Rightarrow> (case map th_phase (h_threads (p_service (r_process r))) of [Inferring (Decoding c n gen)] \<Rightarrow> True | _ \<Rightarrow> False))"
    by code_simp
  then obtain g w where d: "?load = Inr (True, g, w)" and o: "case ?run g w of
      Inl f \<Rightarrow> False
    | Inr r \<Rightarrow> (case map th_phase (h_threads (p_service (r_process r))) of [Inferring (Decoding c n gen)] \<Rightarrow> True | _ \<Rightarrow> False)"
    by (cases ?load) (auto split: prod.splits)
  have g: "guardedR (race_exec ?e ?e) polite_begin (Begin 0 Main # mixed_race) (race_start (process_start (serving g w) ?qs))"
    using loaded_polite [OF demo_fresh d] by (rule create_race_guarded) (simp_all add: mixed_race_def)
  obtain r where r: "?run g w = Inr r" using o by (cases "?run g w") auto
  obtain t c n gen where t: "h_threads (p_service (r_process r)) = [t]" "th_phase t = Inferring (Decoding c n gen)"
    using o unfolding r by (auto split: list.splits phase.splits infer_phase.splits)
  from process_clients_are_safe [OF demo_fresh d g] have "ctx_safe (h_hist (p_service (r_process r)))"
    "c \<in> live (h_hist (p_service (r_process r)))"
    unfolding r using t by (auto simp: Let_def)
  moreover have "\<not> turn_by_turn (Begin 0 Main # mixed_race)" by (simp add: mixed_race_def)
  ultimately show ?thesis using d r t by (intro exI [of _ g] exI [of _ w] exI [of _ r]) auto
qed

text \<open>
  C14: Whatever its clients do on both interfaces, in whatever order and at whatever time, the process
  with a loaded engine can be ended by four faults only: the dangling reference of \<open>activateForInfer\<close>, a
  \<open>length_error\<close> of a negative token count or an oversized token text, a freed context that reaches the
  library, and a data race; the last only if accesses overlap in time.
\<close>

theorem process_faults:
  assumes "engine_ok e (d_engine d) (d_hist d)" "engine_isReady (d_engine d)"
    and "runR (race_exec e en) steps (race_start (process_start d qs)) = Inl f"
  shows "f = DanglingReference \<or> f = LengthError \<or> f = FreedContext \<or> f = DataRace \<and> \<not> turn_by_turn steps"
proof -
  have ok: "proc_ok (r_process (race_start (process_start d qs)))"
    using assms(1,2) hal_inv_start [of e "d_engine d" "d_hist d"]
    by (simp add: race_start_def proc_ok_def process_start_def hal_start_def)
  have "f \<noteq> DataRace" if "turn_by_turn steps"
    using turn_by_turn_no_race [OF that _ ok, of e en] assms(3) by (auto simp: race_start_def)
  then show ?thesis using any_races.run_faults [OF ok _ assms(3)] by (auto simp: list_all_iff)
qed

definition two_streams :: "race_step list" where
  \<comment> \<open>the activations of two streams overlap\<close>
  "two_streams = [Begin 0 (Service (CallInferStream 1 ''a'' 1)), End (BinderThread 0),
     Begin 0 (Service (CallInferStream 2 ''b'' 1)), End (BinderThread 0), Begin 0 (Service (Turn 0)), Begin 0 (Service (Turn 1))]"

theorem process_faults_witness:
  "\<exists>g w f. demo_engine = Inr (g, w) \<and>
     runR (race_exec (demo_env 60) (demo_env 60)) two_streams (race_start (process_start (serving g w) [])) = Inl f \<and>
     f \<noteq> DanglingReference \<and> f \<noteq> LengthError \<and> f \<noteq> FreedContext \<and> f = DataRace \<and> \<not> turn_by_turn two_streams"
proof -
  let ?e = "demo_env 60"
  let ?run = "\<lambda>g w. runR (race_exec ?e ?e) two_streams (race_start (process_start (serving g w) []))"
  have "with_engine (\<lambda>g w. fault_of (?run g w) = Some DataRace)" by code_simp
  then obtain g w where d: "demo_engine = Inr (g, w)" and o: "fault_of (?run g w) = Some DataRace"
    by (rule with_engineE) blast
  have r: "?run g w = Inl DataRace" using o by (simp only: fault_of_Some)
  from process_faults [OF demo_start(1,2) [OF d] r] show ?thesis using d r by blast
qed



end
