(* ===== verification/Ggml_Cpp.thy ===== *)
theory Ggml_Cpp
  imports Ggml_Types
begin

text \<open>
  The deleters of \<open>prebuilts/npu/include/ggml-cpp.h\<close>, and the orders that the numbers of two
  enumerations of \<open>ggml.h\<close> stand for: scheduling priorities and log levels.
\<close>

subsection \<open>Deleters\<close>

datatype ggml_deleter =
    ggml_context_deleter
  | gguf_context_deleter
  | ggml_gallocr_deleter
  | ggml_backend_deleter
  | ggml_backend_buffer_deleter
  | ggml_backend_event_deleter
  | ggml_backend_sched_deleter

primrec deleter_call :: "ggml_deleter \<Rightarrow> ptr \<Rightarrow> string \<times> ptr" where
  \<comment> \<open>\<open>operator()\<close>: the function called and its argument\<close>
  "deleter_call ggml_context_deleter p = (''ggml_free'', p)"
| "deleter_call gguf_context_deleter p = (''gguf_free'', p)"
| "deleter_call ggml_gallocr_deleter p = (''ggml_gallocr_free'', p)"
| "deleter_call ggml_backend_deleter p = (''ggml_backend_free'', p)"
| "deleter_call ggml_backend_buffer_deleter p = (''ggml_backend_buffer_free'', p)"
| "deleter_call ggml_backend_event_deleter p = (''ggml_backend_event_free'', p)"
| "deleter_call ggml_backend_sched_deleter p = (''ggml_backend_sched_free'', p)"

subsection \<open>Orders\<close>

lemma ggml_sched_priority_val_inj: "ggml_sched_priority_val a = ggml_sched_priority_val b \<Longrightarrow> a = b"
  by (cases a; cases b) simp_all

lemma ggml_log_level_val_inj: "ggml_log_level_val a = ggml_log_level_val b \<Longrightarrow> a = b"
  by (cases a; cases b) simp_all

instantiation ggml_sched_priority :: linorder
begin

definition less_eq_ggml_sched_priority :: "ggml_sched_priority \<Rightarrow> ggml_sched_priority \<Rightarrow> bool" where
  "a \<le> b \<longleftrightarrow> ggml_sched_priority_val a \<le> ggml_sched_priority_val b"

definition less_ggml_sched_priority :: "ggml_sched_priority \<Rightarrow> ggml_sched_priority \<Rightarrow> bool" where
  "a < b \<longleftrightarrow> ggml_sched_priority_val a < ggml_sched_priority_val b"

instance
  by standard
    (auto simp: less_eq_ggml_sched_priority_def less_ggml_sched_priority_def intro: ggml_sched_priority_val_inj)

end

instantiation ggml_log_level :: linorder
begin

definition less_eq_ggml_log_level :: "ggml_log_level \<Rightarrow> ggml_log_level \<Rightarrow> bool" where
  "a \<le> b \<longleftrightarrow> ggml_log_level_val a \<le> ggml_log_level_val b"

definition less_ggml_log_level :: "ggml_log_level \<Rightarrow> ggml_log_level \<Rightarrow> bool" where
  "a < b \<longleftrightarrow> ggml_log_level_val a < ggml_log_level_val b"

instance
  by standard
    (auto simp: less_eq_ggml_log_level_def less_ggml_log_level_def intro: ggml_log_level_val_inj)

end

end
