(* ===== verification/Spec2Isabelle.thy ===== *)
theory Spec2Isabelle
  imports Session_Props Hal_Liveness Hal_Cancel Npu_Props Daemon_Props Races Ggml_Cpp
begin

text \<open>
  A verification library for the AI daemon of the repository: a process that runs a language model
  with libllama, keeps one llama context per session under a limit, and serves two interfaces, a line
  protocol on a Unix socket and a binder service.

  \<^bold>\<open>Parts of the program and their theories.\<close>

  \<^item> \<open>daemon/include/base64_util.h\<close>: \<open>Base64\<close>, the two loops with their 32-bit accumulator.
  \<^item> \<open>daemon/include/session_manager.h\<close>, \<open>daemon/src/session_manager.cpp\<close>: \<open>Session_Manager\<close> (the record
    \<open>session_manager\<close> and one definition per member function, with \<open>std::list\<close> and its iterators from
    \<open>Std_List\<close>), \<open>Session_Invariant\<close>, \<open>Session_Ops\<close> (each operation on every branch), \<open>Session_Resources\<close>
    (contexts and swap files), \<open>Session_Spec\<close> (the contract), \<open>Session_Swap\<close> (what is stored while a
    session is swapped out), \<open>Session_Props\<close>.
  \<^item> \<open>daemon/include/llm_engine.h\<close>, \<open>daemon/src/llm_engine.cpp\<close>: \<open>LLM_Engine\<close>, \<open>LLM_Props\<close>; \<open>Infer_Steps\<close>
    (\<open>infer\<close> one step at a time, as the threads of the process take them).
  \<^item> \<open>daemon/include/npu_llm_engine.h\<close>, \<open>daemon/src/npu_llm_engine.cpp\<close>: \<open>Npu_Engine\<close>, \<open>Npu_Props\<close>.
  \<^item> \<open>daemon/include/hal_service.h\<close>, \<open>daemon/src/hal_service.cpp\<close>, \<open>daemon/include/miniv_log.h\<close> and the codes
    of the AIDL files: \<open>Hal_Service\<close>, \<open>Miniv_Log\<close>, \<open>Hal_Props\<close>, \<open>Hal_Liveness\<close>, \<open>Hal_Cancel\<close> (the table of
    cancel flags), \<open>Hal_Contexts\<close> (whose context a thread decodes on, and the discipline of the clients).
  \<^item> \<open>daemon/main.cpp\<close>: \<open>Daemon\<close> (one definition per command of \<open>HandleClient\<close>, the connection, \<open>main\<close>),
    \<open>Daemon_Inv\<close>, \<open>Daemon_Client\<close>, \<open>Daemon_Props\<close>; \<open>Requests\<close> (the line protocol as a language of requests
    and the abstract server the daemon refines); \<open>Process\<close> and \<open>Process_Clients\<close> (the main thread and the
    binder service at work on the one engine \<open>gEngine\<close>), \<open>Races\<close> (steps of the threads that overlap in time).
  \<^item> \<open>cli/main.cpp\<close>: \<open>Cli\<close>.  \<open>tools/hal_test_cli/main.cpp\<close>: \<open>Hal_Test_Cli\<close>.
  \<^item> \<open>prebuilts/npu/include\<close>: \<open>Ggml_Types\<close>, \<open>Ggml_Tensor\<close>, \<open>Ggml_Cpp\<close>, \<open>Llama_Types\<close>, the data types and
    constants of the library interface.

  \<open>Prelude\<close> holds the machine types, the faults and the sequencing of fallible steps; \<open>C_Stdio\<close> the C
  library routines through which text is read and written.  \<open>Protocol\<close> puts the client and the daemon
  together, and this theory holds the properties that need both.

  \<^bold>\<open>How state and calls are modelled.\<close>  An object is a record, a member function a definition that
  returns the changed record.  An end of the execution that is not a return (undefined behaviour, an
  uncaught exception) is a value \<open>Inl f\<close> of the type \<open>fault\<close>.  Calls of libllama, of the clock and of the
  file system are events of a history, newest first; their results are functions of the history and
  the arguments, the fields of the parameter \<open>llama_env\<close>.  What the code relies on is named: \<open>fresh_init\<close>
  (a new context is a new object), \<open>saves_succeed\<close>, \<open>loads_back\<close>, \<open>piece_in_buffer\<close> (the library keeps within
  the buffer it is given), \<open>batch_of_tokens\<close> (\<open>llama_batch_get_one\<close> holds the tokens); \<open>demo_env\<close> is an
  instance on which they hold, used by the witnesses.  That a token's text may be too long for the buffer
  is not assumed away: \<open>piece_fits\<close> occurs only where a property says when a \<open>length_error\<close> is possible.  \<open>live\<close>, \<open>swap_files\<close> and \<open>ctx_safe\<close> say what a history means
  for contexts and files.  A connection is the string of the bytes sent on it.  The binder service is
  a machine whose steps are calls and turns of the detached threads, in any order; the process is that
  machine with the turns of the main thread among its steps.  A turn is one step of an inference: one
  call of the session manager, the decoding of the prompt, and in the decode loop the reading of the
  cancel flag, the sampling, the callback and the decoding of the token, each by itself.  In \<open>Races\<close> a
  step has a beginning and an end, and steps may overlap: a conflicting overlapping access to the session
  manager, the sampler or a context is the fault \<open>DataRace\<close>, and a freed context that is passed to the
  library the fault \<open>FreedContext\<close>.

  \<^bold>\<open>Interfaces.\<close>  \<open>machine\<close> (Prelude): operations that keep an invariant and fault in known ways, with
  its consequences for sequences of operations; interpreted by the session manager (\<open>sm\<close>, \<open>sm_bounded\<close>),
  the binder service (\<open>hal\<close>, \<open>cancelling\<close>, \<open>owned\<close>, \<open>orphans\<close>), the connections of the daemon (\<open>clients\<close>)
  and the process (\<open>any_process\<close>, \<open>any_races\<close>).  It is a special case of \<open>guarded_machine\<close>, whose clients give an
  operation only where a guard on the state allows it; interpreted by the service and the process under
  the discipline of their clients (\<open>safe_clients\<close>, \<open>safe_process\<close>, \<open>safe_races\<close>).  \<open>token_codec\<close>
  (C_Stdio): what the token lines need of an encoding; interpreted by base64 (\<open>b64\<close>).  \<open>session_keeper\<close>
  and \<open>session_provider\<close> (LLM_Engine): what \<open>infer\<close> needs of a session store; interpreted by the session
  manager (\<open>smk\<close>, \<open>smp\<close>).

  \<^bold>\<open>What the lemmas show.\<close>  The session manager: one invariant that ties the map, the two lists, the
  stored iterators and the byte count together, kept by every call; the live contexts are those of
  the HOT sessions; each call refines a step of an abstract least-recently-used cache; swapping out
  and in loses a pruned prefix at most.  The engines: what a successful inference streams and records,
  which faults are possible, what is freed; the steps of an inference, taken together, are \<open>infer\<close>
  (\<open>steps_infer_on\<close>).  The service: the callback protocol, the effect of
  \<open>cancel\<close> and what it cannot reach, the end of every stream.  The daemon: every connection keeps the
  invariant and writes whole reply lines; reading is separate from serving, and serving the requests
  that were read refines an abstract server over the cache of session ids, replies included; the exit
  status of the process.  The process: its main thread alone is the sequential command loop; with
  clients of both interfaces it is safe under a discipline they can observe, up to the data races of the
  unlocked code, which occur as soon as two activations overlap (\<open>activations_race\<close>); a client that breaks
  the discipline makes a thread decode on a freed context; and whatever they do only four faults are
  possible.
  Together: what the user types arrives as the prompt, what the model generates is printed, and where
  a prompt breaks the protocol.

  \<^bold>\<open>Loops.\<close>  The swap-out, eviction and line loops recurse on a measure (bytes, list lengths, unread
  input) with proved termination; the decode loops are bounded by \<open>maxTokens\<close>, so an inference takes
  at most \<open>4 * maxTokens + 4\<close> steps, and a thread of the service exits after \<open>4 * maxTokens + 6\<close> turns.
  The loop of \<open>evictColdIfNeeded\<close> alone has fuel, one more than the length of the COLD list: on every state that
  keeps the invariant a turn removes an element, so its value \<open>Diverges\<close> is never reached:
  the property on the faults of the calls lists none but the dangling reference.

  \<^bold>\<open>Integers.\<close>  \<open>size_t\<close> is a 64-bit word with wrap-around; token and session ids are \<open>int\<close>, since the
  code only compares and prints them; text is converted to 32-bit integers by \<open>to_int32\<close>.  Shifts of
  the base64 accumulator follow C++20, where they are defined for every value.

  \<^bold>\<open>Not modelled.\<close>  Log output other than the text of a line, the redirection of \<open>stderr\<close>, environment
  variables other than the presence of \<open>SKIP_CPU_ENGINE\<close>, the directories made at startup, the
  registration of the service (its failure is logged only), and failed writes to a socket: the code
  ignores their result, and the signal that a write to a closed socket raises is left out.  The two
  engines have a history each: the library is taken to keep their contexts apart.  A step has its effect
  as a whole; what two overlapping steps do to each other is not computed, it is the fault \<open>DataRace\<close>.
  Of the accesses to the session manager those of a call that only looks a session up count as reading,
  all others as writing; every use of a context counts as writing.  The clients of the socket are served
  one after the other, as in the code, and in \<open>Process\<close> what they send is one sequence of requests.
  Function prototypes of the prebuilt libraries have no code in the repository; AIDL bindings are
  generated; build, init and SELinux files are configuration.
\<close>

section \<open>Properties that span components\<close>

lemma infer_reply:
  assumes ok: "engine_ok e (d_engine d) (d_hist d)" and m: "le_model (d_engine d) = Some m"
    and x: "infer e i prompt n False token_line (d_engine d) (d_hist d) [] = Inr (ok, g', w', out')"
  shows "\<exists>toks. out' = unlines (token_lines e m toks) \<and> length toks \<le> nat n \<and>
    (if ok then \<exists>us. engine_tokens g' i = Some (us @ env_tokenize e m prompt @ toks) else toks = [])"
proof (cases ok)
  case False
  then show ?thesis using infer_tokens [OF x m] by (auto simp: token_lines_def)
next
  case True
  obtain s s' where s: "le_sessions (d_engine d) = Some s"
    and o: "infer_on (activateForInfer e) (recordTokens e) e m i prompt n False token_line s (d_hist d) [] = Inr (True, s', w', out')"
    and g': "g' = (d_engine d)\<lparr>le_sessions := Some s'\<rparr>"
    using x m True by (auto simp: infer_def bindR_Inr_iff split: option.splits)
  have "sm_good e s (d_hist d)" using ok s by (simp add: engine_ok_def)
  from smp.infer_on_records [OF this o] obtain us gen where
    "sm_tokens s' i = Some (us @ env_tokenize e m prompt @ gen)" "out' = emit e m token_line gen []" "int (length gen) \<le> n"
    by blast
  then show ?thesis using True g' by (intro exI [of _ gen]) (auto simp: emit_token_line engine_tokens_def)
qed

text \<open>
  C1: End to end: with a prompt that has no line that starts with \<open>END\<close>, no NUL and no line that
  overflows the daemon's buffer (\<open>safe_prompt\<close>), if serving it does not end the daemon,
  \<open>ai_daemon_cli infer\<close> prints, in order, the texts of at most \<open>maxTokens\<close> generated tokens, each up to
  its first NUL (the client prints with \<open>%s\<close>), and then the outcome; on success the session holds,
  after what it held, exactly the tokens of the prompt as typed and the tokens printed.  Of the library
  it needs that it keeps within the buffer of 256 bytes it is given for the text of a token.
\<close>

theorem infer_end_to_end:
  assumes "daemon_ok e d" "d_ready d" "le_model (d_engine d) = Some m" "piece_in_buffer e"
    and "safe_prompt prompt" "connected e en d p"
    and "client_loop e en (infer_message (atoi i) prompt (atoi n)) (d\<lparr>d_out := []\<rparr>) = Inr d'"
  shows "\<exists>ok toks. cli_main p [prog, ''infer'', i, prompt, n] =
      Inr \<lparr>o_sent = infer_message (atoi i) prompt (atoi n),
        o_stdout = concat (map (\<lambda>t. c_str (piece_text e m t)) toks) @ shown_verdict ok ''SESSION_NOT_FOUND'',
        o_stderr = [], o_status = 0\<rparr> \<and>
    length toks \<le> nat (atoi n) \<and>
    (if ok then \<exists>us. engine_tokens (d_engine d') (atoi i) = Some (us @ env_tokenize e m prompt @ toks) else toks = [])"
proof -
  let ?d = "d\<lparr>d_out := []\<rparr>" and ?msg = "infer_message (atoi i) prompt (atoi n)"
  have r: "engine_isReady (d_engine ?d)" using assms(2) by (simp add: d_ready_def)
  from infer_message_run [OF atoi_int32 atoi_int32 assms(5) r] assms(7) obtain ok g' w' out'
    where x: "infer e (atoi i) prompt (atoi n) False token_line (d_engine d) (d_hist d) [] = Inr (ok, g', w', out')"
      and d': "d' = puts (verdict ok ''SESSION_NOT_FOUND'') (?d\<lparr>d_engine := g', d_hist := w', d_out := out'\<rparr>)"
    by (auto simp: bindR_Inr_iff verdict_def)
  have "engine_ok e (d_engine d) (d_hist d)" using assms(1) by (simp add: daemon_ok_def)
  from infer_reply [OF this assms(3) x] obtain toks where T: "out' = unlines (token_lines e m toks)"
    "length toks \<le> nat (atoi n)"
    "if ok then \<exists>us. engine_tokens g' (atoi i) = Some (us @ env_tokenize e m prompt @ toks) else toks = []" by blast
  have "p_reply p ?msg = unlines (token_lines e m toks @ [verdict ok ''SESSION_NOT_FOUND''])"
    using assms(6,7) T(1) by (simp add: connected_def daemon_reply_def d' puts_def)
  then have "response_loop (p_reply p ?msg) [] =
      Inr (concat (map (\<lambda>t. c_str (piece_text e m t)) toks) @ shown_verdict ok ''SESSION_NOT_FOUND'')"
    using response_shown [OF assms(4), of "''SESSION_NOT_FOUND''" m toks ok] by simp
  moreover have "p_fdopen p" using assms(6) by (simp add: connected_def)
  ultimately show ?thesis
    using T(2,3) unfolding connected_main(1) [OF assms(6)]
    by (intro exI [of _ ok] exI [of _ toks]) (simp add: print_response_def d' puts_def)
qed

definition demo_peer :: "llama_env \<Rightarrow> llama_env \<Rightarrow> daemon \<Rightarrow> peer" where
  \<comment> \<open>a connection to this daemon\<close>
  "demo_peer e en d =
     \<lparr>p_socket = 3, p_connect = 0, p_fdopen = True, p_error = [], p_read = (\<lambda>msg n. (0, [])),
      p_reply = daemon_reply e en d\<rparr>"

lemma demo_connected: "connected e en d (demo_peer e en d)"
  by (simp add: connected_def demo_peer_def)

theorem infer_end_to_end_witness:
  "\<exists>g w res. demo_engine = Inr (g, w) \<and>
     cli_main (demo_peer (demo_env 60) (demo_env 60) (serving g w)) [''cli'', ''infer'', ''1'', ''hi'', ''2''] = Inr res \<and>
     o_sent res = infer_message 1 ''hi'' 2 \<and> o_status res = 0"
proof -
  let ?e = "demo_env 60"
  have "with_engine (\<lambda>g w. le_model g = Some 0 \<and>
      fault_of (client_loop ?e ?e (infer_message 1 ''hi'' 2) (serving g w\<lparr>d_out := []\<rparr>)) = None)" by code_simp
  then obtain g w where d: "demo_engine = Inr (g, w)" "engine_ok ?e g w" "engine_isReady g"
    and o: "le_model g = Some 0" "fault_of (client_loop ?e ?e (infer_message 1 ''hi'' 2) (serving g w\<lparr>d_out := []\<rparr>)) = None"
    by (rule with_engineE) blast
  have a: "atoi ''1'' = 1" "atoi ''2'' = 2" by code_simp+
  obtain d' where r: "client_loop ?e ?e (infer_message (atoi ''1'') ''hi'' (atoi ''2'')) (serving g w\<lparr>d_out := []\<rparr>) = Inr d'"
    using o(2) unfolding a
    by (cases "client_loop ?e ?e (infer_message 1 ''hi'' 2) (serving g w\<lparr>d_out := []\<rparr>)") auto
  have h: "d_ready (serving g w)" "le_model (d_engine (serving g w)) = Some 0"
    using d(3) o(1) by (simp_all add: d_ready_def serving_def)
  have "safe_prompt ''hi''" by code_simp
  from infer_end_to_end [OF serving_ok [OF d(2)] h demo_piece(2) this demo_connected r, of "''cli''"]
  obtain res where "cli_main (demo_peer ?e ?e (serving g w)) [''cli'', ''infer'', ''1'', ''hi'', ''2''] = Inr res"
    "o_sent res = infer_message 1 ''hi'' 2" "o_status res = 0" unfolding a by (elim exE conjE) simp
  then show ?thesis using d(1) by blast
qed

text \<open>
  C19: End to end on the NPU: with a model loaded and a prompt with no line that starts with \<open>END\<close>, no
  NUL and no overlong line (\<open>safe_prompt\<close>), \<open>ai_daemon_cli npu_infer\<close> prints, in order, the texts of at
  most \<open>maxTokens\<close> tokens, each up to its first NUL, and then the outcome; the one exception is that the
  daemon ends in a \<open>length_error\<close>, when some token's text is too long for the buffer.  Of the library it
  needs that it keeps within the buffer of 256 bytes it is given for the text of a token.
\<close>

theorem npu_infer_end_to_end:
  assumes "ne_model (d_npu d) = Some m" "piece_in_buffer en" "safe_prompt prompt" "connected e en d p"
  shows "client_loop e en (npu_infer_message prompt (atoi n)) (d\<lparr>d_out := []\<rparr>) = Inl LengthError \<and> \<not> piece_fits en \<or>
    (\<exists>ok toks w' out'. npu_infer en prompt (atoi n) token_line (d_npu d) (d_npuHist d) [] = Inr (ok, w', out') \<and>
      out' = unlines (token_lines en m toks) \<and> length toks \<le> nat (atoi n) \<and>
      cli_main p [prog, ''npu_infer'', prompt, n] =
        Inr \<lparr>o_sent = npu_infer_message prompt (atoi n),
          o_stdout = concat (map (\<lambda>t. c_str (piece_text en m t)) toks) @ shown_verdict ok ''NPU_INFER_FAILED'',
          o_stderr = [], o_status = 0\<rparr>)"
proof -
  let ?d = "d\<lparr>d_out := []\<rparr>" and ?msg = "npu_infer_message prompt (atoi n)"
  have "npu_isReady (d_npu ?d)" using assms(1) by (simp add: npu_isReady_def)
  note run = npu_infer_message_run [OF atoi_int32 assms(3) this]
  show ?thesis
  proof (cases "npu_infer en prompt (atoi n) token_line (d_npu d) (d_npuHist d) []")
    case (Inl f)
    then show ?thesis
      using run [of e en n] npu_infer_fault [OF Inl] assms(1) by simp
  next
    case (Inr r)
    obtain ok w' out' where x: "npu_infer en prompt (atoi n) token_line (d_npu d) (d_npuHist d) [] = Inr (ok, w', out')"
      using Inr by (cases r) auto
    have c: "client_loop e en ?msg ?d =
        Inr (puts (verdict ok ''NPU_INFER_FAILED'') (?d\<lparr>d_npuHist := w', d_out := out'\<rparr>))"
      using x run [of e en n] by (simp add: verdict_def)
    from npu_infer_tokens [OF x assms(1)] obtain toks where
      T: "out' = unlines (token_lines en m toks)" "length toks \<le> nat (atoi n)" by auto
    have "p_reply p ?msg = unlines (token_lines en m toks @ [verdict ok ''NPU_INFER_FAILED''])"
      using assms(4) T(1) by (simp add: connected_def daemon_reply_def c puts_def)
    then have "response_loop (p_reply p ?msg) [] =
        Inr (concat (map (\<lambda>t. c_str (piece_text en m t)) toks) @ shown_verdict ok ''NPU_INFER_FAILED'')"
      using response_shown [OF assms(2), of "''NPU_INFER_FAILED''" m toks ok] by simp
    moreover have "p_fdopen p" using assms(4) by (simp add: connected_def)
    ultimately show ?thesis
      using T x unfolding connected_main(2) [OF assms(4)]
      by (intro disjI2 exI [of _ ok] exI [of _ toks] exI [of _ w'] exI [of _ out']) (simp add: print_response_def)
  qed
qed

definition npu_serving :: daemon where
  \<comment> \<open>a daemon without the CPU engine that has loaded an NPU model\<close>
  "npu_serving = cmd_npu_load (demo_env 60) ''m d 16 4'' (daemon_start demo_ctx_params)"

theorem npu_infer_end_to_end_witness:
  "\<exists>res. cli_main (demo_peer (demo_env 60) (demo_env 60) npu_serving) [''cli'', ''npu_infer'', ''hi'', ''2''] = Inr res \<and>
     o_sent res = npu_infer_message ''hi'' 2"
proof -
  have m: "ne_model (d_npu npu_serving) = Some 0" and s: "safe_prompt ''hi''" and a: "atoi ''2'' = 2" by code_simp+
  from npu_infer_end_to_end [OF m demo_piece(2) s demo_connected [of "demo_env 60" "demo_env 60" npu_serving], of "''2''" "''cli''"]
  show ?thesis using demo_piece(1) unfolding a by auto
qed

text \<open>
  C30: The arguments of \<open>npu_load\<close> reach the engine as typed, when the two paths are at most 511
  characters without white space and the numbers are decimal numbers in the range of \<open>int\<close>.
\<close>

theorem npu_load_arguments:
  assumes "plain_word m" "plain_word b" "int32 c" "int32 t" and "0 \<le> p_socket p" "0 \<le> p_connect p"
    and "cli_main p [prog, ''npu_load'', m, b, show_int c, show_int t] = Inr res"
  shows "client_loop e en (o_sent res) d = Inr (
    case npu_load en m b c t (d_npu d) (d_npuHist d) of (ok, g', w') \<Rightarrow>
      puts (if ok then ''OK'' else ''ERROR NPU_LOAD_FAILED'') (d\<lparr>d_npu := g', d_npuHist := w'\<rparr>))"
proof -
  let ?l = "''NPU_LOAD '' @ m @ '' '' @ b @ '' '' @ show_int c @ '' '' @ show_int t"
  have "res = SendAndReadLine p (npu_load_message m b (show_int c) (show_int t))"
    using assms(7) cli_main_npu_load [OF assms(5,6)] by simp
  then have s: "o_sent res = ?l @ newline # []" by (simp add: sent_line npu_load_message_def)
  have w: "set v \<inter> {newline, nul} = {} \<and> length v \<le> 511" if "plain_word v" for v
  proof -
    have "is_space newline" by (simp add: is_space_def)
    then show ?thesis using that by (auto simp: plain_word_def list_all_iff)
  qed
  have "set ?l \<inter> {newline, nul} = {}"
    using w [OF assms(1)] w [OF assms(2)] show_int_safe [of c] show_int_safe [of t] by auto
  moreover have "length ?l < 4095"
    using w [OF assms(1)] w [OF assms(2)] show_int_length [OF assms(3)] show_int_length [OF assms(4)] by simp
  ultimately have l: "client_loop e en (o_sent res) d =
      bindR (handle_command e en (?l @ [newline]) [] d) (\<lambda>(r', d'). client_loop e en r' d')"
    unfolding s by (rule client_loop_line)
  have "handle_command e en (?l @ [newline]) [] d = Inr ([],
      cmd_npu_load en (m @ '' '' @ b @ '' '' @ show_int c @ '' '' @ show_int t @ [newline]) d)"
    by (simp add: handle_command_def)
  then show ?thesis
    unfolding l cmd_npu_load_def Let_def npu_load_args_show [OF assms(1-4)] by simp
qed

theorem npu_load_arguments_witness:
  "\<exists>res. cli_main (demo_peer (demo_env 60) (demo_env 60) npu_serving) [''cli'', ''npu_load'', ''m'', ''d'', show_int 16, show_int 4] = Inr res \<and>
     (\<exists>d'. client_loop (demo_env 60) (demo_env 60) (o_sent res) npu_serving = Inr d')"
proof -
  obtain res where r: "cli_main (demo_peer (demo_env 60) (demo_env 60) npu_serving)
      [''cli'', ''npu_load'', ''m'', ''d'', show_int 16, show_int 4] = Inr res"
    by (simp add: cli_main_def Connect_def demo_peer_def)
  have p: "plain_word ''m''" "plain_word ''d''" "int32 16" "int32 4"
    by (simp_all add: plain_word_def is_space_def int32_def)
  have c: "0 \<le> p_socket (demo_peer (demo_env 60) (demo_env 60) npu_serving)"
    "0 \<le> p_connect (demo_peer (demo_env 60) (demo_env 60) npu_serving)" by (simp_all add: demo_peer_def)
  from npu_load_arguments [OF p c r, of "demo_env 60" "demo_env 60" npu_serving] show ?thesis using r by blast
qed

lemma one_line_command:
  assumes "set l \<inter> {newline, nul} = {}" "length l < 4095"
    and "handle_command e en (l @ [newline]) [] d = bindR x (\<lambda>d'. Inr ([], d'))"
  shows "client_loop e en (l @ [newline]) d = x"
  using client_loop_line [OF assms(1,2), of e en "[]" d] assms(3) by (cases x) auto

text \<open>
  C29: The client's \<open>create_session\<close>, \<open>kill_session\<close> and \<open>set_hot_limit\<close> with a number perform exactly
  that call on the session manager of a loaded daemon, and one line answers it.
\<close>

theorem session_commands_take_effect:
  assumes "int32 i" "n < 2 ^ 31" "d_ready d" "0 \<le> p_socket p" "0 \<le> p_connect p"
    and "cli_main p [prog, ''create_session'', show_int i] = Inr create"
    and "cli_main p [prog, ''kill_session'', show_int i] = Inr kill"
    and "cli_main p [prog, ''set_hot_limit'', show_int (int n)] = Inr limit"
  shows "client_loop e en (o_sent create) d = bindR (with_sessions (\<lambda>s w. Inr (createSession e i s w)) d)
      (\<lambda>(ok, d'). Inr (puts (if ok then ''OK'' else ''ERROR ALREADY_EXISTS'') d')) \<and>
    client_loop e en (o_sent kill) d = bindR (with_sessions (killSession i) d)
      (\<lambda>(ok, d'). Inr (puts (if ok then ''OK'' else ''ERROR NOT_FOUND'') d')) \<and>
    client_loop e en (o_sent limit) d =
      bindR (with_sessions (\<lambda>s w. bindR (setHotLimit e (of_nat n) s w) (\<lambda>(s', w'). Inr ((), s', w'))) d)
      (\<lambda>(u, d'). Inr (puts ''OK'' d'))"
proof -
  have n: "int32 (int n)" using assms(2) by (simp add: int32_def)
  have r: "engine_isReady (d_engine d)" using assms(3) by (simp add: d_ready_def)
  have sent: "o_sent create = (''CREATE_SESSION '' @ show_int i) @ [newline]"
    "o_sent kill = (''KILL_SESSION '' @ show_int i) @ [newline]"
    "o_sent limit = (''SET_HOT_LIMIT '' @ show_int (int n)) @ [newline]"
    using assms(6-8) unfolding cli_main_session [OF assms(4,5)] by auto
  have "client_loop e en ((''CREATE_SESSION '' @ show_int i) @ [newline]) d =
      cmd_create_session e (show_int i @ [newline]) d"
    by (intro one_line_command session_line(1,2) assms(1)) (simp_all add: handle_command_def)
  moreover have "client_loop e en ((''KILL_SESSION '' @ show_int i) @ [newline]) d =
      cmd_kill_session (show_int i @ [newline]) d"
    by (intro one_line_command session_line(1,2) assms(1)) (simp_all add: handle_command_def)
  moreover have "client_loop e en ((''SET_HOT_LIMIT '' @ show_int (int n)) @ [newline]) d =
      cmd_set_hot_limit e (show_int (int n) @ [newline]) d"
    by (intro one_line_command session_line(1,2) n) (simp_all add: handle_command_def)
  ultimately show ?thesis
    unfolding sent using session_line(3) [OF assms(1), of "[]"] strtoul_show [of n] assms(2) r
    by (simp add: cmd_create_session_def cmd_kill_session_def cmd_set_hot_limit_def Let_def)
qed

theorem session_commands_take_effect_witness:
  "\<exists>g w kill. demo_engine = Inr (g, w) \<and>
     cli_main (demo_peer (demo_env 60) (demo_env 60) (serving g w)) [''cli'', ''kill_session'', show_int 1] = Inr kill \<and>
     client_loop (demo_env 60) (demo_env 60) (o_sent kill) (serving g w) = bindR (with_sessions (killSession 1) (serving g w))
      (\<lambda>(ok, d'). Inr (puts (if ok then ''OK'' else ''ERROR NOT_FOUND'') d'))"
proof -
  let ?e = "demo_env 60"
  have "with_engine (\<lambda>g w. True)" by code_simp
  then obtain g w where d: "demo_engine = Inr (g, w)" "engine_isReady g" by (rule with_engineE) blast
  let ?p = "demo_peer ?e ?e (serving g w)"
  have h: "int32 1" "(3 :: nat) < 2 ^ 31" "d_ready (serving g w)" "0 \<le> p_socket ?p" "0 \<le> p_connect ?p"
    using d(2) by (simp_all add: int32_def d_ready_def serving_def demo_peer_def)
  note c = cli_main_session [OF h(4,5), of "''cli''"]
  from session_commands_take_effect [OF h c(1) c(2) c(3), of ?e ?e] show ?thesis using d(1) c(2) by blast
qed



end
